(* ===== verification/Ed_Prelude.thy ===== *)
theory Ed_Prelude
  imports Main
begin

text \<open>
  Shared vocabulary of the development: statuses and results of the C functions, the bytes the
  editor compares its input with, the character classes of \<open>ctype.h\<close> in the C locale, the
  arithmetic limits of \<open>off_t\<close> and \<open>size_t\<close>, and the generic facts on lists that the
  components use.  The collections \<open>ed_simps\<close> (unfolding of small helpers) and \<open>ed_intros\<close>
  (preservation facts) are declared here and filled by the components.
\<close>

named_theorems ed_simps "unfolding rules for small helpers of the model"
named_theorems ed_intros "introduction rules of the component invariants"

section \<open>Results of the C functions\<close>

text \<open>
  The negative statuses of \<open>enum ed_command_error\<close>.  A C function that returns \<open>int\<close> or a
  pointer returns here a sum: \<open>Inl\<close> of the negative status (or of \<open>ERR\<close> for a null
  pointer), \<open>Inr\<close> of the value otherwise.  The state is returned in both cases, because
  what a failing function did before its early return stays done.
\<close>

datatype ed_command_error = EOF | ERR | EMOD | FATAL | EOF_NEXT | EOF_PREV | EOF_GLOB

fun status_code :: "ed_command_error \<Rightarrow> int" where
  "status_code EOF = -1"
| "status_code ERR = -2"
| "status_code EMOD = -3"
| "status_code FATAL = -4"
| "status_code EOF_NEXT = -5"
| "status_code EOF_PREV = -6"
| "status_code EOF_GLOB = -7"

type_synonym ('a, 's) result = "(ed_command_error + 'a) \<times> 's"

text \<open>\<open>andThen r f\<close> goes on with \<open>f\<close> unless \<open>r\<close> is an early return.\<close>

definition andThen ::
  "('a, 's) result \<Rightarrow> ('a \<Rightarrow> 's \<Rightarrow> ('b, 's) result) \<Rightarrow> ('b, 's) result" where
  "andThen r f = (case r of (Inl e, s) \<Rightarrow> (Inl e, s) | (Inr a, s) \<Rightarrow> f a s)"

lemma andThen_Inl [simp]: "andThen (Inl e, s) f = (Inl e, s)"
  by (simp add: andThen_def)

lemma andThen_Inr [simp]: "andThen (Inr a, s) f = f a s"
  by (simp add: andThen_def)

lemma andThen_fst:
  "fst r = Inl e \<Longrightarrow> andThen r f = (Inl e, snd r)" "fst r = Inr a \<Longrightarrow> andThen r f = f a (snd r)"
  by (cases r; simp)+

lemma andThen_eq_Inr:
  "andThen r f = (Inr b, t) \<longleftrightarrow> (\<exists>a s. r = (Inr a, s) \<and> f a s = (Inr b, t))"
  by (cases r) (auto simp: andThen_def split: sum.splits)

lemma andThen_eq_Inl:
  "andThen r f = (Inl e, t) \<longleftrightarrow>
     r = (Inl e, t) \<or> (\<exists>a s. r = (Inr a, s) \<and> f a s = (Inl e, t))"
  by (cases r) (auto simp: andThen_def split: sum.splits)

text \<open>An invariant of the state passes through a sequence of calls.\<close>

lemma andThen_keeps [ed_intros]:
  assumes "I (snd r)" and "\<And>a s. r = (Inr a, s) \<Longrightarrow> I s \<Longrightarrow> I (snd (f a s))"
  shows "I (snd (andThen r f))"
  using assms by (cases r) (auto simp: andThen_def split: sum.splits)

lemma andThen_frame:
  assumes "g (snd r) = g s0" and "\<And>a s. r = (Inr a, s) \<Longrightarrow> g (snd (f a s)) = g s"
  shows "g (snd (andThen r f)) = g s0"
  using assms by (cases r) (auto simp: andThen_def split: sum.splits)

text \<open>
  The models of loops take fuel and return \<open>FATAL\<close> when it is spent, a status that the functions
  modelled this way do not return: \<open>ends\<close> says that the fuel was enough.
\<close>

definition ends :: "('a, 's) result \<Rightarrow> bool" where
  "ends r \<longleftrightarrow> fst r \<noteq> Inl FATAL"

lemma ends_simps [simp]: "ends (Inr a, s)" "ends (Inl ERR, s)" "ends (Inl EOF, s)"
  by (simp_all add: ends_def)

lemma ends_andThen: "ends r \<Longrightarrow> (\<And>a. fst r = Inr a \<Longrightarrow> ends (f a (snd r))) \<Longrightarrow> ends (andThen r f)"
  by (cases r) (auto simp: andThen_def ends_def split: sum.splits)

section \<open>Bytes\<close>

abbreviation NUL :: char where "NUL \<equiv> CHR 0x00"
abbreviation BELL :: char where "BELL \<equiv> CHR 0x07"
abbreviation BACKSPACE :: char where "BACKSPACE \<equiv> CHR 0x08"
abbreviation CHARACTER_TABULATION :: char where "CHARACTER_TABULATION \<equiv> CHR 0x09"
abbreviation LINE_FEED :: char where "LINE_FEED \<equiv> CHR 0x0A"
abbreviation LINE_TABULATION :: char where "LINE_TABULATION \<equiv> CHR 0x0B"
abbreviation FORM_FEED :: char where "FORM_FEED \<equiv> CHR 0x0C"
abbreviation CARRIAGE_RETURN :: char where "CARRIAGE_RETURN \<equiv> CHR 0x0D"
abbreviation ESCAPE :: char where "ESCAPE \<equiv> CHR 0x1B"
abbreviation APOSTROPHE :: char where "APOSTROPHE \<equiv> CHR 0x27"
abbreviation REVERSE_SOLIDUS :: char where "REVERSE_SOLIDUS \<equiv> CHR 0x5C"

definition byte :: "char \<Rightarrow> nat" where
  "byte c = of_char c"

text \<open>
  A C string in memory is the list of its bytes; the byte at the end of the list is the
  terminating NUL.  \<open>cur s\<close> is \<open>*s\<close>, \<open>peek k s\<close> is \<open>*(s + k)\<close>, and \<open>drop k s\<close> is
  \<open>s + k\<close>.
\<close>

definition cur :: "string \<Rightarrow> char" where
  "cur s = (case s of [] \<Rightarrow> NUL | c # _ \<Rightarrow> c)"

definition peek :: "nat \<Rightarrow> string \<Rightarrow> char" where
  "peek k s = cur (drop k s)"

text \<open>\<open>cstr s\<close> is what \<open>strlen\<close>, \<open>strcpy\<close> and the like see of a byte buffer.\<close>

definition cstr :: "string \<Rightarrow> string" where
  "cstr s = takeWhile (\<lambda>c. c \<noteq> NUL) s"

lemma cur_simps [simp]: "cur [] = NUL" "cur (c # cs) = c"
  by (simp_all add: cur_def)

lemma peek_simps [simp]:
  "peek k [] = NUL" "peek 0 s = cur s" "peek (Suc k) (c # cs) = peek k cs"
  by (simp_all add: peek_def)

lemma peek_1 [simp]: "peek 1 (c # cs) = cur cs"
  by (simp add: peek_def)

lemma cstr_simps [simp]:
  "cstr [] = []" "cstr (c # cs) = (if c = NUL then [] else c # cstr cs)"
  by (simp_all add: cstr_def)

lemma cstr_id: "NUL \<notin> set s \<Longrightarrow> cstr s = s"
  by (induction s) auto

lemma NUL_notin_cstr [simp]: "NUL \<notin> set (cstr s)"
  by (induction s) auto

section \<open>Character classes\<close>

definition isdigit :: "char \<Rightarrow> bool" where
  "isdigit c \<longleftrightarrow> 48 \<le> byte c \<and> byte c \<le> 57"

definition islower :: "char \<Rightarrow> bool" where
  "islower c \<longleftrightarrow> 97 \<le> byte c \<and> byte c \<le> 122"

definition isupper :: "char \<Rightarrow> bool" where
  "isupper c \<longleftrightarrow> 65 \<le> byte c \<and> byte c \<le> 90"

definition isalnum :: "char \<Rightarrow> bool" where
  "isalnum c \<longleftrightarrow> isdigit c \<or> islower c \<or> isupper c"

definition isspace :: "char \<Rightarrow> bool" where
  "isspace c \<longleftrightarrow> c = CHR '' '' \<or> (9 \<le> byte c \<and> byte c \<le> 13)"

definition toupper :: "char \<Rightarrow> char" where
  "toupper c = (if islower c then char_of (byte c - 32) else c)"

definition tolower :: "char \<Rightarrow> char" where
  "tolower c = (if isupper c then char_of (byte c + 32) else c)"

definition digit_val :: "char \<Rightarrow> nat" where
  "digit_val c = byte c - 48"

lemmas ctype_defs = isdigit_def islower_def isupper_def isalnum_def isspace_def byte_def

lemma byte_less [simp]: "byte c < 256"
  by (simp add: byte_def)

lemma isdigit_not_NUL [simp]: "\<not> isdigit NUL"
  by (simp add: ctype_defs)

lemma isspace_LINE_FEED [simp]: "isspace LINE_FEED"
  by (simp add: ctype_defs)

lemma isspace_NUL [simp]: "\<not> isspace NUL"
  by (simp add: ctype_defs)

section \<open>Machine limits\<close>

definition OFF_T_MAX :: int where "OFF_T_MAX = 2 ^ 63 - 1"
definition SIZE_MAX :: int where "SIZE_MAX = 2 ^ 64 - 1"
definition LLONG_MAX :: int where "LLONG_MAX = 2 ^ 63 - 1"

text \<open>The value of a (signed) integer converted to \<open>size_t\<close>.\<close>

definition u64 :: "int \<Rightarrow> int" where
  "u64 n = n mod 2 ^ 64"

lemma u64_id: "0 \<le> n \<Longrightarrow> n < 2 ^ 64 \<Longrightarrow> u64 n = n"
  by (simp add: u64_def)

text \<open>\<open>INC_MOD\<close> and \<open>DEC_MOD\<close>: cyclic successor and predecessor in \<open>0..k\<close>.\<close>

definition INC_MOD :: "int \<Rightarrow> int \<Rightarrow> int" where
  "INC_MOD l k = (if l = k then 0 else l + 1)"

definition DEC_MOD :: "int \<Rightarrow> int \<Rightarrow> int" where
  "DEC_MOD l k = (if l = 0 then k else l - 1)"

lemma INC_MOD_bounds: "0 \<le> l \<Longrightarrow> l \<le> k \<Longrightarrow> 0 \<le> INC_MOD l k \<and> INC_MOD l k \<le> k"
  by (auto simp: INC_MOD_def)

lemma DEC_MOD_INC_MOD: "0 \<le> l \<Longrightarrow> l \<le> k \<Longrightarrow> DEC_MOD (INC_MOD l k) k = l"
  by (auto simp: INC_MOD_def DEC_MOD_def)

section \<open>Facts on lists\<close>

lemma split_at_nth: "i < length xs \<Longrightarrow> xs = take i xs @ xs ! i # drop (Suc i) xs"
  by (rule id_take_nth_drop)

lemma take_drop_segment:
  "i \<le> j \<Longrightarrow> j \<le> length xs \<Longrightarrow> xs = take i xs @ take (j - i) (drop i xs) @ drop j xs"
  by (metis append_take_drop_id drop_drop le_add_diff_inverse2)

lemma butlast_snoc_set: "xs \<noteq> [] \<Longrightarrow> distinct (xs @ ys) \<Longrightarrow> last xs \<notin> set (butlast xs)"
  by (metis append_butlast_last_id distinct_append distinct_butlast not_distinct_conv_prefix)

end
