(* ===== verification/Ed_Types.thy ===== *)
theory Ed_Types
  imports Ed_Prelude
begin

text \<open>
  The data of \<open>src/src/ed.h\<close> as records and datatypes, and the machine around it: streams with
  a position, the standard input and output, an oracle that says which of the fallible calls of
  the C library succeed, and the signal mutex.

  Pointers to line nodes are natural numbers (\<open>line_head\<close> is 0, \<open>malloc\<close> hands out
  \<open>next_node\<close>), and \<open>nodes\<close> is the memory that holds them, so that \<open>LINK_NODES\<close> on a shared
  node has the aliasing it has in C.  A bit mask of flags is the set of its flags.  Buffers that
  the code grows with \<open>realloc\<close> are lists; growing them is not a fallible call of the model.
\<close>

section \<open>Flags\<close>

text \<open>\<open>enum ed_command_flags\<close>\<close>

datatype ed_flag =
    ANSI_COLOR | EXIT_ON_ERROR | IN_PLACE | MASK_EXIT_ON_ERROR | POSIXLY_CORRECT | PRINT_CONFIG
  | PRINT_FIRST_FILE | PRINT_HELP | PRINT_VERSION | PROMPT | REGEX_EXTENDED | RESTRICTED
  | FSCRIPT | SCRIPTED | TRADITIONAL | UNSAFE_NAMES | VERBOSE | WRITE_ONLY

text \<open>\<open>enum ed_modifier_flags\<close>\<close>

datatype ed_modifier =
    LIST | NMBR | PRNT | PRSW | SMLR | SNLR | GSUB | GSFQ | TGSG | TGSF | TGSP | TGSR | SGPR
  | GLBL | GLBI | ZFWD | ZBWD | ZHFW | ZHBW | OFFB

text \<open>\<open>enum register_io_flags\<close>\<close>

datatype register_io = REGISTER_READ | REGISTER_WRITE

text \<open>\<open>f ^= x\<close> on a bit mask\<close>

definition toggle :: "'a \<Rightarrow> 'a set \<Rightarrow> 'a set" where
  "toggle x f = (if x \<in> f then f - {x} else insert x f)"

lemma toggle_toggle [simp]: "toggle x (toggle x f) = f"
  by (auto simp: toggle_def)

section \<open>Nodes\<close>

type_synonym node = nat

definition line_head :: node where
  "line_head = 0"

record ed_line_node =
  q_forw :: node
  q_back :: node
  ln_len :: nat
  ln_seek :: int

type_synonym heap = "node \<Rightarrow> ed_line_node"

datatype ed_undo_op = UADD | UDEL | UMOV | URET

text \<open>\<open>type ^= 1\<close>: the inverse of an operation differs in the least significant bit.\<close>

fun undo_inverse :: "ed_undo_op \<Rightarrow> ed_undo_op" where
  "undo_inverse UADD = UDEL"
| "undo_inverse UDEL = UADD"
| "undo_inverse UMOV = URET"
| "undo_inverse URET = UMOV"

lemma undo_inverse_inverse [simp]: "undo_inverse (undo_inverse t) = t"
  by (cases t) auto

record ed_undo_node =
  undo_h :: node
  undo_t :: node
  undo_type :: ed_undo_op

record ed_global_buffer =
  gb_lbuf :: "node option list"
  gb_last :: nat
  gb_ptr :: nat
  gb_index :: nat

section \<open>Streams\<close>

text \<open>
  A \<open>FILE\<close> is its contents, its position and its end-of-file indicator; the code names
  streams by pointers, the model by numbers.
\<close>

type_synonym stream_id = nat

record ed_stream =
  f_data :: string
  f_pos :: nat
  f_eof :: bool

definition empty_stream :: ed_stream where
  "empty_stream = \<lparr>f_data = [], f_pos = 0, f_eof = False\<rparr>"

section \<open>Editor state\<close>

record ed_state =
  dot :: int
  lines :: int
  is_binary :: bool
  is_utf8 :: bool
  is_empty :: bool
  is_modified :: bool
  newline_appended :: bool
  newline_missing :: bool
  input_is_binary :: bool

definition REGBUF_MAX :: int where "REGBUF_MAX = 101"
definition STACK_FRAMES_MAX :: nat where "STACK_FRAMES_MAX = 100"
definition MARK_MAX :: nat where "MARK_MAX = 26"

record ed_register =
  reg_fp :: "int \<Rightarrow> stream_id option"
  read_idx :: int
  write_idx :: int
  rio_f :: "register_io set"

record ed_stack_frame =
  sf_fp :: stream_id
  sf_size :: nat
  sf_addr :: nat

record ed_core =
  regbuf :: ed_register
  stack_frame :: "nat \<Rightarrow> ed_stack_frame"
  sp :: nat
  mark :: "nat \<Rightarrow> node option"
  marks :: int
  global_buffer :: ed_global_buffer
  nodes :: heap
  next_node :: node
  freed :: "node set"
  undo_queue :: "ed_undo_node list"
  core_fp :: stream_id
  offset :: int
  seek_on_write :: bool

record ed_display =
  ws_row :: int
  ws_col :: int
  page_addr :: int
  paging :: int
  is_paging :: int
  underflow :: bool
  overflow :: bool
  hidden :: bool
  dio_f :: "ed_modifier set"

record ed_region =
  region_start :: int
  region_end :: int
  addrs :: int

text \<open>
  A compiled regular expression is opaque to the editor: the library is a parameter of the
  components that use it, and the handle holds what the library was given to compile.  The field
  \<open>re_id\<close> stands for the pointer: each compiled expression has its own.
\<close>

record regex =
  re_id :: nat
  re_pattern :: string
  re_extended :: bool
  re_nsub :: nat

record ed_substitute =
  lhs :: "regex option"
  s_mod :: int
  s_nth :: int
  r_f :: bool
  s_f :: "ed_modifier set"
  sio_f :: "ed_modifier set"

record ed_execute =
  subst :: ed_substitute
  region :: ed_region
  exec_fp :: "stream_id option"
  script_pathname :: "string option"
  address :: "string option"
  err :: "string option"
  prompt :: string
  line_no :: int
  have_key :: bool
  first_pass :: bool
  global :: "ed_modifier set"
  macro_in_global :: "ed_modifier set"
  opt :: "ed_flag set"
  exit_status :: int

record ed_file =
  file_name_of :: "string option"
  is_glob :: bool

text \<open>
  The \<open>static\<close> variables of the functions: the cached node of \<open>get_line_node\<close>, the two
  patterns of \<open>get_compiled_regex\<close> and the expressions it has freed, the template of \<open>substitution_template\<close>, the previous
  command of \<open>expand_shell_command\<close>, the command list saved by \<open>macro_cmd\<close> and the one of \<open>exec_global\<close>.
\<close>

record ed_statics =
  gl_lp :: "node option"
  gl_n_prev :: int
  re_search :: "regex option"
  re_subst :: "regex option"
  re_freed :: "nat set"
  subst_rhs :: "string option"
  subst_rhs_i :: nat
  sc_prev :: "string option"
  saved_input :: "string option"
  gcb :: "string option"

text \<open>
  \<open>ed_buffer\<close>: \<open>state\<close> is \<open>state[0]\<close>, \<open>state1\<close> is \<open>state[1]\<close>.  From \<open>statics\<close> on, the
  fields are not of the C struct: the statics, the streams, the three standard streams
  (\<open>std_in\<close> is the value of the pointer \<open>stdin\<close>, which macros redirect), the signal mutex,
  the oracle of library calls and the files of the file system by name.
\<close>

record ed_buffer =
  state :: ed_state
  state1 :: ed_state
  core :: ed_core
  display :: ed_display
  exec :: ed_execute
  file_info :: ed_file
  input :: string
  statics :: ed_statics
  streams :: "stream_id \<Rightarrow> ed_stream"
  next_stream :: stream_id
  std_in :: stream_id
  std_out :: string
  std_err :: string
  mutex :: int
  sys_ok :: "nat \<Rightarrow> bool"
  sys_n :: nat
  files :: "string \<Rightarrow> string option"

type_synonym 'a res = "('a, ed_buffer) result"

section \<open>Assignments to the fields\<close>

abbreviation set_dot :: "int \<Rightarrow> ed_buffer \<Rightarrow> ed_buffer" where
  "set_dot n \<equiv> state_update (dot_update (\<lambda>_. n))"
abbreviation set_lines :: "int \<Rightarrow> ed_buffer \<Rightarrow> ed_buffer" where
  "set_lines n \<equiv> state_update (lines_update (\<lambda>_. n))"
abbreviation set_is_modified :: "bool \<Rightarrow> ed_buffer \<Rightarrow> ed_buffer" where
  "set_is_modified b \<equiv> state_update (is_modified_update (\<lambda>_. b))"
abbreviation set_is_empty :: "bool \<Rightarrow> ed_buffer \<Rightarrow> ed_buffer" where
  "set_is_empty b \<equiv> state_update (is_empty_update (\<lambda>_. b))"
abbreviation set_is_binary :: "bool \<Rightarrow> ed_buffer \<Rightarrow> ed_buffer" where
  "set_is_binary b \<equiv> state_update (is_binary_update (\<lambda>_. b))"
abbreviation set_newline_appended :: "bool \<Rightarrow> ed_buffer \<Rightarrow> ed_buffer" where
  "set_newline_appended b \<equiv> state_update (newline_appended_update (\<lambda>_. b))"
abbreviation set_newline_missing :: "bool \<Rightarrow> ed_buffer \<Rightarrow> ed_buffer" where
  "set_newline_missing b \<equiv> state_update (newline_missing_update (\<lambda>_. b))"
abbreviation set_input_is_binary :: "bool \<Rightarrow> ed_buffer \<Rightarrow> ed_buffer" where
  "set_input_is_binary b \<equiv> state_update (input_is_binary_update (\<lambda>_. b))"
abbreviation set_nodes :: "heap \<Rightarrow> ed_buffer \<Rightarrow> ed_buffer" where
  "set_nodes h \<equiv> core_update (nodes_update (\<lambda>_. h))"
abbreviation set_err :: "string \<Rightarrow> ed_buffer \<Rightarrow> ed_buffer" where
  "set_err s \<equiv> exec_update (err_update (\<lambda>_. Some s))"
abbreviation set_input :: "string \<Rightarrow> ed_buffer \<Rightarrow> ed_buffer" where
  "set_input s \<equiv> input_update (\<lambda>_. s)"
abbreviation set_region_start :: "int \<Rightarrow> ed_buffer \<Rightarrow> ed_buffer" where
  "set_region_start n \<equiv> exec_update (region_update (region_start_update (\<lambda>_. n)))"
abbreviation set_region_end :: "int \<Rightarrow> ed_buffer \<Rightarrow> ed_buffer" where
  "set_region_end n \<equiv> exec_update (region_update (region_end_update (\<lambda>_. n)))"
abbreviation set_addrs :: "int \<Rightarrow> ed_buffer \<Rightarrow> ed_buffer" where
  "set_addrs n \<equiv> exec_update (region_update (addrs_update (\<lambda>_. n)))"
abbreviation set_dio_f :: "ed_modifier set \<Rightarrow> ed_buffer \<Rightarrow> ed_buffer" where
  "set_dio_f f \<equiv> display_update (dio_f_update (\<lambda>_. f))"

text \<open>\<open>ed->exec->err = msg; return ERR;\<close>\<close>

definition throw :: "string \<Rightarrow> ed_buffer \<Rightarrow> 'a res" where
  "throw msg ed = (Inl ERR, set_err msg ed)"

lemma throw_not_Inr [simp]: "throw msg e \<noteq> (Inr x, s)" "fst (throw msg e) = Inl ERR"
  by (simp_all add: throw_def)

lemma ends_throw [simp]: "ends (throw msg e)"
  by (simp add: throw_def)

text \<open>\<open>opt & (POSIXLY_CORRECT | TRADITIONAL)\<close>\<close>

definition posix_or_traditional :: "ed_buffer \<Rightarrow> bool" where
  "posix_or_traditional ed \<longleftrightarrow> POSIXLY_CORRECT \<in> opt (exec ed) \<or> TRADITIONAL \<in> opt (exec ed)"

section \<open>Signals and the C library\<close>

text \<open>
  \<open>spl1\<close> and \<open>spl0\<close> of \<open>signal.c\<close> while no signal is pending: they raise and lower
  \<open>_mutex\<close>.  Theory \<open>Signals\<close> models them with pending signals.
\<close>

definition spl1 :: "ed_buffer \<Rightarrow> ed_buffer" where
  "spl1 = mutex_update (\<lambda>n. n + 1)"

definition spl0 :: "ed_buffer \<Rightarrow> ed_buffer" where
  "spl0 = mutex_update (\<lambda>n. n - 1)"

text \<open>
  A call of the C library that may fail (\<open>malloc\<close>, \<open>fseek\<close>, \<open>fread\<close>, \<open>fwrite\<close>, ...) asks the
  oracle, which answers each call once.
\<close>

definition sys_call :: "ed_buffer \<Rightarrow> bool \<times> ed_buffer" where
  "sys_call ed = (sys_ok ed (sys_n ed), sys_n_update Suc ed)"

definition sys_all_ok :: "ed_buffer \<Rightarrow> bool" where
  "sys_all_ok ed \<longleftrightarrow> sys_ok ed = (\<lambda>_. True)"

definition upd_stream :: "stream_id \<Rightarrow> (ed_stream \<Rightarrow> ed_stream) \<Rightarrow> ed_buffer \<Rightarrow> ed_buffer" where
  "upd_stream fp f = streams_update (\<lambda>s. s(fp := f (s fp)))"

text \<open>\<open>fwrite\<close> of \<open>s\<close> at the current position: overwrite, then extend.\<close>

definition stream_write :: "string \<Rightarrow> ed_stream \<Rightarrow> ed_stream" where
  "stream_write s f = f\<lparr>f_data := take (f_pos f) (f_data f)
       @ replicate (f_pos f - length (f_data f)) NUL @ s @ drop (f_pos f + length s) (f_data f),
     f_pos := f_pos f + length s\<rparr>"

text \<open>\<open>fread\<close> of \<open>n\<close> bytes: the bytes and the stream after them.\<close>

definition stream_read :: "nat \<Rightarrow> ed_stream \<Rightarrow> string \<times> ed_stream" where
  "stream_read n f = (let s = take n (drop (f_pos f) (f_data f)) in
     (s, f\<lparr>f_pos := f_pos f + length s, f_eof := f_eof f \<or> length s < n\<rparr>))"

lemma sys_call_ok [simp]: "sys_all_ok ed \<Longrightarrow> sys_call ed = (True, sys_n_update Suc ed)"
  by (simp add: sys_call_def sys_all_ok_def)

text \<open>What the splits of \<open>sys_call\<close> leave alone: everything but the counter.\<close>

lemma sys_call_frame [simp]:
  "state (snd (sys_call ed)) = state ed"
  "core (snd (sys_call ed)) = core ed"
  "statics (snd (sys_call ed)) = statics ed"
  by (simp_all add: sys_call_def)

end
