(* ===== verification/Line_Nodes.thy ===== *)
theory Line_Nodes
  imports Ed_Types
begin

text \<open>
  The in-core line buffer of \<open>buffer.c\<close>: a circular doubly linked list of line nodes with the
  head \<open>line_head\<close>, and \<open>get_line_node\<close>, which finds the node of an address by walking from the
  nearest of the head, the tail and the node it returned last.

  \<open>ring h ns\<close> says that the nodes of the memory \<open>h\<close> linked from the head are \<open>ns\<close>, in both
  directions; \<open>buf_inv ed ns\<close> adds that \<open>lines\<close> counts them, that they are allocated and that
  the cached node is at its cached address.  The lemmas show how \<open>LINK_NODES\<close> changes a ring,
  and that under \<open>buf_inv\<close> the walk of \<open>get_line_node\<close> ends at the addressed node.
\<close>

section \<open>The linking macros\<close>

definition link_nodes :: "node \<Rightarrow> node \<Rightarrow> heap \<Rightarrow> heap" where
  "link_nodes prev next h =
     (let h1 = h(prev := (h prev)\<lparr>q_forw := next\<rparr>)
      in h1(next := (h1 next)\<lparr>q_back := prev\<rparr>))"

definition append_node :: "node \<Rightarrow> node \<Rightarrow> heap \<Rightarrow> heap" where
  "append_node np prev h =
     (let h1 = link_nodes np (q_forw (h prev)) h in link_nodes prev np h1)"

section \<open>Finding and adding nodes\<close>

fun walk_forw :: "heap \<Rightarrow> nat \<Rightarrow> node \<Rightarrow> node" where
  "walk_forw h 0 p = p"
| "walk_forw h (Suc k) p = walk_forw h k (q_forw (h p))"

fun walk_back :: "heap \<Rightarrow> nat \<Rightarrow> node \<Rightarrow> node" where
  "walk_back h 0 p = p"
| "walk_back h (Suc k) p = walk_back h k (q_back (h p))"

text \<open>The assignments to the two statics of \<open>get_line_node\<close>\<close>

definition cache_node :: "node \<Rightarrow> int \<Rightarrow> ed_buffer \<Rightarrow> ed_buffer" where
  "cache_node p n = statics_update (\<lambda>s. s\<lparr>gl_lp := Some p, gl_n_prev := n\<rparr>)"

definition get_line_node :: "int \<Rightarrow> ed_buffer \<Rightarrow> node \<times> ed_buffer" where
  "get_line_node n ed =
     (let h = nodes (core ed);
          total = lines (state ed);
          lp = (case gl_lp (statics ed) of None \<Rightarrow> line_head | Some p \<Rightarrow> p);
          n_prev = gl_n_prev (statics ed);
          (lp', n') =
            (if n_prev < n then
               if n \<le> (n_prev + total) div 2
               then (walk_forw h (nat (n - n_prev)) lp, n)
               else (walk_back h (nat (total - n)) (q_back (h line_head)), min n total)
             else
               if n_prev div 2 \<le> n
               then (walk_back h (nat (n_prev - n)) lp, n)
               else (walk_forw h (nat n) line_head, max n 0))
      in (lp', cache_node lp' n' ed))"

definition append_line_node :: "nat \<Rightarrow> int \<Rightarrow> int \<Rightarrow> ed_buffer \<Rightarrow> node res" where
  "append_line_node len seek addr ed =
     (if OFF_T_MAX \<le> lines (state ed) then throw ''Buffer full'' ed
      else case sys_call ed of
        (False, ed) \<Rightarrow> throw ''Memory exhausted'' ed
      | (True, ed) \<Rightarrow>
          (let lp = next_node (core ed);
               ed = core_update (next_node_update Suc) ed;
               h = nodes (core ed);
               ed = set_nodes (h(lp := (h lp)\<lparr>ln_len := len, ln_seek := seek\<rparr>)) ed;
               (np, ed) = get_line_node addr ed;
               ed = set_nodes (append_node lp np (nodes (core ed))) ed
           in (Inr lp, set_lines (lines (state ed) + 1) ed)))"

text \<open>
  \<open>get_line_node_address\<close> walks from the head until it meets the node or the head again; a null
  pointer (a mark that is not set) meets neither.  The loop takes fuel; the number of allocated
  nodes is enough (\<open>address_loop_found\<close>, \<open>address_loop_not_found\<close>).
\<close>

fun address_loop :: "nat \<Rightarrow> heap \<Rightarrow> node option \<Rightarrow> node \<Rightarrow> int \<Rightarrow> (node \<times> int) option" where
  "address_loop 0 h lp cp addr = None"
| "address_loop (Suc k) h lp cp addr =
     (if Some cp = lp then Some (cp, addr)
      else let cp' = q_forw (h cp)
           in if cp' = line_head then Some (cp', addr)
              else address_loop k h lp cp' (addr + 1))"

definition get_line_node_address :: "node option \<Rightarrow> ed_buffer \<Rightarrow> int res" where
  "get_line_node_address lp ed =
     (case address_loop (next_node (core ed)) (nodes (core ed)) lp line_head 0 of
        None \<Rightarrow> (Inl FATAL, ed)
      | Some (cp, addr) \<Rightarrow>
          if addr \<noteq> 0 \<and> cp = line_head then throw ''Address out of range'' ed
          else (Inr addr, ed))"

section \<open>Fields of linked nodes\<close>

lemma link_nodes_fields [simp]:
  "q_forw (link_nodes p n h x) = (if x = p then n else q_forw (h x))"
  "q_back (link_nodes p n h x) = (if x = n then p else q_back (h x))"
  "ln_len (link_nodes p n h x) = ln_len (h x)"
  "ln_seek (link_nodes p n h x) = ln_seek (h x)"
  by (simp_all add: link_nodes_def Let_def)

lemma heap_eqI:
  assumes "\<And>x. q_forw (h x) = q_forw (h' x)" "\<And>x. q_back (h x) = q_back (h' x)"
    "\<And>x. ln_len (h x) = ln_len (h' x)" "\<And>x. ln_seek (h x) = ln_seek (h' x)"
  shows "(h :: heap) = h'"
  by (rule ext) (simp add: assms)

lemma append_node_fields [simp]:
  "np \<noteq> prev \<Longrightarrow> q_forw (append_node np prev h x) =
     (if x = prev then np else if x = np then q_forw (h prev) else q_forw (h x))"
  "q_back (append_node np prev h x) =
     (if x = np then prev else if x = q_forw (h prev) then np else q_back (h x))"
  "ln_len (append_node np prev h x) = ln_len (h x)"
  "ln_seek (append_node np prev h x) = ln_seek (h x)"
  by (auto simp: append_node_def Let_def)

section \<open>Chains and rings\<close>

fun chain :: "heap \<Rightarrow> node list \<Rightarrow> bool" where
  "chain h [] = True"
| "chain h [x] = True"
| "chain h (x # y # zs) = (q_forw (h x) = y \<and> q_back (h y) = x \<and> chain h (y # zs))"

lemma chain_append: "chain h (xs @ x # ys) \<longleftrightarrow> chain h (xs @ [x]) \<and> chain h (x # ys)"
  by (induction h xs rule: chain.induct) auto

lemma chain_two: "chain h (xs @ [x, y]) \<longleftrightarrow> chain h (xs @ [x]) \<and> q_forw (h x) = y \<and> q_back (h y) = x"
  by (simp add: chain_append [of h xs x "[y]"])

lemma chain_cong:
  assumes "\<And>x. x \<in> set (butlast zs) \<Longrightarrow> q_forw (h' x) = q_forw (h x)"
    and "\<And>x. x \<in> set (tl zs) \<Longrightarrow> q_back (h' x) = q_back (h x)"
  shows "chain h' zs = chain h zs"
  using assms
proof (induction h zs rule: chain.induct)
  case (3 h x y zs)
  have "chain h' (y # zs) = chain h (y # zs)"
  proof (rule "3.IH")
    fix z assume "z \<in> set (butlast (y # zs))"
    then show "q_forw (h' z) = q_forw (h z)" using "3.prems"(1) [of z] by simp
  next
    fix z assume "z \<in> set (tl (y # zs))"
    then show "q_back (h' z) = q_back (h z)" using "3.prems"(2) [of z] by simp
  qed
  with "3.prems" show ?case by simp
qed auto

lemma chain_link_frame:
  "p \<notin> set (butlast zs) \<Longrightarrow> n \<notin> set (tl zs) \<Longrightarrow> chain (link_nodes p n h) zs = chain h zs"
  by (rule chain_cong) auto

lemma chain_nth:
  "chain h zs \<Longrightarrow> Suc i < length zs \<Longrightarrow> q_forw (h (zs ! i)) = zs ! Suc i \<and> q_back (h (zs ! Suc i)) = zs ! i"
proof (induction h zs arbitrary: i rule: chain.induct)
  case (3 h x y zs)
  then show ?case by (cases i) auto
qed auto

lemma walk_forw_chain:
  "chain h zs \<Longrightarrow> i + k < length zs \<Longrightarrow> walk_forw h k (zs ! i) = zs ! (i + k)"
proof (induction k arbitrary: i)
  case (Suc k)
  then have "q_forw (h (zs ! i)) = zs ! Suc i" by (simp add: chain_nth)
  with Suc show ?case by (simp add: Suc.IH [of "Suc i"])
qed simp

lemma walk_back_chain:
  "chain h zs \<Longrightarrow> i < length zs \<Longrightarrow> k \<le> i \<Longrightarrow> walk_back h k (zs ! i) = zs ! (i - k)"
proof (induction k arbitrary: i)
  case (Suc k)
  then obtain j where j: "i = Suc j" by (cases i) auto
  with Suc.prems have "q_back (h (zs ! i)) = zs ! j" using chain_nth [of h zs j] by simp
  with Suc j show ?case by simp
qed simp

definition ring :: "heap \<Rightarrow> node list \<Rightarrow> bool" where
  "ring h ns \<longleftrightarrow> chain h (line_head # ns @ [line_head]) \<and> distinct (line_head # ns)"

lemma ring_distinct: "ring h ns \<Longrightarrow> distinct (line_head # ns)"
  by (simp add: ring_def)

lemma ring_chain: "ring h ns \<Longrightarrow> chain h (line_head # ns @ [line_head])"
  by (simp add: ring_def)

text \<open>The address of a node is its index in \<open>line_head # ns\<close>.\<close>

lemma ring_index: "i \<le> length ns \<Longrightarrow> (line_head # ns @ [line_head]) ! i = (line_head # ns) ! i"
  by (cases i) (auto simp: nth_append)

lemma ring_forw:
  assumes "ring h ns" "i < length ns"
  shows "q_forw (h ((line_head # ns) ! i)) = ns ! i"
  using chain_nth [OF ring_chain [OF assms(1)], of i] assms(2)
  by (cases i) (auto simp: nth_append)

lemma ring_forw_last:
  assumes "ring h ns"
  shows "q_forw (h ((line_head # ns) ! length ns)) = line_head"
    and "q_back (h line_head) = (line_head # ns) ! length ns"
  using chain_nth [OF ring_chain [OF assms], of "length ns"] ring_index [of "length ns" ns]
  by (auto simp: nth_append)

text \<open>The three ways a ring changes: a node is added, a segment leaves, a segment moves.\<close>

lemma last_notin_butlast: "distinct zs \<Longrightarrow> zs \<noteq> [] \<Longrightarrow> last zs \<notin> set (butlast zs)"
  using butlast_snoc_set [of zs "[]"] by simp

lemma ring_split:
  assumes "ring h (A @ B)"
  shows "chain h (line_head # A)" "chain h (last (line_head # A) # B @ [line_head])"
proof -
  let ?X = "butlast (line_head # A)" and ?p = "last (line_head # A)"
  have e: "line_head # A = ?X @ [?p]" by simp
  have "chain h (?X @ ?p # B @ [line_head])"
    using ring_chain [OF assms] e by (metis append.assoc append_Cons append_Nil)
  then have c: "chain h (?X @ [?p])" "chain h (?p # B @ [line_head])"
    using chain_append by blast+
  show "chain h (line_head # A)" using c(1) e by simp
  show "chain h (?p # B @ [line_head])" by (fact c(2))
qed

lemma ring_join:
  assumes "chain h (line_head # A)" "chain h (last (line_head # A) # B @ [line_head])"
    and "distinct (line_head # A @ B)"
  shows "ring h (A @ B)"
proof -
  let ?X = "butlast (line_head # A)" and ?p = "last (line_head # A)"
  have e: "line_head # A = ?X @ [?p]" by simp
  have "chain h (?X @ ?p # B @ [line_head])"
    using assms(1,2) e chain_append [of h ?X ?p "B @ [line_head]"] by metis
  then have "chain h (line_head # A @ B @ [line_head])"
    using e by (metis append.assoc append_Cons append_Nil)
  with assms(3) show ?thesis by (simp add: ring_def)
qed

text \<open>The first node after \<open>A\<close>, and that \<open>distinct\<close> keeps it and the last of \<open>A\<close> apart.\<close>

lemma ring_next:
  assumes "ring h (A @ B)"
  obtains C where "B @ [line_head] = hd (B @ [line_head]) # C"
    "last (line_head # A) \<in> set (line_head # A)"
    "q_forw (h (last (line_head # A))) = hd (B @ [line_head])"
    "hd (B @ [line_head]) \<notin> set A" "hd (B @ [line_head]) \<notin> set C"
    "last (line_head # A) \<notin> set (butlast (B @ [line_head]))"
    "last (line_head # A) \<notin> set (butlast (line_head # A))"
    "set C \<subseteq> set B \<union> {line_head}"
proof (rule that)
  let ?p = "last (line_head # A)"
  have d: "distinct (line_head # A @ B)" using assms by (simp add: ring_def)
  show pA: "?p \<in> set (line_head # A)" by (rule last_in_set) simp
  show "B @ [line_head] = hd (B @ [line_head]) # tl (B @ [line_head])" by (cases B) auto
  show "q_forw (h ?p) = hd (B @ [line_head])" using ring_split(2) [OF assms] by (cases B) auto
  show "hd (B @ [line_head]) \<notin> set A" using d by (cases B) auto
  show "hd (B @ [line_head]) \<notin> set (tl (B @ [line_head]))" using d by (cases B) auto
  show "?p \<notin> set (butlast (line_head # A))" by (rule last_notin_butlast) (use d in auto)
  show "?p \<notin> set (butlast (B @ [line_head]))"
  proof (cases A)
    case (Cons a A')
    then have "?p \<in> set A" by simp
    with d show ?thesis by (auto simp del: last.simps)
  qed (use d in auto)
  show "set (tl (B @ [line_head])) \<subseteq> set B \<union> {line_head}" by (cases B) auto
qed

lemma ring_append_node:
  assumes r: "ring h (A @ B)" and new: "x \<notin> set (A @ B)" "x \<noteq> line_head"
  shows "ring (append_node x (last (line_head # A)) h) (A @ x # B)"
proof -
  let ?p = "last (line_head # A)" and ?n = "hd (B @ [line_head])"
  let ?h' = "append_node x ?p h"
  obtain C where C: "B @ [line_head] = ?n # C" "?p \<in> set (line_head # A)" "q_forw (h ?p) = ?n"
    "?n \<notin> set A" "?n \<notin> set C" "?p \<notin> set (butlast (B @ [line_head]))"
    "?p \<notin> set (butlast (line_head # A))" "set C \<subseteq> set B \<union> {line_head}"
    by (rule ring_next [OF r])
  have d: "distinct (line_head # A @ B)" using r by (simp add: ring_def)
  have xp: "x \<noteq> ?p" using new C(2) by auto
  have xn: "x \<noteq> ?n" using new by (cases B) auto
  have xB: "x \<notin> set (B @ [line_head])" using new by simp
  have h': "?h' = link_nodes ?p x (link_nodes x ?n h)" by (simp only: append_node_def C(3) Let_def)
  have 1: "chain ?h' (line_head # A)" unfolding h'
    using new C(4,7) ring_split(1) [OF r]
    by (subst chain_link_frame; (subst chain_link_frame)?) (auto dest: in_set_butlastD simp del: last.simps)
  have "chain h (B @ [line_head])" using ring_split(2) [OF r] by (cases B) auto
  moreover have "tl (B @ [line_head]) = C" by (subst C(1)) simp
  ultimately have 2: "chain ?h' (?n # C)" unfolding h' C(1) [symmetric]
    using C(5,6,8) xB new
    by (subst chain_link_frame; (subst chain_link_frame)?)
       (auto dest: in_set_butlastD simp del: last.simps)
  have "chain ?h' (?p # x # ?n # C)" using 2 xp xn by (simp add: h' del: last.simps)
  then have "chain ?h' (?p # (x # B) @ [line_head])" using C(1) by simp
  with 1 show ?thesis using ring_join [of ?h' A "x # B"] d new by auto
qed

lemma ring_unlink:
  assumes r: "ring h (A @ D @ C)"
  shows "ring (link_nodes (last (line_head # A)) (hd (C @ [line_head])) h) (A @ C)"
proof -
  let ?p = "last (line_head # A)" and ?n = "hd (C @ [line_head])"
  let ?h' = "link_nodes ?p ?n h"
  have d: "distinct (line_head # A @ D @ C)" using r by (simp add: ring_def)
  have c: "chain h (C @ [line_head])"
    using ring_split(2) [of h "A @ D" C] r by (cases C) auto
  have p: "?p \<notin> set (butlast (line_head # A))" by (rule last_notin_butlast) (use d in auto)
  have pC: "?p \<notin> set (butlast (C @ [line_head]))"
  proof (cases A)
    case (Cons a A')
    then have "?p \<in> set A" by simp
    with d show ?thesis by (auto simp del: last.simps)
  qed (use d in auto)
  have n: "?n \<notin> set A" "?n \<notin> set (tl (C @ [line_head]))" using d by (cases C; auto)+
  have 1: "chain ?h' (line_head # A)"
    using ring_split(1) [OF r] p n(1) by (subst chain_link_frame) auto
  have 2: "chain ?h' (C @ [line_head])" using c pC n(2) by (subst chain_link_frame) auto
  have "chain ?h' (?p # C @ [line_head])" using 2 by (cases C) (simp_all del: last.simps)
  moreover have "distinct (line_head # A @ C)" using d by auto
  ultimately show ?thesis by (rule ring_join [OF 1])
qed

section \<open>The invariant of the line buffer\<close>

text \<open>Entry \<open>i\<close> of \<open>line_head # ns\<close> is the node of address \<open>i\<close>.\<close>

abbreviation node_at :: "node list \<Rightarrow> int \<Rightarrow> node" where
  "node_at ns n \<equiv> (line_head # ns) ! nat n"

definition cache_inv :: "node list \<Rightarrow> ed_statics \<Rightarrow> bool" where
  "cache_inv ns s \<longleftrightarrow> (case gl_lp s of
       None \<Rightarrow> gl_n_prev s = 0
     | Some p \<Rightarrow> 0 \<le> gl_n_prev s \<and> gl_n_prev s \<le> int (length ns) \<and> p = node_at ns (gl_n_prev s))"

definition buf_inv :: "ed_buffer \<Rightarrow> node list \<Rightarrow> bool" where
  "buf_inv ed ns \<longleftrightarrow>
     ring (nodes (core ed)) ns \<and> (\<forall>x \<in> set ns. x < next_node (core ed)) \<and> 0 < next_node (core ed) \<and>
     lines (state ed) = int (length ns) \<and> cache_inv ns (statics ed)"

lemma cache_node_frame [simp]:
  "state (cache_node p n ed) = state ed" "core (cache_node p n ed) = core ed"
  "statics (cache_node p n ed) = (statics ed)\<lparr>gl_lp := Some p, gl_n_prev := n\<rparr>"
  "state1 (cache_node p n ed) = state1 ed" "exec (cache_node p n ed) = exec ed"
  "streams (cache_node p n ed) = streams ed" "mutex (cache_node p n ed) = mutex ed"
  "input (cache_node p n ed) = input ed" "display (cache_node p n ed) = display ed"
  "sys_ok (cache_node p n ed) = sys_ok ed" "sys_n (cache_node p n ed) = sys_n ed"
  by (simp_all add: cache_node_def)

lemma buf_inv_cache_node [simp]:
  "buf_inv ed ns \<Longrightarrow> 0 \<le> n \<Longrightarrow> n \<le> lines (state ed) \<Longrightarrow> buf_inv (cache_node (node_at ns n) n ed) ns"
  by (simp add: buf_inv_def cache_inv_def)

lemma walk_forw_ring:
  "ring h ns \<Longrightarrow> 0 \<le> a \<Longrightarrow> a \<le> b \<Longrightarrow> b \<le> int (length ns) \<Longrightarrow>
     walk_forw h (nat (b - a)) (node_at ns a) = node_at ns b"
  using walk_forw_chain [OF ring_chain, of h ns "nat a" "nat (b - a)"]
    ring_index [of "nat a" ns] ring_index [of "nat b" ns]
  by (simp add: nat_add_distrib [symmetric])

lemma walk_back_ring:
  "ring h ns \<Longrightarrow> 0 \<le> b \<Longrightarrow> b \<le> a \<Longrightarrow> a \<le> int (length ns) \<Longrightarrow>
     walk_back h (nat (a - b)) (node_at ns a) = node_at ns b"
  using walk_back_chain [OF ring_chain, of h ns "nat a" "nat (a - b)"]
    ring_index [of "nat a" ns] ring_index [of "nat b" ns]
  by (simp add: nat_diff_distrib [symmetric])

text \<open>Every branch of the search ends at the node addressed, which becomes the cached node.\<close>

lemma get_line_node_eq:
  assumes inv: "buf_inv ed ns" and n: "0 \<le> n" "n \<le> lines (state ed)"
  shows "get_line_node n ed = (node_at ns n, cache_node (node_at ns n) n ed)"
proof -
  let ?h = "nodes (core ed)" and ?m = "gl_n_prev (statics ed)"
  let ?lp = "case gl_lp (statics ed) of None \<Rightarrow> line_head | Some p \<Rightarrow> p"
  have r: "ring ?h ns" and len: "lines (state ed) = int (length ns)"
    using inv by (simp_all add: buf_inv_def)
  have lp: "?lp = node_at ns ?m" "0 \<le> ?m" "?m \<le> int (length ns)"
    using inv by (auto simp: buf_inv_def cache_inv_def split: option.splits)
  have tail: "q_back (?h line_head) = node_at ns (int (length ns))"
    using ring_forw_last(2) [OF r] by simp
  have w0: "walk_forw ?h (nat n) line_head = node_at ns n"
    using walk_forw_ring [OF r, of 0 n] n len by simp
  have w1: "?m < n \<Longrightarrow> walk_forw ?h (nat (n - ?m)) (node_at ns ?m) = node_at ns n"
    using walk_forw_ring [OF r, of ?m n] n len lp by simp
  have w2: "walk_back ?h (nat (int (length ns) - n)) (node_at ns (int (length ns))) = node_at ns n"
    using walk_back_ring [OF r, of n "int (length ns)"] n len by simp
  have w3: "\<not> ?m < n \<Longrightarrow> walk_back ?h (nat (?m - n)) (node_at ns ?m) = node_at ns n"
    using walk_back_ring [OF r, of n ?m] n len lp by simp
  show ?thesis
  proof (cases "?m < n")
    case True
    show ?thesis unfolding get_line_node_def Let_def lp(1) tail len
      using n(2) [unfolded len]
      by (simp only: w1 [OF True] w2 True if_True if_cancel min_absorb1 prod.case)
  next
    case False
    show ?thesis unfolding get_line_node_def Let_def lp(1) tail len
      using n(1)
      by (simp only: w3 [OF False] w0 False if_False if_cancel max_absorb1 prod.case)
  qed
qed

lemma buf_inv_get_line_node:
  "buf_inv ed ns \<Longrightarrow> 0 \<le> n \<Longrightarrow> n \<le> lines (state ed) \<Longrightarrow> buf_inv (snd (get_line_node n ed)) ns"
  by (simp add: get_line_node_eq)

section \<open>Adding a line\<close>

lemma node_at_last: "0 \<le> n \<Longrightarrow> n \<le> int (length ns) \<Longrightarrow> last (line_head # take (nat n) ns) = node_at ns n"
  by (cases "nat n") (auto simp: take_Suc_conv_app_nth)

lemma ring_frame:
  assumes "\<And>x. x \<in> set (line_head # ns) \<Longrightarrow> h' x = h x"
  shows "ring h' ns = ring h ns"
proof -
  have "chain h' (line_head # ns @ [line_head]) = chain h (line_head # ns @ [line_head])"
    by (rule chain_cong) (use assms in \<open>auto dest!: in_set_butlastD\<close>)
  then show ?thesis by (simp add: ring_def)
qed

lemma cache_inv_prefix:
  assumes "cache_inv ns s" "0 \<le> gl_n_prev s" "gl_n_prev s \<le> int k"
    "take k ns' = take k ns" "k \<le> length ns'"
  shows "cache_inv ns' s"
proof -
  have "(line_head # ns') ! nat (gl_n_prev s) = (line_head # ns) ! nat (gl_n_prev s)"
  proof (cases "nat (gl_n_prev s)")
    case (Suc i)
    then have "i < k" using assms(3) by linarith
    then have "ns' ! i = ns ! i" using assms(4) by (metis nth_take)
    with Suc show ?thesis by simp
  qed simp
  with assms show ?thesis by (auto simp: cache_inv_def split: option.splits)
qed

text \<open>The node list after a line was added after address \<open>addr\<close>.\<close>

definition insert_after :: "int \<Rightarrow> 'a list \<Rightarrow> 'a list \<Rightarrow> 'a list" where
  "insert_after addr xs ys = take (nat addr) ys @ xs @ drop (nat addr) ys"

lemma append_line_node_result:
  assumes inv: "buf_inv ed ns" and a: "0 \<le> addr" "addr \<le> lines (state ed)"
    and ok: "append_line_node len seek addr ed = (Inr lp, ed')"
  shows "lp = next_node (core ed)"
    and "ed' = set_lines (lines (state ed) + 1)
       (set_nodes (append_node lp (node_at ns addr)
           ((nodes (core ed))(lp := ((nodes (core ed)) lp)\<lparr>ln_len := len, ln_seek := seek\<rparr>)))
        (cache_node (node_at ns addr) addr
          (core_update (next_node_update Suc) (snd (sys_call ed)))))"
    and "lines (state ed) < OFF_T_MAX" "sys_ok ed (sys_n ed)"
proof -
  let ?h = "nodes (core ed)" and ?lp = "next_node (core ed)"
  let ?e = "set_nodes (?h(?lp := (?h ?lp)\<lparr>ln_len := len, ln_seek := seek\<rparr>))
              (core_update (next_node_update Suc) (snd (sys_call ed)))"
  show lt: "lines (state ed) < OFF_T_MAX" "sys_ok ed (sys_n ed)"
    using ok by (auto simp: append_line_node_def throw_def sys_call_def split: if_splits bool.splits)
  have "?lp \<notin> set (line_head # ns)" using inv by (auto simp: buf_inv_def line_head_def)
  then have "ring (nodes (core ?e)) ns = ring ?h ns"
    by (intro ring_frame) auto
  with inv have "buf_inv ?e ns" by (auto simp: buf_inv_def less_Suc_eq)
  then have g: "get_line_node addr ?e = (node_at ns addr, cache_node (node_at ns addr) addr ?e)"
    using a by (simp add: get_line_node_eq)
  have s: "sys_call ed = (True, snd (sys_call ed))" using lt(2) by (simp add: sys_call_def)
  have "append_line_node len seek addr ed = (Inr ?lp, set_lines (lines (state ed) + 1)
       (set_nodes (append_node ?lp (node_at ns addr) (nodes (core ?e))) (cache_node (node_at ns addr) addr ?e)))"
    using lt(1) g by (subst append_line_node_def, subst s) (simp add: Let_def del: fun_upd_apply)
  with ok show "lp = ?lp" and "ed' = set_lines (lines (state ed) + 1)
       (set_nodes (append_node lp (node_at ns addr) (?h(lp := (?h lp)\<lparr>ln_len := len, ln_seek := seek\<rparr>)))
        (cache_node (node_at ns addr) addr (core_update (next_node_update Suc) (snd (sys_call ed)))))"
    by (auto simp: cache_node_def)
qed

lemma insert_after_simps [simp]:
  "length (insert_after a xs ys) = length xs + length ys"
  "set (insert_after a xs ys) = set xs \<union> set ys"
proof -
  have "set ys = set (take (nat a) ys) \<union> set (drop (nat a) ys)"
    by (metis append_take_drop_id set_append)
  then show "set (insert_after a xs ys) = set xs \<union> set ys" by (auto simp: insert_after_def)
qed (simp add: insert_after_def)

lemma take_insert_after: "nat a \<le> length ys \<Longrightarrow> take (nat a) (insert_after a xs ys) = take (nat a) ys"
  by (simp add: insert_after_def)

lemma append_line_node_buf_inv:
  assumes inv: "buf_inv ed ns" and a: "0 \<le> addr" "addr \<le> lines (state ed)"
    and ok: "append_line_node len seek addr ed = (Inr lp, ed')"
  shows "buf_inv ed' (insert_after addr [lp] ns)"
proof -
  let ?h = "nodes (core ed)" and ?new = "((nodes (core ed)) lp)\<lparr>ln_len := len, ln_seek := seek\<rparr>"
  note r = append_line_node_result [OF inv a ok]
  have len: "addr \<le> int (length ns)" using inv a by (simp add: buf_inv_def)
  have new: "lp \<notin> set ns" "lp \<noteq> line_head" using inv r(1) by (auto simp: buf_inv_def line_head_def)
  have "ring ?h ns" using inv by (simp add: buf_inv_def)
  then have "ring (?h(lp := ?new)) ns" using new by (subst ring_frame) auto
  then have "ring (append_node lp (node_at ns addr) (?h(lp := ?new))) (take (nat addr) ns @ lp # drop (nat addr) ns)"
    using ring_append_node [of "?h(lp := ?new)" "take (nat addr) ns" "drop (nat addr) ns" lp] new
    unfolding node_at_last [OF a(1) len] append_take_drop_id by blast
  moreover have "cache_inv (insert_after addr [lp] ns) ((statics ed)\<lparr>gl_lp := Some (node_at ns addr), gl_n_prev := addr\<rparr>)"
    by (rule cache_inv_prefix [where ns = ns and k = "nat addr"])
       (use a len in \<open>auto simp: cache_inv_def take_insert_after\<close>)
  ultimately show ?thesis
    using inv r(1) unfolding r(2) by (auto simp: buf_inv_def insert_after_def less_Suc_eq
        dest: in_set_takeD in_set_dropD)
qed

section \<open>From a node to its address\<close>

lemma address_loop_found:
  "ring h ns \<Longrightarrow> j \<le> i \<Longrightarrow> i \<le> length ns \<Longrightarrow> i - j < k \<Longrightarrow>
     address_loop k h (Some ((line_head # ns) ! i)) ((line_head # ns) ! j) (int j)
       = Some ((line_head # ns) ! i, int i)"
proof (induction k arbitrary: j)
  case (Suc k)
  show ?case
  proof (cases "j = i")
    case False
    then have j: "j < i" "j < length ns" using Suc.prems by auto
    have ne: "(line_head # ns) ! j \<noteq> (line_head # ns) ! i"
      using ring_distinct [OF Suc.prems(1)] j Suc.prems(3) by (subst nth_eq_iff_index_eq) auto
    have "q_forw (h ((line_head # ns) ! j)) = (line_head # ns) ! Suc j"
      using ring_forw [OF Suc.prems(1) j(2)] by simp
    moreover have "ns ! j \<noteq> line_head" using ring_distinct [OF Suc.prems(1)] j by (auto dest: nth_mem)
    ultimately show ?thesis
      using Suc.IH [of "Suc j"] Suc.prems j ne by (simp add: Let_def add.commute)
  qed simp
qed simp

lemma address_loop_not_found:
  "ring h ns \<Longrightarrow> p \<notin> Some ` set (line_head # ns) \<Longrightarrow> j \<le> length ns \<Longrightarrow> length ns - j < k \<Longrightarrow>
     address_loop k h p ((line_head # ns) ! j) (int j) = Some (line_head, int (length ns))"
proof (induction k arbitrary: j)
  case (Suc k)
  have ne: "Some ((line_head # ns) ! j) \<noteq> p"
    using Suc.prems(2,3) nth_mem [of j "line_head # ns"] by (auto simp: image_iff)
  show ?case
  proof (cases "j = length ns")
    case True
    then show ?thesis using ne ring_forw_last(1) [OF Suc.prems(1)] by (simp add: Let_def)
  next
    case False
    then have j: "j < length ns" using Suc.prems by auto
    have "q_forw (h ((line_head # ns) ! j)) = (line_head # ns) ! Suc j"
      using ring_forw [OF Suc.prems(1) j] by simp
    moreover have "ns ! j \<noteq> line_head" using ring_distinct [OF Suc.prems(1)] j by (auto dest: nth_mem)
    ultimately show ?thesis
      using Suc.IH [of "Suc j"] Suc.prems j ne by (simp add: Let_def add.commute)
  qed
qed simp

lemma buf_inv_length: "buf_inv ed ns \<Longrightarrow> length ns < next_node (core ed)"
proof -
  assume inv: "buf_inv ed ns"
  then have "set (line_head # ns) \<subseteq> {..<next_node (core ed)}" "distinct (line_head # ns)"
    by (auto simp: buf_inv_def line_head_def ring_def)
  then have "length (line_head # ns) \<le> next_node (core ed)"
    by (metis card_lessThan card_mono distinct_card finite_lessThan)
  then show ?thesis by simp
qed

lemma get_line_node_address_found:
  assumes "buf_inv ed ns" "0 \<le> n" "n \<le> lines (state ed)"
  shows "get_line_node_address (Some (node_at ns n)) ed = (Inr n, ed)"
proof -
  have r: "ring (nodes (core ed)) ns" "nat n \<le> length ns" using assms by (auto simp: buf_inv_def)
  have "n = 0 \<or> node_at ns n \<noteq> line_head"
    using ring_distinct [OF r(1)] r(2) assms(2) by (cases "nat n") (auto simp: Suc_le_eq dest: nth_mem)
  then show ?thesis
    using address_loop_found [OF r(1), of 0 "nat n" "next_node (core ed)"] r(2)
      buf_inv_length [OF assms(1)] assms(2)
    by (auto simp: get_line_node_address_def)
qed

lemma get_line_node_address_not_found:
  assumes "buf_inv ed ns" "p \<notin> Some ` set (line_head # ns)"
  shows "get_line_node_address p ed =
    (if ns = [] then (Inr 0, ed) else throw ''Address out of range'' ed)"
  using address_loop_not_found [of "nodes (core ed)" ns p 0 "next_node (core ed)"] assms
    buf_inv_length [OF assms(1)]
  by (simp add: get_line_node_address_def buf_inv_def)

end
