(* ===== verification/Disk_Buffer.thy ===== *)
theory Disk_Buffer
  imports Line_Nodes
begin

text \<open>
  The on-disk buffer of \<open>buffer.c\<close>: \<open>put_buffer_line\<close> appends the text of a line to the buffer
  file and a node that refers to it to the line buffer, \<open>get_buffer_line\<close> reads it back.  A write
  of the C library that fails leaves the file as it was.

  \<open>disk_inv\<close> relates the cached position \<open>offset\<close> and the flag \<open>seek_on_write\<close> to the stream;
  \<open>node_text ed p\<close> is the text a node refers to.  The lemmas show that a line put is the line
  got, and that a put leaves the text of every other line alone.
\<close>

section \<open>Positioning the buffer file\<close>

definition fseek :: "stream_id \<Rightarrow> (ed_stream \<Rightarrow> nat) \<Rightarrow> ed_buffer \<Rightarrow> bool \<times> ed_buffer" where
  "fseek fp pos ed = (case sys_call ed of
      (False, ed) \<Rightarrow> (False, ed)
    | (True, ed) \<Rightarrow> (True, upd_stream fp (\<lambda>f. f\<lparr>f_pos := pos f, f_eof := False\<rparr>) ed))"

abbreviation set_offset :: "int \<Rightarrow> ed_buffer \<Rightarrow> ed_buffer" where
  "set_offset n \<equiv> core_update (offset_update (\<lambda>_. n))"

abbreviation set_seek_on_write :: "bool \<Rightarrow> ed_buffer \<Rightarrow> ed_buffer" where
  "set_seek_on_write b \<equiv> core_update (seek_on_write_update (\<lambda>_. b))"

section \<open>Reading and writing lines\<close>

definition get_buffer_line :: "node \<Rightarrow> ed_buffer \<Rightarrow> string res" where
  "get_buffer_line lp ed =
     (if lp = line_head then (Inr [], ed)
      else
        let ed = set_seek_on_write True ed;
            len = ln_len (nodes (core ed) lp);
            seek = ln_seek (nodes (core ed) lp);
            fp = core_fp (core ed);
            (ok, ed) =
              (if offset (core ed) \<noteq> seek
               then fseek fp (\<lambda>f. nat seek) (set_offset seek ed)
               else (True, ed))
        in if \<not> ok then throw ''Buffer seek error'' ed
           else
             let (tb, f) = stream_read len (streams ed fp);
                 ed = upd_stream fp (\<lambda>_. f) ed
             in case sys_call ed of
                  (ok, ed) \<Rightarrow>
                    if \<not> ok \<or> length tb \<noteq> len then throw ''Buffer read error'' ed
                    else (Inr tb, set_offset (offset (core ed) + int len) ed))"

text \<open>
  \<open>t\<close> is the memory from the pointer on; the result is the memory after the line.  The test
  against \<open>OFF_T_MAX\<close> is unsigned in C: \<open>OFF_T_MAX - len\<close> has the type \<open>size_t\<close>.
\<close>

definition seek_end :: "ed_buffer \<Rightarrow> unit res" where
  "seek_end ed =
     (if seek_on_write (core ed) then
        case fseek (core_fp (core ed)) (\<lambda>f. length (f_data f)) ed of
          (False, ed) \<Rightarrow> throw ''Buffer seek error'' ed
        | (True, ed) \<Rightarrow>
            (case sys_call ed of
               (False, ed) \<Rightarrow> throw ''Buffer seek error'' (set_offset (-1) ed)
             | (True, ed) \<Rightarrow>
                 (Inr (), set_seek_on_write False
                    (set_offset (int (f_pos (streams ed (core_fp (core ed))))) ed)))
      else (Inr (), ed))"

definition put_buffer_line :: "string \<Rightarrow> nat \<Rightarrow> ed_buffer \<Rightarrow> string res" where
  "put_buffer_line t len ed =
     andThen (seek_end ed) (\<lambda>_ ed.
       let len = len - 1 in
       if u64 (OFF_T_MAX - int len) < u64 (offset (core ed)) then throw ''Buffer full'' ed
       else case sys_call ed of
         (False, ed) \<Rightarrow> throw ''Buffer write error'' (set_offset (-1) ed)
       | (True, ed) \<Rightarrow>
           (let ed = upd_stream (core_fp (core ed)) (stream_write (take len t)) ed in
            andThen (append_line_node len (offset (core ed)) (dot (state ed)) ed) (\<lambda>_ ed.
              (Inr (drop (len + 1) t),
               set_offset (offset (core ed) + int len) (set_dot (dot (state ed) + 1) ed)))))"

section \<open>Text of a node\<close>

abbreviation disk :: "ed_buffer \<Rightarrow> ed_stream" where
  "disk ed \<equiv> streams ed (core_fp (core ed))"

definition node_text :: "ed_buffer \<Rightarrow> node \<Rightarrow> string" where
  "node_text ed p =
     (if p = line_head then []
      else take (ln_len (nodes (core ed) p)) (drop (nat (ln_seek (nodes (core ed) p))) (f_data (disk ed))))"

text \<open>The contents of the buffer: the texts of its lines.\<close>

definition buffer_text :: "ed_buffer \<Rightarrow> node list \<Rightarrow> string list" where
  "buffer_text ed ns = map (node_text ed) ns"

definition node_stored :: "ed_buffer \<Rightarrow> node \<Rightarrow> bool" where
  "node_stored ed p \<longleftrightarrow> 0 \<le> ln_seek (nodes (core ed) p) \<and>
     nat (ln_seek (nodes (core ed) p)) + ln_len (nodes (core ed) p) \<le> length (f_data (disk ed))"

definition disk_inv :: "ed_buffer \<Rightarrow> bool" where
  "disk_inv ed \<longleftrightarrow>
     offset (core ed) = int (f_pos (disk ed)) \<and>
     f_pos (disk ed) \<le> length (f_data (disk ed)) \<and>
     (\<not> seek_on_write (core ed) \<longrightarrow> f_pos (disk ed) = length (f_data (disk ed))) \<and>
     (\<forall>p. 0 < p \<longrightarrow> p < next_node (core ed) \<longrightarrow> node_stored ed p)"

lemma upd_stream_simps [simp]:
  "streams (upd_stream fp f ed) = (streams ed)(fp := f (streams ed fp))"
  "state (upd_stream fp f ed) = state ed" "core (upd_stream fp f ed) = core ed"
  "statics (upd_stream fp f ed) = statics ed" "sys_ok (upd_stream fp f ed) = sys_ok ed"
  "sys_n (upd_stream fp f ed) = sys_n ed" "exec (upd_stream fp f ed) = exec ed"
  "state1 (upd_stream fp f ed) = state1 ed" "mutex (upd_stream fp f ed) = mutex ed"
  "input (upd_stream fp f ed) = input ed"
  by (simp_all add: upd_stream_def)

lemma sys_all_ok_simps [simp]:
  "sys_all_ok (upd_stream fp f ed) = sys_all_ok ed"
  "sys_all_ok (sys_n_update g ed) = sys_all_ok ed"
  "sys_all_ok (cache_node p n ed) = sys_all_ok ed"
  "sys_all_ok (core_update cu ed) = sys_all_ok ed"
  "sys_all_ok (state_update su ed) = sys_all_ok ed"
  "sys_all_ok (statics_update tu ed) = sys_all_ok ed"
  "sys_all_ok (mutex_update mu ed) = sys_all_ok ed"
  "sys_all_ok (exec_update eu ed) = sys_all_ok ed"
  "sys_all_ok (input_update iu ed) = sys_all_ok ed"
  by (simp_all add: sys_all_ok_def)

text \<open>A read of a stored line succeeds when the library does, and moves only the position.\<close>

lemma get_buffer_line_text:
  assumes "disk_inv ed" "0 < p" "p < next_node (core ed)" "sys_all_ok ed"
  obtains ed' where "get_buffer_line p ed = (Inr (node_text ed p), ed')"
    "disk_inv ed'" "f_data (disk ed') = f_data (disk ed)" "state ed' = state ed"
    "statics ed' = statics ed" "sys_all_ok ed'" "state1 ed' = state1 ed" "mutex ed' = mutex ed"
    "exec ed' = exec ed" "input ed' = input ed"
    "core ed' = (core ed)\<lparr>seek_on_write := True, offset := ln_seek (nodes (core ed) p) + int (ln_len (nodes (core ed) p))\<rparr>"
proof -
  let ?len = "ln_len (nodes (core ed) p)" and ?seek = "ln_seek (nodes (core ed) p)"
  have st: "node_stored ed p" using assms by (simp add: disk_inv_def)
  have p: "p \<noteq> line_head" using assms(2) by (simp add: line_head_def)
  have pos: "offset (core ed) = ?seek \<Longrightarrow> f_pos (disk ed) = nat ?seek"
    using assms(1) by (auto simp: disk_inv_def)
  have ln: "length (node_text ed p) = ?len" using st p by (auto simp: node_text_def node_stored_def)
  define e1 where "e1 = (let e = set_seek_on_write True ed in
      if offset (core ed) \<noteq> ?seek then snd (fseek (core_fp (core ed)) (\<lambda>f. nat ?seek) (set_offset ?seek e)) else e)"
  have e1: "core e1 = (core ed)\<lparr>seek_on_write := True, offset := ?seek\<rparr>" "f_data (disk e1) = f_data (disk ed)"
    "f_pos (disk e1) = nat ?seek" "sys_all_ok e1" "state e1 = state ed" "statics e1 = statics ed"
    "state1 e1 = state1 ed" "mutex e1 = mutex ed" "exec e1 = exec ed" "input e1 = input ed"
    using assms(4) pos by (auto simp: e1_def Let_def fseek_def)
  obtain f2 where rd: "stream_read ?len (disk e1) = (node_text ed p, f2)"
      "f_data f2 = f_data (disk ed)" "f_pos f2 = nat ?seek + ?len"
    using p e1 ln by (simp add: stream_read_def Let_def node_text_def)
  define e2 where "e2 = set_offset (?seek + int ?len) (sys_n_update Suc (upd_stream (core_fp (core ed)) (\<lambda>_. f2) e1))"
  have g: "get_buffer_line p ed = (Inr (node_text ed p), e2)"
  proof (cases "offset (core ed) = ?seek")
    case True
    then have "e1 = set_seek_on_write True ed" by (simp add: e1_def)
    then show ?thesis using True p rd(1) ln assms(4)
      by (simp add: get_buffer_line_def Let_def e2_def)
  next
    case False
    then have "fseek (core_fp (core ed)) (\<lambda>f. nat ?seek) (set_offset ?seek (set_seek_on_write True ed)) = (True, e1)"
      using assms(4) by (simp add: e1_def fseek_def)
    then show ?thesis using False p rd(1) ln e1
      by (simp add: get_buffer_line_def Let_def e2_def)
  qed
  have f: "f_data (disk e2) = f_data (disk ed)" "f_pos (disk e2) = nat ?seek + ?len"
    using e1 rd by (simp_all add: e2_def)
  have "disk_inv e2"
    unfolding disk_inv_def f using st assms(1) f e1
    by (auto simp: e2_def node_stored_def disk_inv_def)
  then show ?thesis using that [of e2] g f e1 by (simp add: e2_def)
qed

text \<open>What \<open>put_buffer_line\<close> needs of the machine: no call fails, and the file does not grow past
  the largest offset.\<close>

definition room_for :: "nat \<Rightarrow> ed_buffer \<Rightarrow> bool" where
  "room_for n ed \<longleftrightarrow> sys_all_ok ed \<and> int (length (f_data (disk ed)) + n) \<le> OFF_T_MAX"

lemma seek_end_ok:
  assumes "disk_inv ed" "sys_all_ok ed"
  obtains ed' where "seek_end ed = (Inr (), ed')" "disk_inv ed'"
    "f_pos (disk ed') = length (f_data (disk ed))" "f_data (disk ed') = f_data (disk ed)"
    "core ed' = (core ed)\<lparr>seek_on_write := False, offset := int (length (f_data (disk ed)))\<rparr>"
    "state ed' = state ed" "statics ed' = statics ed" "sys_all_ok ed'" "state1 ed' = state1 ed"
    "exec ed' = exec ed" "mutex ed' = mutex ed" "input ed' = input ed"
proof (cases "seek_on_write (core ed)")
  case True
  then show ?thesis
    using that [of "snd (seek_end ed)"] assms
    by (auto simp: seek_end_def fseek_def disk_inv_def node_stored_def)
next
  case False
  then show ?thesis
    using that [of ed] assms by (simp add: seek_end_def disk_inv_def)
qed

lemma stream_write_end:
  "f_pos f = length (f_data f) \<Longrightarrow>
     stream_write s f = f\<lparr>f_data := f_data f @ s, f_pos := length (f_data f) + length s\<rparr>"
  by (simp add: stream_write_def)

text \<open>The memory of nodes after \<open>put_buffer_line\<close>\<close>

definition put_heap :: "node \<Rightarrow> nat \<Rightarrow> int \<Rightarrow> node \<Rightarrow> heap \<Rightarrow> heap" where
  "put_heap lp len seek prev h =
     append_node lp prev (h(lp := (h lp)\<lparr>ln_len := len, ln_seek := seek\<rparr>))"

lemma append_line_node_ok:
  assumes inv: "buf_inv ed ns" and a: "0 \<le> addr" "addr \<le> lines (state ed)"
    and ok: "sys_all_ok ed" "lines (state ed) < OFF_T_MAX"
  obtains ed' where "append_line_node len seek addr ed = (Inr (next_node (core ed)), ed')"
    "buf_inv ed' (insert_after addr [next_node (core ed)] ns)"
    "core ed' = (core ed)\<lparr>nodes := put_heap (next_node (core ed)) len seek (node_at ns addr) (nodes (core ed)),
        next_node := Suc (next_node (core ed))\<rparr>"
    "state ed' = (state ed)\<lparr>lines := lines (state ed) + 1\<rparr>" "streams ed' = streams ed"
    "sys_all_ok ed'" "state1 ed' = state1 ed" "exec ed' = exec ed" "mutex ed' = mutex ed" "input ed' = input ed"
    "gl_lp (statics ed') = Some (node_at ns addr)" "gl_n_prev (statics ed') = addr"
proof -
  have "\<exists>lp ed'. append_line_node len seek addr ed = (Inr lp, ed')"
    using ok by (simp add: append_line_node_def Let_def case_prod_beta)
  then obtain lp ed' where r: "append_line_node len seek addr ed = (Inr lp, ed')" by blast
  note res = append_line_node_result [OF inv a r]
  show ?thesis
  proof (rule that)
    show "append_line_node len seek addr ed = (Inr (next_node (core ed)), ed')" using r res(1) by simp
    show "buf_inv ed' (insert_after addr [next_node (core ed)] ns)"
      using append_line_node_buf_inv [OF inv a r] res(1) by simp
  qed (use ok res in \<open>simp_all add: res(2) put_heap_def cache_node_def\<close>)
qed

lemma put_buffer_line_ok:
  assumes inv: "buf_inv ed ns" "disk_inv ed" and d: "0 \<le> dot (state ed)" "dot (state ed) \<le> lines (state ed)"
    and room: "room_for (Suc m) ed" "lines (state ed) < OFF_T_MAX" and len: "m \<le> length t"
  obtains ed' where "put_buffer_line t (Suc m) ed = (Inr (drop (Suc m) t), ed')"
    "buf_inv ed' (insert_after (dot (state ed)) [next_node (core ed)] ns)" "disk_inv ed'"
    "core ed' = (core ed)\<lparr>nodes := put_heap (next_node (core ed)) m (int (length (f_data (disk ed))))
          (node_at ns (dot (state ed))) (nodes (core ed)),
        next_node := Suc (next_node (core ed)), seek_on_write := False,
        offset := int (length (f_data (disk ed)) + m)\<rparr>"
    "state ed' = (state ed)\<lparr>dot := dot (state ed) + 1, lines := lines (state ed) + 1\<rparr>"
    "f_data (disk ed') = f_data (disk ed) @ take m t" "sys_all_ok ed'"
    "state1 ed' = state1 ed" "exec ed' = exec ed" "mutex ed' = mutex ed" "input ed' = input ed"
    "gl_lp (statics ed') = Some (node_at ns (dot (state ed)))" "gl_n_prev (statics ed') = dot (state ed)"
proof -
  have ok: "sys_all_ok ed" using room by (simp add: room_for_def)
  let ?n = "length (f_data (disk ed))" and ?fp = "core_fp (core ed)" and ?d = "dot (state ed)"
  obtain e1 where e1: "seek_end ed = (Inr (), e1)" "disk_inv e1"
    "f_pos (disk e1) = ?n" "f_data (disk e1) = f_data (disk ed)"
    "core e1 = (core ed)\<lparr>seek_on_write := False, offset := int ?n\<rparr>"
    "state e1 = state ed" "statics e1 = statics ed" "sys_all_ok e1" "state1 e1 = state1 ed"
    "exec e1 = exec ed" "mutex e1 = mutex ed" "input e1 = input ed"
    by (rule seek_end_ok [OF inv(2) ok])
  define e2 where "e2 = upd_stream ?fp (stream_write (take m t)) (sys_n_update Suc e1)"
  have e2: "buf_inv e2 ns" "sys_all_ok e2" "core e2 = core e1" "state e2 = state ed"
    using inv(1) e1 by (simp_all add: e2_def buf_inv_def)
  have e2d: "f_data (disk e2) = f_data (disk ed) @ take m t" "f_pos (disk e2) = ?n + m"
    using e1 len by (simp_all add: e2_def stream_write_end)
  obtain e3 where e3: "append_line_node m (int ?n) ?d e2 = (Inr (next_node (core e2)), e3)"
    "buf_inv e3 (insert_after ?d [next_node (core e2)] ns)"
    "core e3 = (core e2)\<lparr>nodes := put_heap (next_node (core e2)) m (int ?n) (node_at ns ?d) (nodes (core e2)),
        next_node := Suc (next_node (core e2))\<rparr>"
    "state e3 = (state e2)\<lparr>lines := lines (state e2) + 1\<rparr>" "streams e3 = streams e2"
    "sys_all_ok e3" "state1 e3 = state1 e2" "exec e3 = exec e2" "mutex e3 = mutex e2" "input e3 = input e2"
    "gl_lp (statics e3) = Some (node_at ns ?d)" "gl_n_prev (statics e3) = ?d"
    by (rule append_line_node_ok [OF e2(1), of ?d m "int ?n"]) (use e2 d room in auto)
  define e4 where "e4 = set_offset (int (?n + m)) (set_dot (?d + 1) e3)"
  have "\<not> u64 (OFF_T_MAX - int m) < u64 (int ?n)"
    using room(1) by (auto simp: room_for_def u64_def OFF_T_MAX_def)
  then have put: "put_buffer_line t (Suc m) ed = (Inr (drop (Suc m) t), e4)"
    using e1 e3 e2 len
    by (simp add: put_buffer_line_def Let_def e2_def [symmetric] e4_def add.commute)
  have b4: "buf_inv e4 (insert_after ?d [next_node (core ed)] ns)"
    using e3(2) e2 e1 by (simp add: e4_def buf_inv_def)
  have d4: "f_data (disk e4) = f_data (disk ed) @ take m t" "f_pos (disk e4) = ?n + m"
    using e2d e3 by (simp_all add: e4_def)
  have c4: "core e4 = (core ed)\<lparr>nodes := put_heap (next_node (core ed)) m (int ?n) (node_at ns ?d) (nodes (core ed)),
        next_node := Suc (next_node (core ed)), seek_on_write := False, offset := int (?n + m)\<rparr>"
    using e3 e2 e1 by (simp add: e4_def)
  have "disk_inv e4" unfolding disk_inv_def d4
    using inv(2) len d4 by (auto simp: c4 disk_inv_def node_stored_def put_heap_def less_Suc_eq intro: le_trans trans_le_add1)
  then show ?thesis
    using that [OF put b4 _ c4 _ d4(1)] e1 e2 e3 by (simp add: e4_def e2_def)
qed

section \<open>A line put is the line got\<close>

lemma node_text_cong:
  assumes "ln_len (nodes (core ed') p) = ln_len (nodes (core ed) p)"
    "ln_seek (nodes (core ed') p) = ln_seek (nodes (core ed) p)"
    "f_data (disk ed') = f_data (disk ed) @ extra" "p = line_head \<or> node_stored ed p"
  shows "node_text ed' p = node_text ed p"
  using assms by (auto simp: node_text_def node_stored_def)

text \<open>Lines allocated before are unchanged by anything that only appends to the file and to the
  memory of nodes.\<close>

lemma buffer_text_cong:
  assumes "disk_inv ed" "\<forall>x\<in>set ns. x < next_node (core ed)"
    "\<And>p. p < next_node (core ed) \<Longrightarrow> ln_len (nodes (core ed') p) = ln_len (nodes (core ed) p)"
    "\<And>p. p < next_node (core ed) \<Longrightarrow> ln_seek (nodes (core ed') p) = ln_seek (nodes (core ed) p)"
    "f_data (disk ed') = f_data (disk ed) @ extra"
  shows "buffer_text ed' ns = buffer_text ed ns"
  unfolding buffer_text_def
proof (rule map_cong [OF refl])
  fix p assume "p \<in> set ns"
  then have p: "p < next_node (core ed)" using assms(2) by blast
  have "p = line_head \<or> node_stored ed p"
    using assms(1) p by (auto simp: disk_inv_def line_head_def)
  then show "node_text ed' p = node_text ed p"
    using assms(3,4) [OF p] assms(5) by (intro node_text_cong)
qed

lemma put_heap_len [simp]:
  "p \<noteq> lp \<Longrightarrow> ln_len (put_heap lp len seek prev h p) = ln_len (h p)"
  "p \<noteq> lp \<Longrightarrow> ln_seek (put_heap lp len seek prev h p) = ln_seek (h p)"
  "ln_len (put_heap lp len seek prev h lp) = len"
  "ln_seek (put_heap lp len seek prev h lp) = seek"
  by (simp_all add: put_heap_def)

lemma map_insert_after [simp]: "map f (insert_after a xs ys) = insert_after a (map f xs) (map f ys)"
  by (simp add: insert_after_def take_map drop_map)

lemma put_buffer_line_text:
  assumes inv: "buf_inv ed ns" "disk_inv ed" and d: "0 \<le> dot (state ed)" "dot (state ed) \<le> lines (state ed)"
    and room: "room_for (Suc m) ed" "lines (state ed) < OFF_T_MAX" and len: "m \<le> length t"
  shows "\<exists>ed' ns'. put_buffer_line t (Suc m) ed = (Inr (drop (Suc m) t), ed') \<and>
     buf_inv ed' ns' \<and> disk_inv ed' \<and>
     buffer_text ed' ns' = insert_after (dot (state ed)) [take m t] (buffer_text ed ns) \<and>
     dot (state ed') = dot (state ed) + 1"
proof -
  obtain ed' where r: "put_buffer_line t (Suc m) ed = (Inr (drop (Suc m) t), ed')"
    "buf_inv ed' (insert_after (dot (state ed)) [next_node (core ed)] ns)" "disk_inv ed'"
    "core ed' = (core ed)\<lparr>nodes := put_heap (next_node (core ed)) m (int (length (f_data (disk ed))))
          (node_at ns (dot (state ed))) (nodes (core ed)),
        next_node := Suc (next_node (core ed)), seek_on_write := False,
        offset := int (length (f_data (disk ed)) + m)\<rparr>"
    "state ed' = (state ed)\<lparr>dot := dot (state ed) + 1, lines := lines (state ed) + 1\<rparr>"
    "f_data (disk ed') = f_data (disk ed) @ take m t"
    by (rule put_buffer_line_ok [OF inv d room len])
  let ?lp = "next_node (core ed)"
  have "0 < ?lp" using inv by (simp add: buf_inv_def)
  then have new: "node_text ed' ?lp = take m t" using r(4,6) len
    by (simp add: node_text_def line_head_def)
  have old: "buffer_text ed' ns = buffer_text ed ns"
    by (rule buffer_text_cong [where extra = "take m t"]) (use inv r(4,6) in \<open>auto simp: buf_inv_def\<close>)
  have "buffer_text ed' (insert_after (dot (state ed)) [?lp] ns)
      = insert_after (dot (state ed)) [take m t] (buffer_text ed ns)"
    using new old by (simp only: buffer_text_def map_insert_after list.map)
  with r show ?thesis by auto
qed

text \<open>
  When the seek of \<open>get_buffer_line\<close> fails, the cached position already names the line: the next
  call for the same line does not seek and reads at the position the file has.
\<close>

lemma get_buffer_line_failed_seek:
  assumes "p \<noteq> line_head" "offset (core ed) \<noteq> ln_seek (nodes (core ed) p)"
    and "\<not> sys_ok ed (sys_n ed)" "sys_ok ed (Suc (sys_n ed))"
    and "f_pos (disk ed) + ln_len (nodes (core ed) p) \<le> length (f_data (disk ed))"
  shows "fst (get_buffer_line p ed) = Inl ERR"
    and "fst (get_buffer_line p (snd (get_buffer_line p ed)))
       = Inr (take (ln_len (nodes (core ed) p)) (drop (f_pos (disk ed)) (f_data (disk ed))))"
proof -
  define e1 where "e1 = snd (get_buffer_line p ed)"
  have g: "get_buffer_line p ed = throw ''Buffer seek error''
      (sys_n_update Suc (set_offset (ln_seek (nodes (core ed) p)) (set_seek_on_write True ed)))"
    using assms by (simp add: get_buffer_line_def fseek_def sys_call_def Let_def)
  then show "fst (get_buffer_line p ed) = Inl ERR" by (simp add: throw_def)
  have e1: "core e1 = (core ed)\<lparr>seek_on_write := True, offset := ln_seek (nodes (core ed) p)\<rparr>"
    "streams e1 = streams ed" "sys_ok e1 (sys_n e1)"
    using assms by (simp_all add: e1_def g throw_def)
  show "fst (get_buffer_line p (snd (get_buffer_line p ed)))
       = Inr (take (ln_len (nodes (core ed) p)) (drop (f_pos (disk ed)) (f_data (disk ed))))"
    unfolding e1_def [symmetric]
    using assms(1,5) e1 by (simp add: get_buffer_line_def Let_def stream_read_def sys_call_def)
qed

section \<open>What reading and writing the buffer file leaves alone\<close>

definition disk_frame :: "ed_buffer \<Rightarrow> ed_buffer \<Rightarrow> bool" where
  "disk_frame ed ed' \<longleftrightarrow>
     (\<forall>fp. fp \<noteq> core_fp (core ed) \<longrightarrow> streams ed' fp = streams ed fp) \<and>
     core_fp (core ed') = core_fp (core ed) \<and> std_in ed' = std_in ed \<and> std_out ed' = std_out ed \<and>
     std_err ed' = std_err ed \<and> display ed' = display ed \<and> file_info ed' = file_info ed \<and>
     next_stream ed' = next_stream ed \<and> sys_ok ed' = sys_ok ed \<and> input ed' = input ed"

lemma disk_frame_refl [simp, ed_intros]: "disk_frame ed ed"
  by (simp add: disk_frame_def)

lemma disk_frame_trans: "disk_frame a b \<Longrightarrow> disk_frame b c \<Longrightarrow> disk_frame a c"
  by (simp add: disk_frame_def)

lemma disk_frame_updates [simp]:
  "disk_frame ed (state_update f e) = disk_frame ed e"
  "disk_frame ed (exec_update xu e) = disk_frame ed e"
  "disk_frame ed (statics_update tu e) = disk_frame ed e"
  "disk_frame ed (mutex_update mu e) = disk_frame ed e"
  "disk_frame ed (sys_n_update nu e) = disk_frame ed e"
  "disk_frame ed (cache_node p n e) = disk_frame ed e"
  by (simp_all add: disk_frame_def cache_node_def)

lemma disk_frame_core [simp]:
  "(\<And>c. core_fp (cu c) = core_fp c) \<Longrightarrow> disk_frame ed (core_update cu e) = disk_frame ed e"
  by (simp add: disk_frame_def)

lemma disk_frame_sys_call [simp]: "disk_frame e (snd (sys_call ed)) = disk_frame e ed"
  by (simp add: sys_call_def)

lemma disk_frame_upd_stream: "disk_frame e ed \<Longrightarrow> fp = core_fp (core e) \<Longrightarrow> disk_frame e (upd_stream fp f ed)"
  by (simp add: disk_frame_def upd_stream_def)

lemma disk_frame_throw [simp]: "disk_frame e (snd (throw msg ed)) = disk_frame e ed"
  by (simp add: throw_def)

lemma disk_frame_get_line_node [simp]: "disk_frame e (snd (get_line_node n ed)) = disk_frame e ed"
  by (simp add: get_line_node_def Let_def case_prod_beta)

lemma disk_frame_append_line_node: "disk_frame e ed \<Longrightarrow> disk_frame e (snd (append_line_node len seek addr ed))"
  by (simp add: append_line_node_def Let_def case_prod_beta split: bool.splits prod.splits)

lemma disk_frame_core_fp: "disk_frame e ed \<Longrightarrow> core_fp (core ed) = core_fp (core e)"
  by (simp add: disk_frame_def)

lemma disk_frame_seek_end: "disk_frame e ed \<Longrightarrow> disk_frame e (snd (seek_end ed))"
  by (auto simp: seek_end_def fseek_def sys_call_def throw_def disk_frame_core_fp split: bool.splits intro!: disk_frame_upd_stream)

lemma disk_frame_put_buffer_line: "disk_frame ed (snd (put_buffer_line t len ed))"
  unfolding put_buffer_line_def
proof (rule andThen_keeps [where I = "disk_frame ed"])
  show "disk_frame ed (snd (seek_end ed))" by (simp add: disk_frame_seek_end)
  fix e assume e: "disk_frame ed e"
  let ?len = "len - 1"
  let ?e1 = "upd_stream (core_fp (core e)) (stream_write (take ?len t)) (sys_n_update Suc e)"
  let ?k = "\<lambda>_ ed. (Inr (drop (?len + 1) t), set_offset (offset (core ed) + int ?len) (set_dot (dot (state ed) + 1) ed))"
  let ?r = "append_line_node ?len (offset (core ?e1)) (dot (state ?e1)) ?e1"
  have "disk_frame ed ?e1" using e by (intro disk_frame_upd_stream) (simp_all add: disk_frame_core_fp)
  then have 1: "disk_frame ed (snd (andThen ?r ?k))"
    by (intro andThen_keeps [where I = "disk_frame ed"] disk_frame_append_line_node) simp_all
  show "disk_frame ed (snd (let len = len - 1 in
       if u64 (OFF_T_MAX - int len) < u64 (offset (core e)) then throw ''Buffer full'' e
       else case sys_call e of
         (False, ed) \<Rightarrow> throw ''Buffer write error'' (set_offset (-1) ed)
       | (True, ed) \<Rightarrow>
           (let ed = upd_stream (core_fp (core ed)) (stream_write (take len t)) ed in
            andThen (append_line_node len (offset (core ed)) (dot (state ed)) ed) (\<lambda>_ ed.
              (Inr (drop (len + 1) t),
               set_offset (offset (core ed) + int len) (set_dot (dot (state ed) + 1) ed))))))"
  proof (cases "sys_ok e (sys_n e)")
    case True
    then have "sys_call e = (True, sys_n_update Suc e)" by (simp add: sys_call_def)
    then show ?thesis using 1 e by (simp only: Let_def prod.case bool.case upd_stream_simps if_split snd_conv
        disk_frame_throw select_convs) auto
  qed (use e in \<open>simp add: Let_def sys_call_def\<close>)
qed

lemma disk_frame_get_buffer_line: "disk_frame ed (snd (get_buffer_line lp ed))"
proof (cases "lp = line_head")
  case False
  let ?fp = "core_fp (core ed)" and ?len = "ln_len (nodes (core ed) lp)" and ?seek = "ln_seek (nodes (core ed) lp)"
  define r where "r = (if offset (core ed) \<noteq> ?seek
      then fseek ?fp (\<lambda>f. nat ?seek) (set_offset ?seek (set_seek_on_write True ed)) else (True, set_seek_on_write True ed))"
  have r: "disk_frame ed (snd r)"
    by (auto simp: r_def fseek_def sys_call_def split: bool.splits intro!: disk_frame_upd_stream)
  obtain ok e where re: "r = (ok, e)" by (cases r)
  obtain tb f where rd: "stream_read ?len (streams e ?fp) = (tb, f)" by (cases "stream_read ?len (streams e ?fp)")
  have u: "disk_frame ed (upd_stream ?fp (\<lambda>_. f) e)" using r re by (simp add: disk_frame_upd_stream)
  have "get_buffer_line lp ed = (if \<not> ok then throw ''Buffer seek error'' e
      else case sys_call (upd_stream ?fp (\<lambda>_. f) e) of (ok, ed) \<Rightarrow>
        if \<not> ok \<or> length tb \<noteq> ?len then throw ''Buffer read error'' ed else (Inr tb, set_offset (offset (core ed) + int ?len) ed))"
    using False re rd by (simp add: get_buffer_line_def Let_def r_def cong: if_cong split del: if_split)
  then show ?thesis using r re u by (simp add: sys_call_def)
qed (simp add: get_buffer_line_def)

end
