(* ===== verification/Undo_Queue.thy ===== *)
theory Undo_Queue
  imports Line_Nodes
begin

text \<open>
  The undo queue of \<open>undo.c\<close> (\<open>append_undo_node\<close>, \<open>undo_last_command\<close>, \<open>reset_undo_queue\<close>),
  the marks of \<open>cmds.c\<close> (which freeing a deleted line clears) and the reset of the global buffer
  that an undo performs.

  The circular queue of undo nodes is the list of them in queue order; \<open>undo_last_command\<close> walks
  it from the back, relinks the lines of each node and reverses the queue.  \<open>undo_log\<close> says that
  the queue describes how the line buffer came from an earlier one: each record, applied to the
  memory it was made in, gives back the memory before it on the nodes that existed then.  The
  main lemma, \<open>undo_log_undo\<close>, says that the loop then restores the earlier buffer and that a
  second undo restores the memory exactly.
\<close>

section \<open>Marks\<close>

definition mark_line_node :: "node \<Rightarrow> char \<Rightarrow> ed_buffer \<Rightarrow> unit res" where
  "mark_line_node lp n ed =
     (if \<not> islower n then throw ''Invalid address mark'' ed
      else
        let i = byte n - byte (CHR ''a'');
            ed = (if mark (core ed) i = None then core_update (marks_update (\<lambda>m. m + 1)) ed else ed)
        in (Inr (), core_update (mark_update (\<lambda>m. m(i := Some lp))) ed))"

definition get_marked_node_address :: "char \<Rightarrow> ed_buffer \<Rightarrow> int res" where
  "get_marked_node_address n ed =
     (if \<not> islower n then throw ''Invalid address mark'' ed
      else get_line_node_address (mark (core ed) (byte n - byte (CHR ''a''))) ed)"

definition transfer_marks :: "node \<Rightarrow> node \<Rightarrow> ed_buffer \<Rightarrow> ed_buffer" where
  "transfer_marks mp lp ed =
     fold (\<lambda>n ed. if mark (core ed) n = Some lp
                  then core_update (mark_update (\<lambda>m. m(n := Some mp))) ed else ed)
       (rev [0..<MARK_MAX]) ed"

definition unmark_slot :: "node \<Rightarrow> nat \<Rightarrow> ed_buffer \<Rightarrow> ed_buffer" where
  "unmark_slot lp i ed =
     (if marks (core ed) \<noteq> 0 \<and> mark (core ed) i = Some lp
      then core_update (\<lambda>c. c\<lparr>mark := (mark c)(i := None), marks := marks c - 1\<rparr>) ed
      else ed)"

definition unmark_line_node :: "node \<Rightarrow> ed_buffer \<Rightarrow> ed_buffer" where
  "unmark_line_node lp ed = fold (unmark_slot lp) [0..<MARK_MAX] ed"

section \<open>The global buffer is reset\<close>

definition reset_global_buffer :: "ed_buffer \<Rightarrow> ed_buffer" where
  "reset_global_buffer ed =
     spl0 (core_update (global_buffer_update (\<lambda>_.
       \<lparr>gb_lbuf = [], gb_last = 0, gb_ptr = 0, gb_index = 0\<rparr>)) (spl1 ed))"

section \<open>Undo records\<close>

abbreviation set_undo_queue :: "ed_undo_node list \<Rightarrow> ed_buffer \<Rightarrow> ed_buffer" where
  "set_undo_queue q \<equiv> core_update (undo_queue_update (\<lambda>_. q))"

text \<open>A record is returned as its index in the queue.\<close>

definition append_undo_node :: "ed_undo_op \<Rightarrow> int \<Rightarrow> int \<Rightarrow> ed_buffer \<Rightarrow> nat res" where
  "append_undo_node type from to ed =
     (case sys_call (spl1 ed) of
        (False, ed) \<Rightarrow> (Inl ERR, spl0 (set_err ''Memory exhausted'' ed))
      | (True, ed) \<Rightarrow>
          (let (h, ed) = get_line_node from ed;
               (t, ed) = get_line_node to ed;
               q = undo_queue (core ed)
           in (Inr (length q),
               spl0 (set_undo_queue (q @ [\<lparr>undo_h = h, undo_t = t, undo_type = type\<rparr>]) ed))))"

definition APPEND_UNDO_NODE :: "node \<Rightarrow> nat option \<Rightarrow> int \<Rightarrow> ed_buffer \<Rightarrow> nat res" where
  "APPEND_UNDO_NODE lp up addr ed =
     (case up of
        Some i \<Rightarrow> (Inr i, core_update (undo_queue_update (\<lambda>q. q[i := (q ! i)\<lparr>undo_t := lp\<rparr>])) ed)
      | None \<Rightarrow>
          (case append_undo_node UADD addr addr ed of
             (Inl _, ed) \<Rightarrow> (Inl ERR, spl0 ed)
           | (Inr i, ed) \<Rightarrow> (Inr i, ed)))"

definition undo_add :: "ed_undo_node \<Rightarrow> heap \<Rightarrow> heap" where
  "undo_add up h = link_nodes (q_back (h (undo_h up))) (q_forw (h (undo_t up))) h"

definition undo_del :: "ed_undo_node \<Rightarrow> heap \<Rightarrow> heap" where
  "undo_del up h =
     (let h1 = link_nodes (q_back (h (undo_h up))) (undo_h up) h
      in link_nodes (undo_t up) (q_forw (h1 (undo_t up))) h1)"

definition undo_mov :: "ed_undo_node \<Rightarrow> ed_undo_node \<Rightarrow> heap \<Rightarrow> heap" where
  "undo_mov up prev h =
     (let h1 = link_nodes (undo_h prev) (q_forw (h (undo_h up))) h;
          h2 = link_nodes (q_back (h1 (undo_t up))) (undo_t prev) h1
      in link_nodes (undo_h up) (undo_t up) h2)"

definition toggle_type :: "ed_undo_node \<Rightarrow> ed_undo_node" where
  "toggle_type up = up\<lparr>undo_type := undo_inverse (undo_type up)\<rparr>"

definition queue_cons :: "'b list \<Rightarrow> ('a \<times> 'b list) option \<Rightarrow> ('a \<times> 'b list) option" where
  "queue_cons xs r = (case r of None \<Rightarrow> None | Some (h, q) \<Rightarrow> Some (h, xs @ q))"

text \<open>
  The loop of \<open>undo_last_command\<close> over the queue from its back: the memory after it and the
  records, types toggled, in the order the reversed queue has them.  A move has two records; the
  loop reads both and toggles the earlier one.  A move record without a partner (the code never
  makes one) would read the queue head, and has no result.
\<close>

fun undo_loop :: "heap \<Rightarrow> ed_undo_node list \<Rightarrow> (heap \<times> ed_undo_node list) option" where
  "undo_loop h [] = Some (h, [])"
| "undo_loop h (up # ups) =
     (case undo_type up of
        UADD \<Rightarrow> queue_cons [toggle_type up] (undo_loop (undo_add up h) ups)
      | UDEL \<Rightarrow> queue_cons [toggle_type up] (undo_loop (undo_del up h) ups)
      | _ \<Rightarrow> (case ups of
                [] \<Rightarrow> None
              | prev # rest \<Rightarrow>
                  queue_cons [up, toggle_type prev] (undo_loop (undo_mov up prev h) rest)))"

definition undo_last_command :: "ed_buffer \<Rightarrow> unit res" where
  "undo_last_command ed =
     (let saved_buf = state ed in
      if dot (state1 ed) = -1 \<or> lines (state1 ed) = -1 then throw ''Nothing to undo'' ed
      else
        let ed = snd (get_line_node 0 (spl1 ed)) in
        case undo_loop (nodes (core ed)) (rev (undo_queue (core ed))) of
          None \<Rightarrow> (Inl FATAL, ed)
        | Some (h, q) \<Rightarrow>
            (let ed = set_undo_queue q (set_nodes h ed);
                 ed = (if global (exec ed) \<noteq> {} then reset_global_buffer ed else ed);
                 ed = state1_update (\<lambda>_. saved_buf) (state_update (\<lambda>_. state1 ed) ed)
             in (Inr (), spl0 ed)))"

text \<open>
  \<open>reset_undo_queue\<close> frees the lines of each deletion, from \<open>h\<close> to before \<open>t->q_forw\<close>.  The
  walk takes fuel, of which the number of allocated nodes is enough (\<open>free_segment_chain\<close>).
\<close>

fun free_segment :: "nat \<Rightarrow> node \<Rightarrow> node \<Rightarrow> ed_buffer \<Rightarrow> ed_buffer option" where
  "free_segment 0 lp ep ed = (if lp = ep then Some ed else None)"
| "free_segment (Suc k) lp ep ed =
     (if lp = ep then Some ed
      else free_segment k (q_forw (nodes (core ed) lp)) ep
             (core_update (freed_update (insert lp)) (unmark_line_node lp ed)))"

fun reset_undo_loop :: "ed_undo_node list \<Rightarrow> ed_buffer \<Rightarrow> ed_buffer option" where
  "reset_undo_loop [] ed = Some ed"
| "reset_undo_loop (up # ups) ed =
     Option.bind
       (if undo_type up = UDEL
        then free_segment (next_node (core ed)) (undo_h up) (q_forw (nodes (core ed) (undo_t up))) ed
        else Some ed)
       (reset_undo_loop ups)"

definition reset_undo_queue :: "ed_buffer \<Rightarrow> unit res" where
  "reset_undo_queue ed =
     (case reset_undo_loop (undo_queue (core ed)) (spl1 ed) of
        None \<Rightarrow> (Inl FATAL, ed)
      | Some ed \<Rightarrow> (Inr (), spl0 (state1_update (\<lambda>_. state ed) (set_undo_queue [] ed))))"

section \<open>Memories that agree on the nodes below a bound\<close>

definition agree :: "nat \<Rightarrow> heap \<Rightarrow> heap \<Rightarrow> bool" where
  "agree n h g \<longleftrightarrow> (\<forall>x<n. h x = g x)"

definition closed_below :: "nat \<Rightarrow> heap \<Rightarrow> bool" where
  "closed_below n h \<longleftrightarrow> (\<forall>x<n. q_forw (h x) < n \<and> q_back (h x) < n)"

definition rec_below :: "nat \<Rightarrow> ed_undo_node \<Rightarrow> bool" where
  "rec_below n up \<longleftrightarrow> undo_h up < n \<and> undo_t up < n"

lemma agree_refl [simp]: "agree n h h"
  by (simp add: agree_def)

lemma agree_sym: "agree n h g \<Longrightarrow> agree n g h"
  by (simp add: agree_def)

lemma agree_trans: "agree m h g \<Longrightarrow> agree n g k \<Longrightarrow> m \<le> n \<Longrightarrow> agree m h k"
  by (simp add: agree_def)

lemma agree_mono: "agree n h g \<Longrightarrow> m \<le> n \<Longrightarrow> agree m h g"
  by (simp add: agree_def)

lemma link_agree: "agree n h g \<Longrightarrow> agree n (link_nodes p q h) (link_nodes p q g)"
  by (auto simp: agree_def link_nodes_def Let_def)

lemma link_closed: "closed_below n h \<Longrightarrow> p < n \<Longrightarrow> q < n \<Longrightarrow> closed_below n (link_nodes p q h)"
  by (auto simp: closed_below_def)

lemma closed_cong: "agree n h g \<Longrightarrow> closed_below n h \<Longrightarrow> closed_below n g"
  by (simp add: agree_def closed_below_def)

lemma ring_agree: "agree n h g \<Longrightarrow> \<forall>x\<in>set ns. x < n \<Longrightarrow> 0 < n \<Longrightarrow> ring h ns \<Longrightarrow> ring g ns"
  by (subst ring_frame [of ns g h]) (auto simp: agree_def line_head_def)

lemma agreeD: "agree n h g \<Longrightarrow> x < n \<Longrightarrow> h x = g x"
  by (simp add: agree_def)

lemma closedD:
  "closed_below n h \<Longrightarrow> x < n \<Longrightarrow> q_forw (h x) < n" "closed_below n h \<Longrightarrow> x < n \<Longrightarrow> q_back (h x) < n"
  by (simp_all add: closed_below_def)

text \<open>Linking nodes read from two memories that agree keeps them in agreement.\<close>

lemma link_agree_eq:
  "agree n h g \<Longrightarrow> p = p' \<Longrightarrow> q = q' \<Longrightarrow> agree n (link_nodes p q h) (link_nodes p' q' g)"
  by (simp add: link_agree)

lemma undo_step_agree:
  assumes ag: "agree n h g" and up: "rec_below n up"
  shows "agree n (undo_add up h) (undo_add up g)" "agree n (undo_del up h) (undo_del up g)"
    and "rec_below n prev \<Longrightarrow> agree n (undo_mov up prev h) (undo_mov up prev g)"
proof -
  have e: "h (undo_h up) = g (undo_h up)" "h (undo_t up) = g (undo_t up)"
    using up agreeD [OF ag] by (simp_all add: rec_below_def)
  show "agree n (undo_add up h) (undo_add up g)"
    unfolding undo_add_def e by (rule link_agree [OF ag])
  have 1: "agree n (link_nodes (q_back (h (undo_h up))) (undo_h up) h) (link_nodes (q_back (g (undo_h up))) (undo_h up) g)"
    unfolding e by (rule link_agree [OF ag])
  show "agree n (undo_del up h) (undo_del up g)"
    unfolding undo_del_def Let_def
    by (intro link_agree_eq 1 refl) (simp add: e)
  assume prev: "rec_below n prev"
  have 2: "agree n (link_nodes (undo_h prev) (q_forw (h (undo_h up))) h) (link_nodes (undo_h prev) (q_forw (g (undo_h up))) g)"
    unfolding e by (rule link_agree [OF ag])
  show "agree n (undo_mov up prev h) (undo_mov up prev g)"
    unfolding undo_mov_def Let_def
    by (intro link_agree_eq 2 refl) (simp add: e)
qed

section \<open>Undo steps are reversible\<close>

text \<open>Where the record fits: the segment is in place (to undo an addition), its ends still point
  to neighbours that are linked to each other (to undo a deletion), ...\<close>

definition add_pre :: "ed_undo_node \<Rightarrow> heap \<Rightarrow> bool" where
  "add_pre up h \<longleftrightarrow>
     (let b = q_back (h (undo_h up)); a = q_forw (h (undo_t up)) in
      q_forw (h b) = undo_h up \<and> q_back (h a) = undo_t up \<and>
      b \<noteq> undo_t up \<and> a \<noteq> undo_h up)"

definition del_pre :: "ed_undo_node \<Rightarrow> heap \<Rightarrow> bool" where
  "del_pre up h \<longleftrightarrow>
     (let b = q_back (h (undo_h up)); a = q_forw (h (undo_t up)) in
      q_forw (h b) = a \<and> q_back (h a) = b \<and> b \<noteq> undo_t up \<and> a \<noteq> undo_h up)"

text \<open>\<open>b1\<close>, \<open>a1\<close> are linked, and a segment is between \<open>b2\<close> and \<open>a2\<close>.\<close>

definition mov_pre :: "ed_undo_node \<Rightarrow> ed_undo_node \<Rightarrow> heap \<Rightarrow> bool" where
  "mov_pre up prev h \<longleftrightarrow>
     (let b2 = undo_h up; a2 = undo_t up; b1 = undo_h prev; a1 = undo_t prev;
          s = q_forw (h b2); e = q_back (h a2) in
      q_forw (h b1) = a1 \<and> q_back (h a1) = b1 \<and> q_back (h s) = b2 \<and> q_forw (h e) = a2 \<and>
      b1 \<noteq> b2 \<and> a1 \<noteq> a2 \<and> s \<noteq> a1 \<and> s \<noteq> a2 \<and> e \<noteq> b1 \<and> e \<noteq> b2)"

lemma pre_agree:
  assumes "agree n h g" "closed_below n h" "rec_below n up"
  shows "add_pre up h \<Longrightarrow> add_pre up g" "del_pre up h \<Longrightarrow> del_pre up g"
    and "rec_below n prev \<Longrightarrow> mov_pre up prev h \<Longrightarrow> mov_pre up prev g"
  using assms
  by (auto simp: add_pre_def del_pre_def mov_pre_def Let_def agree_def rec_below_def closed_below_def)

lemma toggle_type_simps [simp]:
  "undo_h (toggle_type up) = undo_h up" "undo_t (toggle_type up) = undo_t up"
  "undo_type (toggle_type up) = undo_inverse (undo_type up)"
  "toggle_type (toggle_type up) = up"
  by (simp_all add: toggle_type_def)

lemma undo_ops_toggle [simp]:
  "undo_add (toggle_type up) = undo_add up" "undo_del (toggle_type up) = undo_del up"
  "undo_mov (toggle_type up) prev = undo_mov up prev" "undo_mov up (toggle_type prev) = undo_mov up prev"
  by (rule ext; simp add: undo_add_def undo_del_def undo_mov_def)+

lemma undo_del_add: "add_pre up h \<Longrightarrow> undo_del up (undo_add up h) = h"
  by (rule heap_eqI) (auto simp: add_pre_def undo_del_def undo_add_def Let_def)

lemma undo_add_del: "del_pre up h \<Longrightarrow> undo_add up (undo_del up h) = h"
  by (rule heap_eqI) (auto simp: del_pre_def undo_del_def undo_add_def Let_def)

lemma undo_mov_mov: "mov_pre up prev h \<Longrightarrow> undo_mov prev up (undo_mov up prev h) = h"
  by (rule heap_eqI) (auto simp: mov_pre_def undo_mov_def Let_def)

section \<open>The log that the queue keeps\<close>

text \<open>
  \<open>undo_log ns0 n h ns us\<close>: the memory \<open>h\<close>, with \<open>n\<close> nodes allocated and the lines \<open>ns\<close>, came
  from a buffer with the lines \<open>ns0\<close> by the operations recorded in \<open>us\<close>, the latest first.
\<close>

definition heap_ok :: "nat \<Rightarrow> heap \<Rightarrow> node list \<Rightarrow> bool" where
  "heap_ok n h ns \<longleftrightarrow> ring h ns \<and> closed_below n h \<and> 0 < n \<and> (\<forall>x\<in>set ns. x < n)"

inductive undo_log :: "node list \<Rightarrow> nat \<Rightarrow> heap \<Rightarrow> node list \<Rightarrow> ed_undo_node list \<Rightarrow> bool"
  for ns0 :: "node list" where
  log_nil: "heap_ok n h ns0 \<Longrightarrow> undo_log ns0 n h ns0 []"
| log_add: "undo_log ns0 m h ns us \<Longrightarrow> m \<le> n \<Longrightarrow> heap_ok n h' ns' \<Longrightarrow> undo_type up = UADD \<Longrightarrow>
     rec_below n up \<Longrightarrow> add_pre up h' \<Longrightarrow> agree m (undo_add up h') h \<Longrightarrow> undo_log ns0 n h' ns' (up # us)"
| log_del: "undo_log ns0 m h ns us \<Longrightarrow> m \<le> n \<Longrightarrow> heap_ok n h' ns' \<Longrightarrow> undo_type up = UDEL \<Longrightarrow>
     rec_below n up \<Longrightarrow> del_pre up h' \<Longrightarrow> agree m (undo_del up h') h \<Longrightarrow> undo_log ns0 n h' ns' (up # us)"
| log_mov: "undo_log ns0 m h ns us \<Longrightarrow> m \<le> n \<Longrightarrow> heap_ok n h' ns' \<Longrightarrow>
     undo_type up \<in> {UMOV, URET} \<Longrightarrow> undo_type prev \<in> {UMOV, URET} \<Longrightarrow>
     rec_below n up \<Longrightarrow> rec_below n prev \<Longrightarrow> mov_pre up prev h' \<Longrightarrow>
     agree m (undo_mov up prev h') h \<Longrightarrow> undo_log ns0 n h' ns' (up # prev # us)"

inductive_cases undo_log_nilE: "undo_log ns0 n h ns []"

lemma undo_log_heap_ok: "undo_log ns0 n h ns us \<Longrightarrow> heap_ok n h ns"
  by (induction rule: undo_log.induct) simp_all

lemma queue_cons_simps [simp]:
  "queue_cons xs (Some (h, q)) = Some (h, xs @ q)" "queue_cons xs None = None"
  "queue_cons xs (queue_cons ys r) = queue_cons (xs @ ys) r" "queue_cons [] r = r"
  by (auto simp: queue_cons_def split: option.splits)

lemma queue_cons_Some:
  "queue_cons xs r = Some (h, q) \<longleftrightarrow> (\<exists>q'. r = Some (h, q') \<and> q = xs @ q')"
  by (auto simp: queue_cons_def split: option.splits)

lemma undo_loop_append:
  "undo_loop h xs = Some (h1, q1) \<Longrightarrow> undo_loop h (xs @ ys) = queue_cons q1 (undo_loop h1 ys)"
proof (induction h xs arbitrary: q1 rule: undo_loop.induct)
  case (2 h up ups)
  then show ?case
    by (cases "undo_type up"; cases ups) (auto simp: queue_cons_Some)
qed simp

text \<open>The last step of the second undo\<close>

lemma undo_loop_last:
  assumes "undo_loop g (rev q) = Some (h, q')"
  shows "undo_type up = UADD \<Longrightarrow> undo_loop g (rev ([toggle_type up] @ q)) = Some (undo_del up h, q' @ [up])"
    and "undo_type up = UDEL \<Longrightarrow> undo_loop g (rev ([toggle_type up] @ q)) = Some (undo_add up h, q' @ [up])"
    and "undo_type up \<in> {UMOV, URET} \<Longrightarrow> undo_type prev \<in> {UMOV, URET} \<Longrightarrow>
       undo_loop g (rev ([up, toggle_type prev] @ q)) = Some (undo_mov prev up h, q' @ [toggle_type prev, toggle_type up])"
  using undo_loop_append [OF assms] by auto

text \<open>The loop restores the earlier lines, and the loop over what it leaves takes it back.\<close>

lemma undo_log_undo:
  "undo_log ns0 n h ns us \<Longrightarrow> agree n h g \<Longrightarrow>
     \<exists>g' q q'. undo_loop g us = Some (g', q) \<and> ring g' ns0 \<and> undo_loop g' (rev q) = Some (g, q')"
proof (induction arbitrary: g rule: undo_log.induct)
  case (log_nil n h)
  then have "ring g ns0" by (auto simp: heap_ok_def intro: ring_agree)
  then show ?case by simp
next
  case (log_add m h ns us n h' ns' up)
  have cl: "closed_below n h'" using log_add.hyps by (simp add: heap_ok_def)
  have "agree m (undo_add up h') (undo_add up g)"
    using undo_step_agree(1) [OF log_add.prems] log_add.hyps agree_mono by blast
  then have "agree m h (undo_add up g)" using log_add.hyps agree_sym agree_trans by blast
  then obtain g' q q' where r: "undo_loop (undo_add up g) us = Some (g', q)" "ring g' ns0"
    "undo_loop g' (rev q) = Some (undo_add up g, q')" using log_add.IH by blast
  have "add_pre up g" using pre_agree(1) [OF log_add.prems cl] log_add.hyps by blast
  then have "undo_loop g' (rev ([toggle_type up] @ q)) = Some (g, q' @ [up])"
    using undo_loop_last(1) [OF r(3)] log_add.hyps undo_del_add by simp
  moreover have "undo_loop g (up # us) = Some (g', [toggle_type up] @ q)" using r log_add.hyps by simp
  ultimately show ?case using r(2) by blast
next
  case (log_del m h ns us n h' ns' up)
  have cl: "closed_below n h'" using log_del.hyps by (simp add: heap_ok_def)
  have "agree m (undo_del up h') (undo_del up g)"
    using undo_step_agree(2) [OF log_del.prems] log_del.hyps agree_mono by blast
  then have "agree m h (undo_del up g)" using log_del.hyps agree_sym agree_trans by blast
  then obtain g' q q' where r: "undo_loop (undo_del up g) us = Some (g', q)" "ring g' ns0"
    "undo_loop g' (rev q) = Some (undo_del up g, q')" using log_del.IH by blast
  have "del_pre up g" using pre_agree(2) [OF log_del.prems cl] log_del.hyps by blast
  then have "undo_loop g' (rev ([toggle_type up] @ q)) = Some (g, q' @ [up])"
    using undo_loop_last(2) [OF r(3)] log_del.hyps undo_add_del by simp
  moreover have "undo_loop g (up # us) = Some (g', [toggle_type up] @ q)" using r log_del.hyps by simp
  ultimately show ?case using r(2) by blast
next
  case (log_mov m h ns us n h' ns' up prev)
  have cl: "closed_below n h'" using log_mov.hyps by (simp add: heap_ok_def)
  have "agree m (undo_mov up prev h') (undo_mov up prev g)"
    using undo_step_agree(3) [OF log_mov.prems] log_mov.hyps agree_mono by blast
  then have "agree m h (undo_mov up prev g)" using log_mov.hyps agree_sym agree_trans by blast
  then obtain g' q q' where r: "undo_loop (undo_mov up prev g) us = Some (g', q)" "ring g' ns0"
    "undo_loop g' (rev q) = Some (undo_mov up prev g, q')" using log_mov.IH by blast
  have "mov_pre up prev g" using pre_agree(3) [OF log_mov.prems cl] log_mov.hyps by blast
  then have "undo_loop g' (rev ([up, toggle_type prev] @ q)) = Some (g, q' @ [toggle_type prev, toggle_type up])"
    using undo_loop_last(3) [OF r(3)] log_mov.hyps undo_mov_mov by simp
  moreover have "undo_loop g (up # prev # us) = Some (g', [up, toggle_type prev] @ q)"
    using r log_mov.hyps by auto
  ultimately show ?case using r(2) by blast
qed

section \<open>Undo of the editor's buffer\<close>

definition undo_inv :: "ed_buffer \<Rightarrow> node list \<Rightarrow> node list \<Rightarrow> bool" where
  "undo_inv ed ns0 ns \<longleftrightarrow>
     undo_log ns0 (next_node (core ed)) (nodes (core ed)) ns (rev (undo_queue (core ed))) \<and>
     (\<forall>x\<in>set ns0. x < next_node (core ed)) \<and>
     lines (state1 ed) = int (length ns0) \<and> 0 \<le> dot (state1 ed)"

lemma buf_inv_set_state1 [simp]: "buf_inv (state1_update f ed) ns = buf_inv ed ns"
  by (simp add: buf_inv_def)

lemma buf_inv_mutex [simp]:
  "buf_inv (spl1 ed) ns = buf_inv ed ns" "buf_inv (spl0 ed) ns = buf_inv ed ns"
  by (simp_all add: buf_inv_def spl1_def spl0_def)

lemma spl_simps [simp]:
  "state (spl1 ed) = state ed" "state (spl0 ed) = state ed" "state1 (spl1 ed) = state1 ed"
  "state1 (spl0 ed) = state1 ed" "core (spl1 ed) = core ed" "core (spl0 ed) = core ed"
  "statics (spl1 ed) = statics ed" "statics (spl0 ed) = statics ed"
  "exec (spl1 ed) = exec ed" "exec (spl0 ed) = exec ed" "streams (spl1 ed) = streams ed"
  "streams (spl0 ed) = streams ed" "sys_ok (spl1 ed) = sys_ok ed" "sys_ok (spl0 ed) = sys_ok ed"
  "sys_n (spl1 ed) = sys_n ed" "sys_n (spl0 ed) = sys_n ed" "input (spl1 ed) = input ed"
  "input (spl0 ed) = input ed" "mutex (spl1 ed) = mutex ed + 1" "mutex (spl0 ed) = mutex ed - 1"
  "sys_all_ok (spl1 ed) = sys_all_ok ed" "sys_all_ok (spl0 ed) = sys_all_ok ed"
  by (simp_all add: spl1_def spl0_def sys_all_ok_def)

lemma reset_global_buffer_frame [simp]:
  "state (reset_global_buffer ed) = state ed" "state1 (reset_global_buffer ed) = state1 ed"
  "statics (reset_global_buffer ed) = statics ed" "nodes (core (reset_global_buffer ed)) = nodes (core ed)"
  "next_node (core (reset_global_buffer ed)) = next_node (core ed)"
  "undo_queue (core (reset_global_buffer ed)) = undo_queue (core ed)"
  "exec (reset_global_buffer ed) = exec ed" "streams (reset_global_buffer ed) = streams ed"
  "core_fp (core (reset_global_buffer ed)) = core_fp (core ed)"
  "mutex (reset_global_buffer ed) = mutex ed"
  by (simp_all add: reset_global_buffer_def spl1_def spl0_def)

text \<open>What \<open>undo_last_command\<close> computes, given the result of its loop\<close>

lemma undo_last_command_result:
  assumes "undo_loop (nodes (core ed)) (rev (undo_queue (core ed))) = Some (h, q)"
    and "buf_inv ed ns" "0 \<le> dot (state1 ed)" "0 \<le> lines (state1 ed)"
  obtains ed' where "undo_last_command ed = (Inr (), ed')"
    "state ed' = state1 ed" "state1 ed' = state ed" "nodes (core ed') = h"
    "undo_queue (core ed') = q" "next_node (core ed') = next_node (core ed)"
    "gl_lp (statics ed') = Some line_head" "gl_n_prev (statics ed') = 0"
    "streams ed' = streams ed" "core_fp (core ed') = core_fp (core ed)" "mutex ed' = mutex ed"
    "exec ed' = exec ed"
proof -
  have "get_line_node 0 (spl1 ed) = (line_head, cache_node line_head 0 (spl1 ed))"
    using get_line_node_eq [of "spl1 ed" ns 0] assms(2) by (simp add: buf_inv_def)
  then show ?thesis
    using that [of "snd (undo_last_command ed)"] assms
    by (simp add: undo_last_command_def Let_def cache_node_def)
qed

lemma undo_last_command_restores:
  assumes inv: "buf_inv ed ns" and log: "undo_inv ed ns0 ns" and dot: "0 \<le> dot (state ed)"
  shows "\<exists>ed'. undo_last_command ed = (Inr (), ed') \<and> buf_inv ed' ns0 \<and>
     state ed' = state1 ed \<and> state1 ed' = state ed \<and>
     (\<exists>ed''. undo_last_command ed' = (Inr (), ed'') \<and> nodes (core ed'') = nodes (core ed) \<and>
        buf_inv ed'' ns \<and> state ed'' = state ed \<and> state1 ed'' = state1 ed)"
proof -
  obtain h q q' where l: "undo_loop (nodes (core ed)) (rev (undo_queue (core ed))) = Some (h, q)"
    "ring h ns0" "undo_loop h (rev q) = Some (nodes (core ed), q')"
    using undo_log_undo [of ns0 _ _ ns] log agree_refl unfolding undo_inv_def by blast
  have s1: "0 \<le> dot (state1 ed)" "0 \<le> lines (state1 ed)" using log by (simp_all add: undo_inv_def)
  obtain ed' where u: "undo_last_command ed = (Inr (), ed')"
    "state ed' = state1 ed" "state1 ed' = state ed" "nodes (core ed') = h"
    "undo_queue (core ed') = q" "next_node (core ed') = next_node (core ed)"
    "gl_lp (statics ed') = Some line_head" "gl_n_prev (statics ed') = 0"
    by (rule undo_last_command_result [OF l(1) inv s1])
  have b: "buf_inv ed' ns0"
    using u l(2) log inv by (auto simp: buf_inv_def undo_inv_def cache_inv_def)
  have s2: "0 \<le> dot (state1 ed')" "0 \<le> lines (state1 ed')" using u dot inv by (simp_all add: buf_inv_def)
  have l': "undo_loop (nodes (core ed')) (rev (undo_queue (core ed'))) = Some (nodes (core ed), q')"
    using l(3) u by simp
  obtain ed'' where v: "undo_last_command ed' = (Inr (), ed'')"
    "state ed'' = state1 ed'" "state1 ed'' = state ed'" "nodes (core ed'') = nodes (core ed)"
    "undo_queue (core ed'') = q'" "next_node (core ed'') = next_node (core ed')"
    "gl_lp (statics ed'') = Some line_head" "gl_n_prev (statics ed'') = 0"
    by (rule undo_last_command_result [OF l' b s2])
  have "buf_inv ed'' ns"
    using u v inv by (auto simp: buf_inv_def cache_inv_def)
  with u v b show ?thesis by auto
qed

section \<open>Marks\<close>

definition marks_inv :: "ed_core \<Rightarrow> bool" where
  "marks_inv c \<longleftrightarrow> marks c = int (card {i. i < MARK_MAX \<and> mark c i \<noteq> None})"

lemma islower_index: "islower c \<Longrightarrow> byte c - byte (CHR ''a'') < MARK_MAX"
  by (auto simp: islower_def MARK_MAX_def byte_def)

lemma marks_insert:
  "i < MARK_MAX \<Longrightarrow> m i = None \<Longrightarrow>
     {j. j < MARK_MAX \<and> (m(i := Some p)) j \<noteq> None} = insert i {j. j < MARK_MAX \<and> m j \<noteq> None}"
  by auto

lemma mark_line_node_inv:
  assumes "marks_inv (core ed)"
  shows "marks_inv (core (snd (mark_line_node lp n ed)))"
proof (cases "islower n")
  case True
  let ?i = "byte n - byte (CHR ''a'')"
  show ?thesis
  proof (cases "mark (core ed) ?i")
    case None
    then show ?thesis
      using assms True islower_index [OF True] marks_insert [of ?i "mark (core ed)" lp]
      by (simp add: mark_line_node_def marks_inv_def Let_def del: fun_upd_apply)
  next
    case (Some p)
    then have "{j. j < MARK_MAX \<and> ((mark (core ed))(?i := Some lp)) j \<noteq> None}
        = {j. j < MARK_MAX \<and> mark (core ed) j \<noteq> None}" by auto
    with Some assms True show ?thesis
      by (simp add: mark_line_node_def marks_inv_def Let_def del: fun_upd_apply)
  qed
qed (use assms in \<open>simp add: mark_line_node_def throw_def\<close>)

lemma mark_get_roundtrip:
  assumes "buf_inv ed ns" "islower c" "0 \<le> n" "n \<le> lines (state ed)"
  shows "\<exists>ed'. mark_line_node (node_at ns n) c ed = (Inr (), ed') \<and>
     get_marked_node_address c ed' = (Inr n, ed')"
proof -
  let ?e = "snd (mark_line_node (node_at ns n) c ed)"
  have e: "mark_line_node (node_at ns n) c ed = (Inr (), ?e)" "buf_inv ?e ns"
    "mark (core ?e) (byte c - byte (CHR ''a'')) = Some (node_at ns n)" "state ?e = state ed"
    using assms by (auto simp: mark_line_node_def Let_def buf_inv_def)
  have "get_marked_node_address c ?e = (Inr n, ?e)"
    using get_line_node_address_found [OF e(2) assms(3)] e(3,4) assms by (simp add: get_marked_node_address_def)
  with e(1) show ?thesis by blast
qed

lemma marks_remove:
  assumes "marks_inv c" "i < MARK_MAX" "mark c i = Some lp"
  shows "marks c \<noteq> 0" "marks_inv (c\<lparr>mark := (mark c)(i := None), marks := marks c - 1\<rparr>)"
proof -
  let ?S = "{j. j < MARK_MAX \<and> mark c j \<noteq> None}"
  have S: "finite ?S" "i \<in> ?S" using assms by auto
  then have c: "card ?S = Suc (card (?S - {i}))" by (metis card.remove)
  then show "marks c \<noteq> 0" using assms(1) by (simp add: marks_inv_def)
  have "{j. j < MARK_MAX \<and> ((mark c)(i := None)) j \<noteq> None} = ?S - {i}" by auto
  then show "marks_inv (c\<lparr>mark := (mark c)(i := None), marks := marks c - 1\<rparr>)"
    using assms(1) c by (simp add: marks_inv_def del: fun_upd_apply)
qed

lemma unmark_slot_inv:
  assumes "marks_inv (core ed)" "i < MARK_MAX"
  shows "marks_inv (core (unmark_slot lp i ed))"
    and "mark (core (unmark_slot lp i ed)) j =
      (if j = i \<and> mark (core ed) j = Some lp then None else mark (core ed) j)"
  using marks_remove [OF assms] assms(1) by (auto simp: unmark_slot_def)

lemma unmark_fold:
  "marks_inv (core ed) \<Longrightarrow> \<forall>i\<in>set is. i < MARK_MAX \<Longrightarrow>
     marks_inv (core (fold (unmark_slot lp) is ed)) \<and>
     mark (core (fold (unmark_slot lp) is ed)) j =
       (if j \<in> set is \<and> mark (core ed) j = Some lp then None else mark (core ed) j)"
  by (induction "is" arbitrary: ed) (auto simp: unmark_slot_inv)

lemma unmark_line_node_inv:
  assumes "marks_inv (core ed)"
  shows "marks_inv (core (unmark_line_node lp ed))"
    and "j < MARK_MAX \<Longrightarrow> mark (core (unmark_line_node lp ed)) j \<noteq> Some lp"
    and "mark (core (unmark_line_node lp ed)) j = Some p \<Longrightarrow> mark (core ed) j = Some p"
  using unmark_fold [OF assms, of "[0..<MARK_MAX]" lp j]
  by (auto simp: unmark_line_node_def split: if_splits)

lemma unmark_frame:
  "\<exists>m k. fold (unmark_slot lp) is ed = core_update (\<lambda>c. c\<lparr>mark := m, marks := k\<rparr>) ed"
proof (induction "is" arbitrary: ed)
  case Nil
  show ?case by (intro exI [of _ "mark (core ed)"] exI [of _ "marks (core ed)"]) simp
next
  case (Cons i "is")
  obtain m k where "fold (unmark_slot lp) is (unmark_slot lp i ed)
      = core_update (\<lambda>c. c\<lparr>mark := m, marks := k\<rparr>) (unmark_slot lp i ed)"
    using Cons.IH by blast
  then have "fold (unmark_slot lp) (i # is) ed = core_update (\<lambda>c. c\<lparr>mark := m, marks := k\<rparr>) ed"
    by (simp add: unmark_slot_def o_def)
  then show ?case by blast
qed

text \<open>Freeing the lines of a deletion: the walk follows the chain, frees its nodes and clears
  their marks.\<close>

lemma free_segment_chain:
  "chain (nodes (core ed)) (zs @ [ep]) \<Longrightarrow> ep \<notin> set zs \<Longrightarrow> length zs \<le> k \<Longrightarrow> marks_inv (core ed) \<Longrightarrow>
     \<exists>ed'. free_segment k (hd (zs @ [ep])) ep ed = Some ed' \<and> freed (core ed') = freed (core ed) \<union> set zs \<and>
       marks_inv (core ed') \<and> nodes (core ed') = nodes (core ed) \<and> state ed' = state ed \<and>
       next_node (core ed') = next_node (core ed) \<and> undo_queue (core ed') = undo_queue (core ed) \<and>
       (\<forall>j<MARK_MAX. \<forall>p. mark (core ed') j = Some p \<longrightarrow> mark (core ed) j = Some p \<and> p \<notin> set zs)"
proof (induction zs arbitrary: k ed)
  case Nil
  then show ?case by (cases k) auto
next
  case (Cons z zs)
  obtain k' where k: "k = Suc k'" using Cons.prems by (cases k) auto
  let ?e = "core_update (freed_update (insert z)) (unmark_line_node z ed)"
  obtain m j where f: "unmark_line_node z ed = core_update (\<lambda>c. c\<lparr>mark := m, marks := j\<rparr>) ed"
    using unmark_frame [of z "[0..<MARK_MAX]" ed] by (auto simp: unmark_line_node_def)
  have e: "nodes (core ?e) = nodes (core ed)" "state ?e = state ed" "freed (core ?e) = insert z (freed (core ed))"
    "next_node (core ?e) = next_node (core ed)" "undo_queue (core ?e) = undo_queue (core ed)"
    by (simp_all add: f)
  have mi: "marks_inv (core ?e)" using unmark_line_node_inv(1) [OF Cons.prems(4), of z]
    by (simp add: marks_inv_def)
  have mk: "mark (core ?e) i = Some p \<Longrightarrow> i < MARK_MAX \<Longrightarrow> mark (core ed) i = Some p \<and> p \<noteq> z" for i p
    using unmark_line_node_inv(2) [OF Cons.prems(4), of i z]
      unmark_line_node_inv(3) [OF Cons.prems(4), of z i p] by auto
  have c: "chain (nodes (core ?e)) (zs @ [ep])" "q_forw (nodes (core ed) z) = hd (zs @ [ep])"
    using Cons.prems(1) e(1) by (cases zs; simp)+
  obtain ed' where r: "free_segment k' (hd (zs @ [ep])) ep ?e = Some ed'" "freed (core ed') = freed (core ?e) \<union> set zs"
    "marks_inv (core ed')" "nodes (core ed') = nodes (core ?e)" "state ed' = state ?e"
    "next_node (core ed') = next_node (core ?e)" "undo_queue (core ed') = undo_queue (core ?e)"
    and ms: "\<forall>j<MARK_MAX. \<forall>p. mark (core ed') j = Some p \<longrightarrow> mark (core ?e) j = Some p \<and> p \<notin> set zs"
    using Cons.IH [OF c(1) _ _ mi, of k'] Cons.prems(2,3) k by auto
  have "\<forall>j<MARK_MAX. \<forall>p. mark (core ed') j = Some p \<longrightarrow> mark (core ed) j = Some p \<and> p \<notin> set (z # zs)"
    using ms mk by fastforce
  then show ?case using k Cons.prems(2) e c(2) r
    by (intro exI [of _ ed']) auto
qed

end
