(* ===== verification/Global_Buffer.thy ===== *)
theory Global_Buffer
  imports Undo_Queue
begin

text \<open>
  The global command buffer of \<open>global.c\<close>: the nodes that a global command has still to visit.
  \<open>append_global_line\<close> fills it, \<open>clear_global_lines\<close> clears the entries of lines that a command
  deletes or moves, \<open>next_global_line\<close> steps through it.

  \<open>clear_global_lines\<close> keeps a rotating index, so that clearing consecutive lines is cheap; the
  lemmas show that from any index it clears the entries of exactly the nodes between its bounds.
\<close>

abbreviation set_gb :: "ed_global_buffer \<Rightarrow> ed_buffer \<Rightarrow> ed_buffer" where
  "set_gb gb \<equiv> core_update (global_buffer_update (\<lambda>_. gb))"

definition append_global_line :: "node \<Rightarrow> ed_buffer \<Rightarrow> unit res" where
  "append_global_line lp ed =
     (let gb = global_buffer (core ed) in
      (Inr (), set_gb (gb\<lparr>gb_lbuf := gb_lbuf gb @ [Some lp], gb_last := gb_last gb + 1\<rparr>) ed))"

text \<open>\<open>INC_MOD (gb->index, gb->last - 1)\<close>\<close>

definition inc_index :: "ed_global_buffer \<Rightarrow> ed_global_buffer" where
  "inc_index gb = gb\<lparr>gb_index := (if gb_index gb = gb_last gb - 1 then 0 else gb_index gb + 1)\<rparr>"

fun clear_scan :: "nat \<Rightarrow> node \<Rightarrow> ed_global_buffer \<Rightarrow> ed_global_buffer" where
  "clear_scan 0 lp gb = gb"
| "clear_scan (Suc i) lp gb =
     (if gb_lbuf gb ! gb_index gb = Some lp
      then inc_index (gb\<lparr>gb_lbuf := (gb_lbuf gb)[gb_index gb := None]\<rparr>)
      else clear_scan i lp (inc_index gb))"

text \<open>The walk from \<open>np\<close> to \<open>mp\<close>, with fuel\<close>

fun clear_walk :: "nat \<Rightarrow> heap \<Rightarrow> node \<Rightarrow> node \<Rightarrow> ed_global_buffer \<Rightarrow> ed_global_buffer option" where
  "clear_walk 0 h lp mp gb = (if lp = mp then Some gb else None)"
| "clear_walk (Suc k) h lp mp gb =
     (if lp = mp then Some gb
      else clear_walk k h (q_forw (h lp)) mp (clear_scan (gb_last gb) lp gb))"

definition clear_global_lines :: "node \<Rightarrow> node \<Rightarrow> int \<Rightarrow> ed_buffer \<Rightarrow> unit res" where
  "clear_global_lines np mp count ed =
     (case clear_walk (next_node (core ed)) (nodes (core ed)) np mp (global_buffer (core ed)) of
        None \<Rightarrow> (Inl FATAL, ed)
      | Some gb \<Rightarrow> (Inr (), set_gb gb ed))"

fun skip_cleared :: "nat \<Rightarrow> ed_global_buffer \<Rightarrow> ed_global_buffer" where
  "skip_cleared 0 gb = gb"
| "skip_cleared (Suc k) gb =
     (if gb_ptr gb < gb_last gb \<and> gb_lbuf gb ! gb_ptr gb = None
      then skip_cleared k (gb\<lparr>gb_ptr := gb_ptr gb + 1\<rparr>) else gb)"

definition next_global_line :: "ed_buffer \<Rightarrow> node option \<times> ed_buffer" where
  "next_global_line ed =
     (let gb = global_buffer (core ed);
          gb = skip_cleared (gb_last gb - gb_ptr gb) gb
      in if gb_ptr gb < gb_last gb
         then (gb_lbuf gb ! gb_ptr gb, set_gb (gb\<lparr>gb_ptr := gb_ptr gb + 1\<rparr>) ed)
         else (None, set_gb gb ed))"

section \<open>Invariant\<close>

definition gb_inv :: "ed_global_buffer \<Rightarrow> bool" where
  "gb_inv gb \<longleftrightarrow> length (gb_lbuf gb) = gb_last gb \<and> gb_ptr gb \<le> gb_last gb \<and>
     (gb_last gb = 0 \<and> gb_index gb = 0 \<or> gb_index gb < gb_last gb)"

definition once_in :: "node \<Rightarrow> node option list \<Rightarrow> bool" where
  "once_in lp xs \<longleftrightarrow> (\<forall>i j. i < length xs \<longrightarrow> j < length xs \<longrightarrow> xs ! i = Some lp \<longrightarrow> xs ! j = Some lp \<longrightarrow> i = j)"

abbreviation cleared :: "node set \<Rightarrow> node option list \<Rightarrow> node option list" where
  "cleared A xs \<equiv> map (\<lambda>e. if e \<in> Some ` A then None else e) xs"

lemma inc_index_fields [simp]:
  "gb_lbuf (inc_index gb) = gb_lbuf gb" "gb_last (inc_index gb) = gb_last gb"
  "gb_ptr (inc_index gb) = gb_ptr gb"
  by (simp_all add: inc_index_def)

lemma inc_index_mod:
  "gb_index gb < gb_last gb \<Longrightarrow> gb_index (inc_index gb) = (gb_index gb + 1) mod gb_last gb"
  by (auto simp: inc_index_def)

lemma update_once: "once_in lp xs \<Longrightarrow> i < length xs \<Longrightarrow> xs ! i = Some lp \<Longrightarrow> xs[i := None] = cleared {lp} xs"
  by (rule nth_equalityI) (auto simp: once_in_def nth_list_update)

lemma clear_scan_spec:
  assumes "gb_index gb < gb_last gb" "length (gb_lbuf gb) = gb_last gb" "once_in lp (gb_lbuf gb)"
  shows "gb_lbuf (clear_scan k lp gb) =
      (if \<exists>d<k. gb_lbuf gb ! ((gb_index gb + d) mod gb_last gb) = Some lp
       then cleared {lp} (gb_lbuf gb) else gb_lbuf gb) \<and>
    gb_last (clear_scan k lp gb) = gb_last gb \<and> gb_ptr (clear_scan k lp gb) = gb_ptr gb \<and>
    gb_index (clear_scan k lp gb) < gb_last gb"
  using assms
proof (induction k arbitrary: gb)
  case (Suc k)
  let ?g = "inc_index gb"
  have i: "gb_index ?g < gb_last gb" using inc_index_mod [OF Suc.prems(1)] Suc.prems(1) by simp
  show ?case
  proof (cases "gb_lbuf gb ! gb_index gb = Some lp")
    case True
    then have "\<exists>d<Suc k. gb_lbuf gb ! ((gb_index gb + d) mod gb_last gb) = Some lp"
      using Suc.prems(1) by (intro exI [of _ 0]) simp
    moreover have "gb_index (inc_index (gb\<lparr>gb_lbuf := (gb_lbuf gb)[gb_index gb := None]\<rparr>)) < gb_last gb"
      using inc_index_mod [of "gb\<lparr>gb_lbuf := (gb_lbuf gb)[gb_index gb := None]\<rparr>"] Suc.prems(1) by simp
    ultimately show ?thesis using True update_once [OF Suc.prems(3)] Suc.prems(1,2) by simp
  next
    case False
    have "(gb_index ?g + d) mod gb_last gb = (gb_index gb + Suc d) mod gb_last gb" for d
      using inc_index_mod [OF Suc.prems(1)] by (simp add: mod_add_left_eq)
    then have "(\<exists>d<k. gb_lbuf ?g ! ((gb_index ?g + d) mod gb_last ?g) = Some lp) \<longleftrightarrow>
        (\<exists>d<Suc k. gb_lbuf gb ! ((gb_index gb + d) mod gb_last gb) = Some lp)"
      using False Suc.prems(1) by (simp add: Ex_less_Suc2)
    with False Suc.IH [of ?g] i Suc.prems show ?thesis by (simp only: clear_scan.simps inc_index_fields if_False)
  qed
qed simp

lemma rotated_index:
  fixes i j n :: nat
  assumes "i < n" "j < n"
  shows "\<exists>d<n. (i + d) mod n = j"
proof (cases "i \<le> j")
  case True
  then show ?thesis using assms by (intro exI [of _ "j - i"]) simp
next
  case False
  then have "(i + (n - i + j)) mod n = j" using assms by simp
  with False assms show ?thesis by (intro exI [of _ "n - i + j"]) linarith
qed

text \<open>A full scan clears the entry of the node, if there is one, from any index.\<close>

lemma clear_scan_full:
  assumes "gb_inv gb" "once_in lp (gb_lbuf gb)"
  shows "gb_lbuf (clear_scan (gb_last gb) lp gb) = cleared {lp} (gb_lbuf gb)"
    and "gb_inv (clear_scan (gb_last gb) lp gb)"
    and "gb_last (clear_scan (gb_last gb) lp gb) = gb_last gb"
    and "gb_ptr (clear_scan (gb_last gb) lp gb) = gb_ptr gb"
proof -
  have *: "gb_lbuf (clear_scan (gb_last gb) lp gb) = cleared {lp} (gb_lbuf gb) \<and>
     gb_inv (clear_scan (gb_last gb) lp gb) \<and> gb_last (clear_scan (gb_last gb) lp gb) = gb_last gb \<and>
     gb_ptr (clear_scan (gb_last gb) lp gb) = gb_ptr gb"
  proof (cases "gb_last gb = 0")
    case True
    then show ?thesis using assms(1) by (simp add: gb_inv_def)
  next
    case False
    then have i: "gb_index gb < gb_last gb" "length (gb_lbuf gb) = gb_last gb"
      using assms(1) by (auto simp: gb_inv_def)
    have "(\<exists>d<gb_last gb. gb_lbuf gb ! ((gb_index gb + d) mod gb_last gb) = Some lp) \<longleftrightarrow> Some lp \<in> set (gb_lbuf gb)"
    proof
      assume "\<exists>d<gb_last gb. gb_lbuf gb ! ((gb_index gb + d) mod gb_last gb) = Some lp"
      then obtain d where d: "gb_lbuf gb ! ((gb_index gb + d) mod gb_last gb) = Some lp" by blast
      have "(gb_index gb + d) mod gb_last gb < length (gb_lbuf gb)" using i False by simp
      from nth_mem [OF this] d show "Some lp \<in> set (gb_lbuf gb)" by simp
    next
      assume "Some lp \<in> set (gb_lbuf gb)"
      then obtain j where "j < gb_last gb" "gb_lbuf gb ! j = Some lp" using i by (auto simp: in_set_conv_nth)
      with rotated_index [OF i(1), of j] show
        "\<exists>d<gb_last gb. gb_lbuf gb ! ((gb_index gb + d) mod gb_last gb) = Some lp" by metis
    qed
    moreover have "Some lp \<notin> set (gb_lbuf gb) \<Longrightarrow> cleared {lp} (gb_lbuf gb) = gb_lbuf gb"
      by (rule map_idI) auto
    ultimately show ?thesis
      using clear_scan_spec [OF i assms(2), of "gb_last gb"] assms(1) by (auto simp: gb_inv_def)
  qed
  then show "gb_lbuf (clear_scan (gb_last gb) lp gb) = cleared {lp} (gb_lbuf gb)"
    "gb_inv (clear_scan (gb_last gb) lp gb)"
    "gb_last (clear_scan (gb_last gb) lp gb) = gb_last gb"
    "gb_ptr (clear_scan (gb_last gb) lp gb) = gb_ptr gb" by auto
qed

lemma once_in_cleared: "once_in p xs \<Longrightarrow> once_in p (cleared A xs)"
  by (auto simp: once_in_def split: if_splits)

text \<open>The walk along a chain clears exactly the nodes of the chain.\<close>

lemma clear_walk_chain:
  "chain h (zs @ [mp]) \<Longrightarrow> mp \<notin> set zs \<Longrightarrow> length zs \<le> k \<Longrightarrow> gb_inv gb \<Longrightarrow>
     \<forall>p. once_in p (gb_lbuf gb) \<Longrightarrow>
     \<exists>gb'. clear_walk k h (hd (zs @ [mp])) mp gb = Some gb' \<and> gb_inv gb' \<and>
       gb_lbuf gb' = cleared (set zs) (gb_lbuf gb) \<and> gb_last gb' = gb_last gb \<and> gb_ptr gb' = gb_ptr gb"
proof (induction zs arbitrary: k gb)
  case Nil
  then show ?case by (cases k) (auto simp: map_idI)
next
  case (Cons z zs)
  obtain k' where k: "k = Suc k'" using Cons.prems by (cases k) auto
  let ?g = "clear_scan (gb_last gb) z gb"
  note s = clear_scan_full [OF Cons.prems(4) spec [OF Cons.prems(5)], of z]
  have c: "chain h (zs @ [mp])" "q_forw (h z) = hd (zs @ [mp])"
    using Cons.prems(1) by (cases zs; simp)+
  have "\<forall>p. once_in p (gb_lbuf ?g)" unfolding s(1) using Cons.prems(5) once_in_cleared by blast
  then obtain gb' where r: "clear_walk k' h (hd (zs @ [mp])) mp ?g = Some gb'" "gb_inv gb'"
    "gb_lbuf gb' = cleared (set zs) (gb_lbuf ?g)" "gb_last gb' = gb_last ?g" "gb_ptr gb' = gb_ptr ?g"
    using Cons.IH [OF c(1) _ _ s(2), of k'] Cons.prems(2,3) k by auto
  have "cleared (set zs) (cleared {z} (gb_lbuf gb)) = cleared (set (z # zs)) (gb_lbuf gb)"
    by auto
  with r s have "gb_lbuf gb' = cleared (set (z # zs)) (gb_lbuf gb)" by simp
  then show ?case using r s k c(2) Cons.prems(2) by auto
qed

text \<open>\<open>next_global_line\<close> returns the first entry not cleared from \<open>ptr\<close> on.\<close>

lemma skip_cleared_spec:
  "gb_last gb - gb_ptr gb \<le> k \<Longrightarrow> gb_inv gb \<Longrightarrow>
     \<exists>n. skip_cleared k gb = gb\<lparr>gb_ptr := n\<rparr> \<and> gb_ptr gb \<le> n \<and> n \<le> gb_last gb \<and>
       (\<forall>i. gb_ptr gb \<le> i \<longrightarrow> i < n \<longrightarrow> gb_lbuf gb ! i = None) \<and>
       (n < gb_last gb \<longrightarrow> gb_lbuf gb ! n \<noteq> None)"
proof (induction k arbitrary: gb)
  case 0
  then show ?case by (intro exI [of _ "gb_ptr gb"]) (auto simp: gb_inv_def)
next
  case (Suc k)
  show ?case
  proof (cases "gb_ptr gb < gb_last gb \<and> gb_lbuf gb ! gb_ptr gb = None")
    case True
    have "gb_inv (gb\<lparr>gb_ptr := gb_ptr gb + 1\<rparr>)" using Suc.prems(2) True by (simp add: gb_inv_def)
    then obtain n where n: "skip_cleared k (gb\<lparr>gb_ptr := gb_ptr gb + 1\<rparr>) = gb\<lparr>gb_ptr := n\<rparr>" "gb_ptr gb + 1 \<le> n"
      "n \<le> gb_last gb" "\<forall>i. gb_ptr gb + 1 \<le> i \<longrightarrow> i < n \<longrightarrow> gb_lbuf gb ! i = None"
      "n < gb_last gb \<longrightarrow> gb_lbuf gb ! n \<noteq> None"
      using Suc.IH [of "gb\<lparr>gb_ptr := gb_ptr gb + 1\<rparr>"] Suc.prems(1) True by fastforce
    have "\<forall>i. gb_ptr gb \<le> i \<longrightarrow> i < n \<longrightarrow> gb_lbuf gb ! i = None"
      using n(4) True by (metis Suc_eq_plus1 Suc_leI le_neq_implies_less)
    with True n show ?thesis by (intro exI [of _ n]) simp
  next
    case False
    then show ?thesis using Suc.prems(2) by (intro exI [of _ "gb_ptr gb"]) (auto simp: gb_inv_def)
  qed
qed

end
