(* ===== verification/Edit_Refine.thy ===== *)
theory Edit_Refine
  imports Edit_Cmds
begin

text \<open>
  The line commands refine operations on the list of lines: copying and moving insert a segment
  after an address, joining replaces a segment by one line.  \<open>edit_result\<close> states what the
  commands share: the invariants of the line buffer, of the undo queue and of the global buffer
  hold after the command for the new list of nodes, and the buffer file is only appended to.
\<close>

definition node_data :: "ed_buffer \<Rightarrow> node \<Rightarrow> nat \<times> int" where
  "node_data ed p = (ln_len (nodes (core ed) p), ln_seek (nodes (core ed) p))"

text \<open>Nodes allocated before keep their text.\<close>

definition keeps_data :: "ed_buffer \<Rightarrow> ed_buffer \<Rightarrow> bool" where
  "keeps_data ed ed' \<longleftrightarrow>
     next_node (core ed) \<le> next_node (core ed') \<and>
     (\<forall>p<next_node (core ed). node_data ed' p = node_data ed p)"

lemma keeps_data_refl [simp]: "keeps_data ed ed"
  by (simp add: keeps_data_def)

lemma keeps_data_trans: "keeps_data a b \<Longrightarrow> keeps_data b c \<Longrightarrow> keeps_data a c"
  by (simp add: keeps_data_def)

text \<open>What the line commands leave alone.\<close>

definition edit_frame :: "ed_buffer \<Rightarrow> ed_buffer \<Rightarrow> bool" where
  "edit_frame ed ed' \<longleftrightarrow> state1 ed' = state1 ed \<and> exec ed' = exec ed \<and> mutex ed' = mutex ed \<and>
     input ed' = input ed \<and> core_fp (core ed') = core_fp (core ed) \<and>
     mark (core ed') = mark (core ed) \<and> marks (core ed') = marks (core ed) \<and>
     freed (core ed') = freed (core ed) \<and> sys_all_ok ed'"

lemma edit_frame_trans: "edit_frame a b \<Longrightarrow> edit_frame b c \<Longrightarrow> edit_frame a c"
  by (simp add: edit_frame_def)

lemma edit_frame_refl: "sys_all_ok ed \<Longrightarrow> edit_frame ed ed"
  by (simp add: edit_frame_def)

lemma ring_successor: "ring h (X @ y # z # Z) \<Longrightarrow> q_forw (h y) = z"
proof -
  assume "ring h (X @ y # z # Z)"
  then have "chain h ((line_head # X) @ y # z # Z @ [line_head])" using ring_chain by fastforce
  then have "chain h (y # z # Z @ [line_head])" using chain_append by blast
  then show ?thesis by simp
qed

lemma adding_cong:
  "core ed' = core ed \<Longrightarrow> state1 ed' = state1 ed \<Longrightarrow> statics ed' = statics ed \<Longrightarrow>
     lines (state ed') = lines (state ed) \<Longrightarrow> adding ed' ns0 A B new up = adding ed ns0 A B new up"
  by (simp add: adding_def buf_inv_def cong: option.case_cong)

text \<open>One turn of a loop that adds lines: a node, its undo record, the current address.\<close>

lemma add_line_step:
  assumes ad: "adding ed ns0 A B new up" and ok: "sys_all_ok ed" "lines (state ed) < OFF_T_MAX"
    and after: "after = int (length (A @ new))"
  obtains lp i ed1 ed2 where "append_line_node len seek after ed = (Inr lp, ed1)"
    "APPEND_UNDO_NODE lp up (after + 1) (set_dot (after + 1) ed1) = (Inr i, ed2)"
    "lp = next_node (core ed)" "next_node (core ed2) = Suc lp"
    "adding ed2 ns0 A B (new @ [lp]) (Some i)" "node_data ed2 lp = (len, seek)" "keeps_data ed ed2"
    "edit_frame ed ed2" "streams ed2 = streams ed" "global_buffer (core ed2) = global_buffer (core ed)"
    "state ed2 = (state ed)\<lparr>dot := after + 1, lines := lines (state ed) + 1\<rparr>"
proof -
  let ?ns = "A @ new @ B" and ?lp = "next_node (core ed)"
  have inv: "buf_inv ed ?ns" using ad by (simp add: adding_def)
  have at: "node_at ?ns after = last (line_head # A @ new)"
    using node_at_segments(1) [of ?ns "A @ new" "[]" B] after by simp
  have a: "0 \<le> after" "after \<le> lines (state ed)" using inv after by (simp_all add: buf_inv_def)
  obtain ed1 where e1: "append_line_node len seek after ed = (Inr ?lp, ed1)"
    "buf_inv ed1 (insert_after after [?lp] ?ns)"
    "core ed1 = (core ed)\<lparr>nodes := put_heap ?lp len seek (node_at ?ns after) (nodes (core ed)), next_node := Suc ?lp\<rparr>"
    "state ed1 = (state ed)\<lparr>lines := lines (state ed) + 1\<rparr>" "streams ed1 = streams ed"
    "sys_all_ok ed1" "state1 ed1 = state1 ed" "exec ed1 = exec ed" "mutex ed1 = mutex ed" "input ed1 = input ed"
    by (rule append_line_node_ok [OF inv a ok])
  have ins: "insert_after after [?lp] ?ns = A @ new @ ?lp # B" using after by (simp add: insert_after_def)
  obtain i ed2 q where e2: "APPEND_UNDO_NODE ?lp up (after + 1) (set_dot (after + 1) ed1) = (Inr i, ed2)"
     "adding ed2 ns0 A B (new @ [?lp]) (Some i)"
     "core ed2 = (core ed1)\<lparr>undo_queue := q\<rparr>" "state ed2 = state (set_dot (after + 1) ed1)" "state1 ed2 = state1 ed1"
     "streams ed2 = streams ed1" "exec ed2 = exec ed1" "mutex ed2 = mutex ed1" "input ed2 = input ed1" "sys_all_ok ed2"
    using adding_step [OF ad refl, of "set_dot (after + 1) ed1" len seek "after + 1"] e1 at ins after
    by (auto simp: buf_inv_def simp del: last.simps append_assoc)
  show ?thesis
    by (rule that [OF e1(1) e2(1) refl _ e2(2)])
       (use e1 e2 in \<open>simp_all add: node_data_def keeps_data_def edit_frame_def\<close>)
qed

text \<open>The loop of \<open>copy_lines\<close> copies the segment \<open>S\<close>, which lies before or after the place the
  copies go to.\<close>

lemma copy_loop_ok:
  assumes "adding ed ns0 A B new up" "sys_all_ok ed" "lines (state ed) + int (length S) \<le> OFF_T_MAX"
    and "after = int (length (A @ new))"
    and "(\<exists>P Q. A = P @ S @ Q) \<or> (\<exists>P Q. B = P @ S @ Q)" "S \<noteq> [] \<Longrightarrow> lp = hd S"
  shows "\<exists>ed' new2 up'. copy_loop (length S) lp after up ed = (Inr (after + int (length S), up'), ed') \<and>
     adding ed' ns0 A B (new @ new2) up' \<and> map (node_data ed') new2 = map (node_data ed) S \<and>
     keeps_data ed ed' \<and> edit_frame ed ed' \<and> streams ed' = streams ed \<and>
     global_buffer (core ed') = global_buffer (core ed) \<and>
     lines (state ed') = lines (state ed) + int (length S) \<and>
     dot (state ed') = (if S = [] then dot (state ed) else after + int (length S))"
  using assms
proof (induction S arbitrary: ed new up after lp)
  case Nil
  then show ?case by (intro exI [of _ ed] exI [of _ "[]"] exI [of _ up]) (simp add: edit_frame_refl)
next
  case (Cons s S)
  have lp: "lp = s" using Cons.prems(6) by simp
  let ?e0 = "spl1 ed"
  have ad0: "adding ?e0 ns0 A B new up" using Cons.prems(1) adding_cong [of ?e0 ed] by simp
  have lt: "sys_all_ok ?e0" "lines (state ?e0) < OFF_T_MAX" using Cons.prems(2,3) by simp_all
  obtain x i ed1 ed2 where e: "append_line_node (ln_len (nodes (core ed) lp)) (ln_seek (nodes (core ed) lp)) after ?e0 = (Inr x, ed1)"
    "APPEND_UNDO_NODE x up (after + 1) (set_dot (after + 1) ed1) = (Inr i, ed2)"
    "x = next_node (core ?e0)" "next_node (core ed2) = Suc x"
    "adding ed2 ns0 A B (new @ [x]) (Some i)" "node_data ed2 x = (ln_len (nodes (core ed) lp), ln_seek (nodes (core ed) lp))"
    "keeps_data ?e0 ed2" "edit_frame ?e0 ed2" "streams ed2 = streams ?e0" "global_buffer (core ed2) = global_buffer (core ?e0)"
    "state ed2 = (state ?e0)\<lparr>dot := after + 1, lines := lines (state ?e0) + 1\<rparr>"
    by (rule add_line_step [OF ad0 lt Cons.prems(4)])
  let ?e3 = "spl0 (set_is_modified True ed2)"
  have ad3: "adding ?e3 ns0 A B (new @ [x]) (Some i)" using e(5) adding_cong [of ?e3 ed2] by simp
  have f3: "keeps_data ed ?e3" "edit_frame ed ?e3" "streams ?e3 = streams ed"
    "global_buffer (core ?e3) = global_buffer (core ed)" "lines (state ?e3) = lines (state ed) + 1"
    "dot (state ?e3) = after + 1" "node_data ?e3 x = node_data ed s"
    using e lp by (simp_all add: keeps_data_def node_data_def edit_frame_def)
  have r3: "ring (nodes (core ?e3)) (A @ (new @ [x]) @ B)" using ad3 by (auto simp: adding_def buf_inv_def)
  have src: "(\<exists>P Q. A = P @ S @ Q) \<or> (\<exists>P Q. B = P @ S @ Q)"
    using Cons.prems(5) by (metis append_Cons append_assoc append_Nil)
  have nxt: "q_forw (nodes (core ?e3) lp) = hd S" if ne: "S \<noteq> []"
  proof -
    obtain t T where S: "S = t # T" using ne by (cases S) auto
    from Cons.prems(5) show ?thesis
    proof (elim disjE exE)
      fix P Q assume "A = P @ (s # S) @ Q"
      then show ?thesis using r3 lp S ring_successor [of _ P s t "T @ Q @ (new @ [x]) @ B"] by simp
    next
      fix P Q assume "B = P @ (s # S) @ Q"
      then show ?thesis using r3 lp S ring_successor [of _ "A @ (new @ [x]) @ P" s t "T @ Q"] by simp
    qed
  qed
  have sd: "map (node_data ?e3) S = map (node_data ed) S"
  proof (rule map_cong [OF refl])
    fix p assume "p \<in> set S"
    then have "p \<in> set (A @ new @ B)" using src by auto
    then have "p < next_node (core ed)" using Cons.prems(1) by (auto simp: adding_def buf_inv_def)
    then show "node_data ?e3 p = node_data ed p" using f3(1) by (simp only: keeps_data_def)
  qed
  have l3: "sys_all_ok ?e3" "lines (state ?e3) + int (length S) \<le> OFF_T_MAX" "after + 1 = int (length (A @ new @ [x]))"
    using f3 Cons.prems(3,4) by (simp_all add: edit_frame_def)
  obtain ed' new2 up' where r: "copy_loop (length S) (q_forw (nodes (core ?e3) lp)) (after + 1) (Some i) ?e3 = (Inr (after + 1 + int (length S), up'), ed')"
    "adding ed' ns0 A B ((new @ [x]) @ new2) up'" "map (node_data ed') new2 = map (node_data ?e3) S"
    "keeps_data ?e3 ed'" "edit_frame ?e3 ed'" "streams ed' = streams ?e3"
    "global_buffer (core ed') = global_buffer (core ?e3)" "lines (state ed') = lines (state ?e3) + int (length S)"
    "dot (state ed') = (if S = [] then dot (state ?e3) else after + 1 + int (length S))"
    using Cons.IH [OF ad3 l3(1,2) l3(3) src nxt] by blast
  have c: "copy_loop (length (s # S)) lp after up ed = (Inr (after + int (length (s # S)), up'), ed')"
    using e(1,2) r(1) by (simp add: Let_def add.assoc)
  have "x < next_node (core ?e3)" using e(4) by simp
  then have "node_data ed' x = node_data ed s" using r(4) f3(7) unfolding keeps_data_def by metis
  then have "map (node_data ed') (x # new2) = map (node_data ed) (s # S)" using r(3) sd by simp
  moreover have "adding ed' ns0 A B (new @ x # new2) up'" using r(2) by simp
  moreover have "keeps_data ed ed'" "edit_frame ed ed'"
    using keeps_data_trans [OF f3(1) r(4)] edit_frame_trans [OF f3(2) r(5)] by blast+
  ultimately show ?case using c r f3 by (intro exI [of _ ed'] exI [of _ "x # new2"] exI [of _ up']) auto
qed

section \<open>Copying\<close>

definition segment :: "int \<Rightarrow> int \<Rightarrow> 'a list \<Rightarrow> 'a list" where
  "segment from to xs = take (nat (to - from + 1)) (drop (nat (from - 1)) xs)"

lemma adding_buf:
  "adding ed ns0 A B new up \<Longrightarrow> core ed' = core ed \<Longrightarrow> state1 ed' = state1 ed \<Longrightarrow> buf_inv ed' (A @ new @ B) \<Longrightarrow>
     adding ed' ns0 A B new up"
  by (simp add: adding_def cong: option.case_cong)

text \<open>Beyond the last line \<open>get_line_node\<close> finds the last line.\<close>

lemma get_line_node_beyond:
  assumes inv: "buf_inv ed ns" and n: "lines (state ed) < n"
  shows "get_line_node n ed = (node_at ns (lines (state ed)), cache_node (node_at ns (lines (state ed))) (lines (state ed)) ed)"
proof -
  have len: "lines (state ed) = int (length ns)" and r: "ring (nodes (core ed)) ns"
    using inv by (simp_all add: buf_inv_def)
  have "0 \<le> gl_n_prev (statics ed)" "gl_n_prev (statics ed) \<le> int (length ns)"
    using inv by (auto simp: buf_inv_def cache_inv_def split: option.splits)
  then have "gl_n_prev (statics ed) < n" "\<not> n \<le> (gl_n_prev (statics ed) + lines (state ed)) div 2"
    using n len by linarith+
  then show ?thesis using n len ring_forw_last(2) [OF r] by (simp add: get_line_node_def Let_def)
qed

text \<open>The segments that \<open>copy_lines\<close> copies, before and after the place they go to.\<close>

lemma copy_segments:
  assumes "1 \<le> from" "from \<le> to" "to \<le> int (length ns)" "0 \<le> after" "after \<le> int (length ns)"
  defines "split \<equiv> from \<le> after \<and> after < to"
  defines "S1 \<equiv> segment from (if split then after else to) ns" and "S2 \<equiv> (if split then segment (after + 1) to ns else [])"
  shows "S1 @ S2 = segment from to ns"
    and "(\<exists>P Q. take (nat after) ns = P @ S1 @ Q) \<or> (\<exists>P Q. drop (nat after) ns = P @ S1 @ Q)"
    and "\<exists>Q. drop (nat after) ns = S2 @ Q" and "S1 \<noteq> []" and "hd S1 = node_at ns from"
    and "length S1 = nat ((if split then after else to) - from + 1)" "length S2 = nat (if split then to - after else 0)"
proof -
  define f t a where "f = nat (from - 1)" and "t = nat to" and "a = nat after"
  have ft: "f < t" "t \<le> length ns" "a \<le> length ns" using assms(1-5) by (auto simp: f_def t_def a_def)
  have sp: "split \<longleftrightarrow> f < a \<and> a < t" using assms(1-5) by (auto simp: split_def f_def t_def a_def)
  have S1: "S1 = take ((if split then a else t) - f) (drop f ns)"
    using assms(1-5) by (auto simp: S1_def segment_def f_def t_def a_def nat_diff_distrib' split_def intro!: arg_cong2 [where f = take])
  have S2: "S2 = (if split then take (t - a) (drop a ns) else [])"
    using assms(1-5) by (auto simp: S2_def segment_def t_def a_def nat_diff_distrib')
  have seg: "segment from to ns = take (t - f) (drop f ns)"
    using assms(1-3) by (auto simp: segment_def f_def t_def intro!: arg_cong2 [where f = take])
  have cut: "drop i ns = take (j - i) (drop i ns) @ drop j ns" if "i \<le> j" for i j
    using that by (metis append_take_drop_id drop_drop le_add_diff_inverse2)
  show "S1 @ S2 = segment from to ns"
  proof (cases split)
    case True
    then have "t - f = (a - f) + (t - a)" using sp by linarith
    then have "take (t - f) (drop f ns) = take (a - f) (drop f ns) @ take (t - a) (drop (a - f) (drop f ns))"
      by (simp only: take_add)
    with True sp show ?thesis by (simp add: S1 S2 seg)
  qed (simp add: S1 S2 seg)
  show "\<exists>Q. drop (nat after) ns = S2 @ Q"
    using cut [of a t] sp by (auto simp: S2 a_def [symmetric])
  show "(\<exists>P Q. take (nat after) ns = P @ S1 @ Q) \<or> (\<exists>P Q. drop (nat after) ns = P @ S1 @ Q)"
  proof (cases "a \<le> f")
    case True
    then have "drop a ns = take (f - a) (drop a ns) @ S1 @ drop t ns"
      using cut [of a f] cut [of f t] ft sp by (simp add: S1)
    then show ?thesis unfolding a_def [symmetric] by blast
  next
    case False
    let ?e = "if split then a else t"
    have e: "f \<le> ?e" "?e \<le> a" using False ft sp by auto
    have "take a ns = take f ns @ S1 @ take (a - ?e) (drop ?e ns)"
    proof -
      have "a = f + ((?e - f) + (a - ?e))" using e by linarith
      then have "take a ns = take f ns @ take (?e - f) (drop f ns) @ take (a - ?e) (drop (?e - f) (drop f ns))"
        by (metis take_add)
      with e show ?thesis by (simp add: S1)
    qed
    then show ?thesis unfolding a_def [symmetric] by blast
  qed
  show l: "length S1 = nat ((if split then after else to) - from + 1)" "length S2 = nat (if split then to - after else 0)"
    using assms(1-5) by (auto simp: S1_def S2_def segment_def split_def)
  show "S1 \<noteq> []" using l(1) assms(2) by (auto simp: split_def split: if_splits)
  then show "hd S1 = node_at ns from" using ft assms(1)
    by (auto simp: S1 f_def hd_drop_conv_nth nth_Cons' nat_diff_distrib')
qed

lemma copy_lines_ok:
  assumes inv: "buf_inv ed ns" "undo_inv ed ns0 ns" and ok: "sys_all_ok ed"
    and range: "1 \<le> from" "from \<le> to" "to \<le> lines (state ed)" "0 \<le> after" "after \<le> lines (state ed)"
    and room: "lines (state ed) + (to - from + 1) \<le> OFF_T_MAX"
  shows "\<exists>ed' ns'. copy_lines from to after ed = (Inr (), ed') \<and> buf_inv ed' ns' \<and> undo_inv ed' ns0 ns' \<and>
     map (node_data ed') ns' = insert_after after (segment from to (map (node_data ed) ns)) (map (node_data ed) ns) \<and>
     keeps_data ed ed' \<and> edit_frame ed ed' \<and> streams ed' = streams ed \<and>
     global_buffer (core ed') = global_buffer (core ed) \<and>
     lines (state ed') = lines (state ed) + (to - from + 1) \<and> dot (state ed') = after + (to - from + 1)"
proof -
  have len: "lines (state ed) = int (length ns)" using inv(1) by (simp add: buf_inv_def)
  let ?split = "from \<le> after \<and> after < to"
  let ?c0 = "(if ?split then after else to) - from + 1" and ?c1 = "if ?split then to - after else 0"
  define A B where "A = take (nat after) ns" and "B = drop (nat after) ns"
  define S1 where "S1 = segment from (if ?split then after else to) ns"
  define S2 where "S2 = (if ?split then segment (after + 1) to ns else [])"
  note seg = copy_segments [OF range(1,2) range(3) [unfolded len] range(4) range(5) [unfolded len],
      folded S1_def S2_def A_def B_def]
  have ns: "ns = A @ B" and lA: "int (length A) = after" using range len by (simp_all add: A_def B_def)
  have cnt: "int (length S1) + int (length S2) = to - from + 1" "int (length S1) = ?c0"
    using seg(6,7) range by auto
  let ?e1 = "cache_node (node_at ns from) from ed"
  have g1: "get_line_node from ed = (node_at ns from, ?e1)"
    using get_line_node_eq [OF inv(1), of "from"] range by simp
  have "buf_inv ?e1 ns" by (rule buf_inv_cache_node) (use inv(1) range in simp_all)
  then have "buf_inv ?e1 (A @ [] @ B)" using ns by simp
  then have ad1: "adding ?e1 ns0 A B [] None"
    using adding_start [of ?e1 A B ns0] inv(2) ns by (simp add: undo_inv_def cache_node_def)
  have r1: "sys_all_ok ?e1" "lines (state ?e1) + int (length S1) \<le> OFF_T_MAX" "after = int (length (A @ []))"
    using ok room cnt lA by (simp_all add: cache_node_def)
  obtain e2 n1 up where c1: "copy_loop (length S1) (node_at ns from) after None ?e1 = (Inr (after + int (length S1), up), e2)"
    "adding e2 ns0 A B ([] @ n1) up" "map (node_data e2) n1 = map (node_data ?e1) S1" "keeps_data ?e1 e2" "edit_frame ?e1 e2"
    "streams e2 = streams ?e1" "global_buffer (core e2) = global_buffer (core ?e1)"
    "lines (state e2) = lines (state ?e1) + int (length S1)"
    "dot (state e2) = (if S1 = [] then dot (state ?e1) else after + int (length S1))"
    using copy_loop_ok [OF ad1 r1 seg(2) seg(5) [symmetric]] by blast
  have ln1: "length n1 = length S1" using c1(3) map_eq_imp_length_eq by blast
  have b2: "buf_inv e2 (A @ n1 @ B)" using c1(2) by (simp add: adding_def)
  define p where "p = fst (get_line_node (after + int (length S1) + 1) e2)"
  define e3 where "e3 = snd (get_line_node (after + int (length S1) + 1) e2)"
  have len2: "lines (state e2) = int (length (A @ n1 @ B))" using b2 by (simp add: buf_inv_def)
  have g2: "get_line_node (after + int (length S1) + 1) e2 = (p, e3)" by (simp add: p_def e3_def)
  have e3: "core e3 = core e2" "state e3 = state e2" "state1 e3 = state1 e2" "exec e3 = exec e2" "mutex e3 = mutex e2"
    "input e3 = input e2" "streams e3 = streams e2" "sys_all_ok e3 = sys_all_ok e2"
    by (simp_all add: e3_def get_line_node_def cache_node_def Let_def case_prod_beta)
  have b3: "buf_inv e3 (A @ n1 @ B)" and p: "S2 \<noteq> [] \<Longrightarrow> p = hd S2"
  proof -
    let ?n = "after + int (length S1) + 1"
    have n: "?n = int (length (A @ n1)) + 1" using lA ln1 by simp
    show "buf_inv e3 (A @ n1 @ B)"
    proof (cases "?n \<le> lines (state e2)")
      case True
      then show ?thesis unfolding e3_def using buf_inv_get_line_node [OF b2, of ?n] range(4) by simp
    next
      case False
      then show ?thesis unfolding e3_def using get_line_node_beyond [OF b2, of ?n] b2 len2 by simp
    qed
    assume S2: "S2 \<noteq> []"
    obtain Q where Q: "B = S2 @ Q" using seg(3) by blast
    with S2 have "?n \<le> lines (state e2)" using len2 n by (cases S2) auto
    then have "p = node_at (A @ n1 @ B) ?n"
      unfolding p_def using get_line_node_eq [OF b2, of ?n] range(4) by simp
    also have "\<dots> = hd S2" using node_at_segments(2) [of "A @ n1 @ B" "A @ n1" B "[]"] n Q S2 by simp
    finally show "p = hd S2" .
  qed
  have ad3: "adding e3 ns0 A B n1 up" by (rule adding_buf [OF _ e3(1,3) b3]) (use c1(2) in simp)
  have r3: "sys_all_ok e3" "lines (state e3) + int (length S2) \<le> OFF_T_MAX" "after + int (length S1) = int (length (A @ n1))"
    using c1(5,8) e3 room cnt(1) lA ln1 by (simp_all add: edit_frame_def)
  have src2: "(\<exists>P Q. A = P @ S2 @ Q) \<or> (\<exists>P Q. B = P @ S2 @ Q)" using seg(3) by (metis append_Nil)
  obtain e4 n2 up' where c2: "copy_loop (length S2) p (after + int (length S1)) up e3 = (Inr (after + int (length S1) + int (length S2), up'), e4)"
    "adding e4 ns0 A B (n1 @ n2) up'" "map (node_data e4) n2 = map (node_data e3) S2" "keeps_data e3 e4" "edit_frame e3 e4"
    "streams e4 = streams e3" "global_buffer (core e4) = global_buffer (core e3)"
    "lines (state e4) = lines (state e3) + int (length S2)"
    "dot (state e4) = (if S2 = [] then dot (state e3) else after + int (length S1) + int (length S2))"
    using copy_loop_ok [OF ad3 r3 src2 p] by blast
  have ci: "nat ?c0 = length S1" "nat ?c1 = length S2" using seg(6,7) by simp_all
  have run: "copy_lines from to after ed = (Inr (), e4)"
    unfolding copy_lines_def Let_def ci g1 prod.case c1(1) andThen_Inr g2 c2(1) ..
  have k: "keeps_data ed e2" "keeps_data ed e4" "edit_frame ed e4"
    using c1(4,5) c2(4,5) e3 by (auto simp: keeps_data_def edit_frame_def node_data_def)
  have old: "node_data e4 x = node_data ed x" "node_data e3 x = node_data ed x" "node_data ?e1 x = node_data ed x"
    if "x \<in> set ns" for x
  proof -
    have "x < next_node (core ed)" using that inv(1) by (auto simp: buf_inv_def)
    then show "node_data e4 x = node_data ed x" "node_data e3 x = node_data ed x" "node_data ?e1 x = node_data ed x"
      using k(1,2) e3(1) by (simp_all add: keeps_data_def node_data_def)
  qed
  have sub: "set S1 \<subseteq> set ns" "set S2 \<subseteq> set ns"
    by (auto simp: S1_def S2_def segment_def split: if_splits dest: in_set_takeD in_set_dropD)
  have n1: "map (node_data e4) n1 = map (node_data ed) S1"
  proof -
    have "map (node_data e4) n1 = map (node_data e2) n1"
    proof (rule map_cong [OF refl])
      fix x assume "x \<in> set n1"
      then have "x < next_node (core e3)" using b3 by (auto simp: buf_inv_def)
      then show "node_data e4 x = node_data e2 x" using c2(4) e3(1) by (simp add: keeps_data_def node_data_def)
    qed
    also have "\<dots> = map (node_data ed) S1" unfolding c1(3) by (rule map_cong [OF refl]) (use old(3) sub in blast)
    finally show ?thesis .
  qed
  have n2: "map (node_data e4) n2 = map (node_data ed) S2"
    unfolding c2(3) by (rule map_cong [OF refl]) (use old(2) sub in blast)
  have AB: "map (node_data e4) A = map (node_data ed) A" "map (node_data e4) B = map (node_data ed) B"
    by (rule map_cong [OF refl]; use old(1) ns in auto)+
  have sm: "segment from to (map (node_data ed) ns) = map (node_data ed) (S1 @ S2)"
    unfolding seg(1) by (simp add: segment_def take_map drop_map)
  have data: "map (node_data e4) (A @ (n1 @ n2) @ B) =
      insert_after after (segment from to (map (node_data ed) ns)) (map (node_data ed) ns)"
    unfolding sm using AB by (simp add: n1 n2 insert_after_def A_def B_def take_map drop_map)
  have "buf_inv e4 (A @ (n1 @ n2) @ B)" using c2(2) by (simp add: adding_def)
  moreover have "undo_inv e4 ns0 (A @ (n1 @ n2) @ B)" by (rule adding_undo_inv [OF c2(2)])
  moreover have "streams e4 = streams ed" "global_buffer (core e4) = global_buffer (core ed)"
    "lines (state e4) = lines (state ed) + (to - from + 1)" "dot (state e4) = after + (to - from + 1)"
    using c1(6-9) c2(6-9) e3 cnt seg(4) by (auto simp: cache_node_def)
  ultimately show ?thesis using run data k(2,3) by blast
qed

section \<open>Moving\<close>

text \<open>Two adjacent segments change places: the ends of the segments and their neighbours.\<close>

definition swap_links :: "node \<Rightarrow> node \<Rightarrow> node \<Rightarrow> node \<Rightarrow> node \<Rightarrow> node \<Rightarrow> heap \<Rightarrow> heap" where
  "swap_links p x1 y1 x2 y2 n h = link_nodes p x2 (link_nodes y2 x1 (link_nodes y1 n h))"

definition swap_pre :: "node \<Rightarrow> node \<Rightarrow> node \<Rightarrow> node \<Rightarrow> node \<Rightarrow> node \<Rightarrow> heap \<Rightarrow> bool" where
  "swap_pre p x1 y1 x2 y2 n h \<longleftrightarrow>
     q_forw (h p) = x1 \<and> q_back (h x1) = p \<and> q_forw (h y1) = x2 \<and> q_back (h x2) = y1 \<and>
     q_forw (h y2) = n \<and> q_back (h n) = y2 \<and> p \<noteq> y1 \<and> p \<noteq> y2 \<and> y1 \<noteq> y2 \<and> n \<noteq> x1 \<and> n \<noteq> x2 \<and> x1 \<noteq> x2"

lemma swap_undo:
  assumes "swap_pre p x1 y1 x2 y2 n h"
  shows "undo_mov \<lparr>undo_h = p, undo_t = x1, undo_type = t\<rparr> \<lparr>undo_h = y1, undo_t = n, undo_type = t\<rparr> (swap_links p x1 y1 x2 y2 n h) = h"
    and "undo_mov \<lparr>undo_h = y2, undo_t = n, undo_type = t\<rparr> \<lparr>undo_h = p, undo_t = x2, undo_type = t\<rparr> (swap_links p x1 y1 x2 y2 n h) = h"
  by (rule heap_eqI; use assms in \<open>auto simp: undo_mov_def swap_links_def swap_pre_def Let_def\<close>)+

lemma swap_mov_pre:
  assumes "swap_pre p x1 y1 x2 y2 n h"
  shows "mov_pre \<lparr>undo_h = p, undo_t = x1, undo_type = t\<rparr> \<lparr>undo_h = y1, undo_t = n, undo_type = t\<rparr> (swap_links p x1 y1 x2 y2 n h)"
    and "mov_pre \<lparr>undo_h = y2, undo_t = n, undo_type = t\<rparr> \<lparr>undo_h = p, undo_t = x2, undo_type = t\<rparr> (swap_links p x1 y1 x2 y2 n h)"
  using assms by (auto simp: mov_pre_def swap_links_def swap_pre_def Let_def)

text \<open>The three \<open>LINK_NODES\<close> of \<open>move_lines\<close>, when the segment moves down and when it moves up\<close>

lemma move_links:
  assumes "swap_pre p x1 y1 x2 y2 n h"
  shows "(let h1 = link_nodes p (q_forw (h y1)) h; h2 = link_nodes (q_back (h1 n)) x1 h1 in link_nodes y1 n h2)
      = swap_links p x1 y1 x2 y2 n h"
    and "(let h1 = link_nodes y2 (q_forw (h p)) h; h2 = link_nodes (q_back (h1 x2)) n h1 in link_nodes p x2 h2)
      = swap_links p x1 y1 x2 y2 n h"
  by (rule heap_eqI; use assms in \<open>auto simp: swap_links_def swap_pre_def Let_def\<close>)+

lemma ring_swap_pre:
  assumes r: "ring h (A @ D1 @ D2 @ C)" and D: "D1 \<noteq> []" "D2 \<noteq> []"
  shows "swap_pre (last (line_head # A)) (hd D1) (last D1) (hd D2) (last D2) (hd (C @ [line_head])) h"
proof -
  note m1 = ring_middle [of h A D1 "D2 @ C", OF _ D(1)]
  have r2: "ring h ((A @ D1) @ D2 @ C)" using r by simp
  note m2 = ring_middle [OF r2 D(2)]
  have l: "last (line_head # A @ D1) = last D1" using D by simp
  have d: "distinct (line_head # A @ D1 @ D2 @ C)" using r by (simp add: ring_def)
  have ends: "hd D1 \<in> set D1" "last D1 \<in> set D1" "hd D2 \<in> set D2" "last D2 \<in> set D2" using D by auto
  have ne: "last D1 \<noteq> last D2" "hd D1 \<noteq> hd D2" using d ends by auto
  have pn: "last (line_head # A) \<notin> set D1" "last (line_head # A) \<notin> set D2"
    using r ring_middle(5) [of h A "D1 @ D2" C] D by auto
  have nn: "hd (C @ [line_head]) \<notin> set D1" "hd (C @ [line_head]) \<notin> set D2"
    using r ring_middle(6) [of h A "D1 @ D2" C] D by auto
  have f: "q_forw (h (last D1)) = hd D2" "q_back (h (hd D2)) = last D1" using m1(3,4) r D by simp_all
  have f1: "q_forw (h (last (line_head # A))) = hd D1" "q_back (h (hd D1)) = last (line_head # A)" using m1(1,2) r by simp_all
  have f2: "q_forw (h (last D2)) = hd (C @ [line_head])" "q_back (h (hd (C @ [line_head]))) = last D2" using m2(3,4) by simp_all
  have k: "last (line_head # A) \<noteq> last D1" "last (line_head # A) \<noteq> last D2"
    "hd (C @ [line_head]) \<noteq> hd D1" "hd (C @ [line_head]) \<noteq> hd D2" using pn nn ends by metis+
  show ?thesis unfolding swap_pre_def using f f1 f2 ne k by blast
qed

lemma chain_join:
  assumes "chain h xs" "chain h ys" "xs \<noteq> []" "ys \<noteq> []" "q_forw (h (last xs)) = hd ys" "q_back (h (hd ys)) = last xs"
  shows "chain h (xs @ ys)"
proof -
  obtain y Y where ys: "ys = y # Y" using assms(4) by (cases ys) auto
  have "chain h (butlast xs @ [last xs])" using assms(1,3) by simp
  moreover have "chain h (last xs # ys)" using assms(2,5,6) ys by simp
  ultimately have "chain h (butlast xs @ last xs # ys)" using chain_append by blast
  then show ?thesis using assms(3) by (metis append.assoc append_Cons append_Nil append_butlast_last_id)
qed

lemma chain_part: "chain h (X @ Y @ Z) \<Longrightarrow> chain h Y"
proof -
  have tl: "chain h (Y @ Z)" if "chain h (X @ Y @ Z)" for X Y Z :: "node list"
    using that
  proof (induction X)
    case (Cons x X)
    then show ?case by (cases "X @ Y @ Z") auto
  qed simp
  have bl: "chain h Y" if "chain h (Y @ Z)" for Y Z :: "node list"
    using that by (induction h Y rule: chain.induct) simp_all
  show "chain h (X @ Y @ Z) \<Longrightarrow> chain h Y" using tl bl by blast
qed

lemma ring_swap:
  assumes r: "ring h (A @ D1 @ D2 @ C)" and D: "D1 \<noteq> []" "D2 \<noteq> []"
  shows "ring (swap_links (last (line_head # A)) (hd D1) (last D1) (hd D2) (last D2) (hd (C @ [line_head])) h) (A @ D2 @ D1 @ C)"
proof -
  let ?p = "last (line_head # A)" and ?n = "hd (C @ [line_head])"
  let ?h = "swap_links ?p (hd D1) (last D1) (hd D2) (last D2) ?n h"
  note pre = ring_swap_pre [OF r D]
  have d: "distinct (line_head # A @ D1 @ D2 @ C)" using r by (simp add: ring_def)
  have pn: "?p \<notin> set D1" "?p \<notin> set D2" "?n \<notin> set D1" "?n \<notin> set D2"
    using ring_middle(5,6) [of h A "D1 @ D2" C] r D by auto
  have nA: "?n \<notin> set A" "?n \<notin> set (tl (C @ [line_head]))" using d by (cases C; auto)+
  have pA: "?p \<notin> set (butlast (line_head # A))" by (rule last_notin_butlast) (use d in auto)
  have pC: "?p \<notin> set (butlast (C @ [line_head]))"
  proof (cases A)
    case (Cons a A')
    then have "?p \<in> set A" by simp
    with d show ?thesis by (auto simp del: last.simps)
  qed (use d in auto)
  have ends: "last D1 \<in> set D1" "last D2 \<in> set D2" "hd D1 \<in> set D1" "hd D2 \<in> set D2" using D by auto
  have dj: "last D1 \<notin> set D2" "last D2 \<notin> set D1" "hd D1 \<notin> set D2" "hd D2 \<notin> set D1"
    "last D1 \<notin> set (line_head # A)" "last D2 \<notin> set (line_head # A)" "hd D1 \<notin> set (line_head # A)" "hd D2 \<notin> set (line_head # A)"
    "last D1 \<notin> set (C @ [line_head])" "last D2 \<notin> set (C @ [line_head])" "hd D1 \<notin> set (C @ [line_head])" "hd D2 \<notin> set (C @ [line_head])"
    using ends d by auto
  have lb: "last D1 \<notin> set (butlast D1)" "last D2 \<notin> set (butlast D2)"
    using D d last_notin_butlast [of D1] last_notin_butlast [of D2] by simp_all
  have ht: "hd D1 \<notin> set (tl D1)" "hd D2 \<notin> set (tl D2)" using D d by (cases D1; cases D2; auto)+
  have sub: "set (butlast xs) \<subseteq> set xs" "set (tl xs) \<subseteq> set xs" for xs :: "node list"
    by (auto dest: in_set_butlastD list.set_sel(2)) (cases xs; auto)
  have fr: "chain ?h zs" if "chain h zs" "?p \<notin> set (butlast zs)" "last D2 \<notin> set (butlast zs)" "last D1 \<notin> set (butlast zs)"
      "hd D1 \<notin> set (tl zs)" "hd D2 \<notin> set (tl zs)" "?n \<notin> set (tl zs)" for zs
    unfolding swap_links_def using that by (simp add: chain_link_frame del: last.simps)
  have all: "chain h ((line_head # A) @ D1 @ D2 @ C @ [line_head])" using ring_chain [OF r] by simp
  have c0: "chain h (line_head # A)" "chain h D1" "chain h D2" "chain h (C @ [line_head])"
    using chain_part [of h "[]" "line_head # A" "D1 @ D2 @ C @ [line_head]"]
      chain_part [of h "line_head # A" D1 "D2 @ C @ [line_head]"]
      chain_part [of h "line_head # A @ D1" D2 "C @ [line_head]"]
      chain_part [of h "line_head # A @ D1 @ D2" "C @ [line_head]" "[]"] all by simp_all
  have tC: "hd D1 \<notin> set (tl (C @ [line_head]))" "hd D2 \<notin> set (tl (C @ [line_head]))"
    using dj(11,12) sub(2) [of "C @ [line_head]"] by blast+
  have c: "chain ?h (line_head # A)" "chain ?h D1" "chain ?h D2" "chain ?h (C @ [line_head])"
    using tC sub dj pn nA pA pC lb ht by (intro fr c0; auto dest: subsetD simp del: last.simps)+
  have l: "q_forw (?h ?p) = hd D2" "q_back (?h (hd D2)) = ?p" "q_forw (?h (last D2)) = hd D1" "q_back (?h (hd D1)) = last D2"
    "q_forw (?h (last D1)) = ?n" "q_back (?h ?n) = last D1"
    using pre by (auto simp: swap_links_def swap_pre_def simp del: last.simps)
  have "chain ?h (D1 @ C @ [line_head])" by (rule chain_join) (use c l D in auto)
  then have "chain ?h (D2 @ D1 @ C @ [line_head])" by (rule chain_join [rotated 1]) (use c l D in auto)
  then have "chain ?h ((line_head # A) @ D2 @ D1 @ C @ [line_head])"
    by (rule chain_join [rotated 1]) (use c l D in \<open>auto simp del: last.simps\<close>)
  then show ?thesis using d by (auto simp: ring_def)
qed

lemma undo_log_move:
  assumes log: "undo_log ns0 n h (A @ D1 @ D2 @ C) us" and D: "D1 \<noteq> []" "D2 \<noteq> []"
  defines "p \<equiv> last (line_head # A)" and "e \<equiv> hd (C @ [line_head])"
  defines "h' \<equiv> swap_links p (hd D1) (last D1) (hd D2) (last D2) e h"
  shows "undo_log ns0 n h' (A @ D2 @ D1 @ C)
      (\<lparr>undo_h = p, undo_t = hd D1, undo_type = UMOV\<rparr> # \<lparr>undo_h = last D1, undo_t = e, undo_type = UMOV\<rparr> # us)"
    and "undo_log ns0 n h' (A @ D2 @ D1 @ C)
      (\<lparr>undo_h = last D2, undo_t = e, undo_type = UMOV\<rparr> # \<lparr>undo_h = p, undo_t = hd D2, undo_type = UMOV\<rparr> # us)"
proof -
  have ok: "heap_ok n h (A @ D1 @ D2 @ C)" by (rule undo_log_heap_ok [OF log])
  then have r: "ring h (A @ D1 @ D2 @ C)" "closed_below n h" "0 < n" "\<forall>x\<in>set (A @ D1 @ D2 @ C). x < n"
    by (auto simp: heap_ok_def)
  note pre = ring_swap_pre [OF r(1) D, folded p_def e_def]
  have ends: "hd D1 \<in> set D1" "last D1 \<in> set D1" "hd D2 \<in> set D2" "last D2 \<in> set D2" using D by auto
  have b: "p < n" "e < n" "hd D1 < n" "last D1 < n" "hd D2 < n" "last D2 < n"
    using r(3,4) ends by (auto simp: p_def e_def line_head_def) (cases C; auto simp: line_head_def)
  have cl: "closed_below n h'" unfolding h'_def swap_links_def using r(2) b by (intro link_closed)
  have ring': "ring h' (A @ D2 @ D1 @ C)" unfolding h'_def p_def e_def by (rule ring_swap [OF r(1) D])
  have ok': "heap_ok n h' (A @ D2 @ D1 @ C)" unfolding heap_ok_def
  proof (intro conjI)
    show "ring h' (A @ D2 @ D1 @ C)" "closed_below n h'" "0 < n" by (fact ring' cl r(3))+
    show "\<forall>x\<in>set (A @ D2 @ D1 @ C). x < n" using r(4) by auto
  qed
  note mv = log_mov [OF log order_refl ok']
  show "undo_log ns0 n h' (A @ D2 @ D1 @ C)
      (\<lparr>undo_h = p, undo_t = hd D1, undo_type = UMOV\<rparr> # \<lparr>undo_h = last D1, undo_t = e, undo_type = UMOV\<rparr> # us)"
    using swap_undo(1) [OF pre] swap_mov_pre(1) [OF pre] b
    by (intro mv) (simp_all add: rec_below_def h'_def)
  show "undo_log ns0 n h' (A @ D2 @ D1 @ C)
      (\<lparr>undo_h = last D2, undo_t = e, undo_type = UMOV\<rparr> # \<lparr>undo_h = p, undo_t = hd D2, undo_type = UMOV\<rparr> # us)"
    using swap_undo(2) [OF pre] swap_mov_pre(2) [OF pre] b
    by (intro mv) (simp_all add: rec_below_def h'_def)
qed

text \<open>The end of \<open>move_lines\<close>: the moved segment \<open>S\<close> leaves the global buffer.\<close>

lemma move_finish:
  assumes inv: "buf_inv e (X @ S @ Y)" "undo_inv e ns0 (X @ S @ Y)" "gb_ok e" "S \<noteq> []"
  shows "\<exists>ed' gb. andThen
        (if global (exec e) \<noteq> {} then clear_global_lines (q_forw (nodes (core e) (last (line_head # X)))) (hd (Y @ [line_head])) cnt e else (Inr (), e))
        (\<lambda>_ ed. (Inr (), spl0 (set_is_modified True ed))) = (Inr (), ed') \<and>
      ed' = spl0 (set_is_modified True (set_gb gb e)) \<and>
      buf_inv ed' (X @ S @ Y) \<and> undo_inv ed' ns0 (X @ S @ Y) \<and> gb_ok ed' \<and>
      gb_lbuf gb = (if global (exec e) \<noteq> {} then cleared (set S) (gb_lbuf (global_buffer (core e))) else gb_lbuf (global_buffer (core e)))"
proof -
  have r: "ring (nodes (core e)) (X @ S @ Y)" using inv(1) by (simp add: buf_inv_def)
  note m = ring_middle [OF r inv(4)]
  have sl: "length S \<le> next_node (core e)" using buf_inv_length [OF inv(1)] by simp
  obtain gb where gb: "(if global (exec e) \<noteq> {} then clear_global_lines (hd S) (hd (Y @ [line_head])) cnt e else (Inr (), e)) = (Inr (), set_gb gb e)"
    "gb_ok (set_gb gb e)"
    "gb_lbuf gb = (if global (exec e) \<noteq> {} then cleared (set S) (gb_lbuf (global_buffer (core e))) else gb_lbuf (global_buffer (core e)))"
    using clear_if_global [OF m(7,6) sl inv(3,4), of cnt] by blast
  let ?e = "spl0 (set_is_modified True (set_gb gb e))"
  have "buf_inv ?e (X @ S @ Y)" "undo_inv ?e ns0 (X @ S @ Y)" "gb_ok ?e"
    using inv(1,2) gb(2) by (simp_all add: buf_inv_def undo_inv_def gb_ok_def)
  moreover have "andThen (if global (exec e) \<noteq> {} then clear_global_lines (q_forw (nodes (core e) (last (line_head # X)))) (hd (Y @ [line_head])) cnt e else (Inr (), e))
        (\<lambda>_ ed. (Inr (), spl0 (set_is_modified True ed))) = (Inr (), ?e)"
    unfolding m(2) gb(1) by simp
  ultimately show ?thesis using gb(3) by blast
qed

definition move_tail :: "int \<Rightarrow> node \<times> node \<Rightarrow> ed_buffer \<Rightarrow> unit res" where
  "move_tail cnt = (\<lambda>(b2, a2) ed.
          andThen
            (if global (exec ed) \<noteq> {}
             then clear_global_lines (q_forw (nodes (core ed) b2)) a2 cnt ed
             else (Inr (), ed)) (\<lambda>_ ed.
          (Inr (), spl0 (set_is_modified True ed))))"

lemma move_prefix:
  assumes inv: "buf_inv ed ns" and ok: "sys_all_ok ed"
    and range: "1 \<le> from" "from \<le> to" "to \<le> lines (state ed)" "0 \<le> after" "after \<le> lines (state ed)"
    and nd: "after \<noteq> from - 1" "after \<noteq> to"
  defines "b1 \<equiv> node_at ns (from - 1)" and "a1 \<equiv> node_at ns (INC_MOD to (lines (state ed)))"
    and "b2 \<equiv> node_at ns after" and "a2' \<equiv> node_at ns (INC_MOD after (lines (state ed)))" and "h \<equiv> nodes (core ed)"
  defines "h1 \<equiv> link_nodes b2 (q_forw (h b1)) h"
  defines "h' \<equiv> link_nodes b1 a1 (link_nodes (q_back (h1 a1)) (q_forw (h b2)) h1)"
  obtains e5 where "move_lines from to after ed = move_tail (to - from + 1) (b2, q_forw (h b2)) e5"
    "core e5 = (core ed)\<lparr>undo_queue := undo_queue (core ed) @ [\<lparr>undo_h = b1, undo_t = a1, undo_type = UMOV\<rparr>,
        \<lparr>undo_h = b2, undo_t = a2', undo_type = UMOV\<rparr>], nodes := h'\<rparr>"
    "state e5 = (state ed)\<lparr>dot := after + (if after < from then to - from + 1 else 0)\<rparr>"
    "state1 e5 = state1 ed" "exec e5 = exec ed" "mutex e5 = mutex ed + 1" "input e5 = input ed" "streams e5 = streams ed" "sys_all_ok e5"
    "gl_lp (statics e5) = Some (if after < from then b2 else b1)" "gl_n_prev (statics e5) = (if after < from then after else from - 1)"
proof -
  let ?e0 = "spl1 ed" and ?L = "lines (state ed)"
  have b0: "buf_inv ?e0 ns" using inv by simp
  have inc: "0 \<le> INC_MOD to ?L" "INC_MOD to ?L \<le> ?L" "0 \<le> INC_MOD after ?L" "INC_MOD after ?L \<le> ?L"
    using INC_MOD_bounds [of to ?L] INC_MOD_bounds [of after ?L] range by auto
  obtain e1 where e1: "append_undo_node UMOV (from - 1) (INC_MOD to ?L) ?e0 = (Inr (length (undo_queue (core ed))), e1)"
    "core e1 = (core ed)\<lparr>undo_queue := undo_queue (core ed) @ [\<lparr>undo_h = b1, undo_t = a1, undo_type = UMOV\<rparr>]\<rparr>"
    "buf_inv e1 ns" "state e1 = state ed" "state1 e1 = state1 ed" "streams e1 = streams ed"
    "exec e1 = exec ed" "mutex e1 = mutex ed + 1" "input e1 = input ed" "sys_all_ok e1"
    using append_undo_node_ok [OF b0, of "from - 1" "INC_MOD to ?L" UMOV] ok range inc
    unfolding b1_def a1_def by auto
  have rg1: "0 \<le> after" "after \<le> lines (state e1)" "0 \<le> INC_MOD after ?L" "INC_MOD after ?L \<le> lines (state e1)"
    using range inc e1(4) by simp_all
  obtain e2 i where e2: "append_undo_node UMOV after (INC_MOD after ?L) e1 = (Inr i, e2)"
    "core e2 = (core e1)\<lparr>undo_queue := undo_queue (core e1) @ [\<lparr>undo_h = b2, undo_t = a2', undo_type = UMOV\<rparr>]\<rparr>"
    "buf_inv e2 ns" "state e2 = state e1" "state1 e2 = state1 e1" "streams e2 = streams e1"
    "exec e2 = exec e1" "mutex e2 = mutex e1" "input e2 = input e1" "sys_all_ok e2"
    using append_undo_node_ok [OF e1(3,10) rg1, of UMOV] unfolding b2_def a2'_def by metis
  let ?c = "\<lambda>n e. cache_node (node_at ns n) n e"
  have bc: "buf_inv (?c n e) ns" "get_line_node n e = (node_at ns n, ?c n e)"
    if "buf_inv e ns" "0 \<le> n" "n \<le> lines (state e)" for n e
    using that get_line_node_eq by simp_all
  define e3 where "e3 = ?c (INC_MOD to ?L) e2"
  have b3: "buf_inv e3 ns" "get_line_node (INC_MOD to ?L) e2 = (a1, e3)"
    using bc [OF e2(3), of "INC_MOD to ?L"] inc e2(4) e1(4) by (simp_all add: e3_def a1_def)
  define e4 where "e4 = (if after < from then ?c after (?c (from - 1) e3) else ?c (from - 1) (?c after e3))"
  have s3: "state e3 = state ed" by (simp add: e3_def e1 e2)
  have g: "get_line_node (from - 1) e3 = (b1, ?c (from - 1) e3)" "get_line_node after (?c (from - 1) e3) = (b2, ?c after (?c (from - 1) e3))"
    "get_line_node after e3 = (b2, ?c after e3)" "get_line_node (from - 1) (?c after e3) = (b1, ?c (from - 1) (?c after e3))"
    using b3 bc s3 range by (simp_all add: b1_def b2_def)
  define e5 where "e5 = set_dot (after + (if after < from then to - from + 1 else 0)) (set_nodes h' e4)"
  have c4: "core e4 = core e2" "state e4 = state ed" "nodes (core e4) = h"
    by (simp_all add: e4_def e3_def e2 e1 h_def)
  have c5: "core e5 = (core ed)\<lparr>undo_queue := undo_queue (core ed) @ [\<lparr>undo_h = b1, undo_t = a1, undo_type = UMOV\<rparr>,
        \<lparr>undo_h = b2, undo_t = a2', undo_type = UMOV\<rparr>], nodes := h'\<rparr>"
    by (simp add: e5_def c4 e2 e1)
  have "move_lines from to after ed = andThen (Inr (b2, q_forw (h b2)), e5) (move_tail (to - from + 1))"
  proof (cases "after < from")
    case True
    then have "e4 = ?c after (?c (from - 1) e3)" by (simp add: e4_def)
    then show ?thesis unfolding move_lines_def move_tail_def [symmetric] Let_def
      using True nd e1(1,4) e2(1,4) b3(2) g(1,2) c4 by (simp add: h1_def h'_def e5_def)
  next
    case False
    then have "e4 = ?c (from - 1) (?c after e3)" by (simp add: e4_def)
    then show ?thesis unfolding move_lines_def move_tail_def [symmetric] Let_def
      using False nd e1(1,4) e2(1,4) b3(2) g(3,4) c4 by (simp add: h1_def h'_def e5_def)
  qed
  moreover have f4: "state1 e4 = state1 ed" "exec e4 = exec ed" "mutex e4 = mutex ed + 1" "input e4 = input ed"
    "streams e4 = streams ed" "sys_all_ok e4" "gl_lp (statics e4) = Some (if after < from then b2 else b1)"
    "gl_n_prev (statics e4) = (if after < from then after else from - 1)"
    by (simp_all add: e4_def e3_def e1 e2 b1_def b2_def)
  have "state e5 = (state ed)\<lparr>dot := after + (if after < from then to - from + 1 else 0)\<rparr>"
    "state1 e5 = state1 ed" "exec e5 = exec ed" "mutex e5 = mutex ed + 1" "input e5 = input ed" "streams e5 = streams ed" "sys_all_ok e5"
    "gl_lp (statics e5) = Some (if after < from then b2 else b1)" "gl_n_prev (statics e5) = (if after < from then after else from - 1)"
    by (simp_all add: e5_def f4 c4)
  ultimately show ?thesis using that [of e5, OF _ c5] by simp
qed

text \<open>What a move leaves: the lines \<open>ns'\<close>, of which \<open>S\<close> moved, and the current address \<open>d\<close>.\<close>

definition move_result :: "ed_buffer \<Rightarrow> node list \<Rightarrow> node list \<Rightarrow> node list \<Rightarrow> int \<Rightarrow> ed_buffer \<Rightarrow> bool" where
  "move_result ed ns0 ns' S d ed' \<longleftrightarrow>
      buf_inv ed' ns' \<and> undo_inv ed' ns0 ns' \<and> gb_ok ed' \<and> keeps_data ed ed' \<and> edit_frame ed ed' \<and>
      streams ed' = streams ed \<and> dot (state ed') = d \<and> lines (state ed') = lines (state ed) \<and> is_modified (state ed') \<and>
      gb_lbuf (global_buffer (core ed')) =
        (if global (exec ed) \<noteq> {} then cleared (set S) (gb_lbuf (global_buffer (core ed))) else gb_lbuf (global_buffer (core ed)))"

lemma move_tail_ok:
  assumes inv: "buf_inv e (X @ S @ Y)" "undo_inv e ns0 (X @ S @ Y)" "gb_ok e" "S \<noteq> []"
    and fr: "keeps_data ed e" "state1 e = state1 ed" "exec e = exec ed" "mutex e = mutex ed + 1" "input e = input ed"
      "streams e = streams ed" "sys_all_ok e" "core_fp (core e) = core_fp (core ed)" "mark (core e) = mark (core ed)"
      "marks (core e) = marks (core ed)" "freed (core e) = freed (core ed)" "global_buffer (core e) = global_buffer (core ed)"
      "dot (state e) = d" "lines (state e) = lines (state ed)"
  shows "\<exists>ed'. move_tail cnt (last (line_head # X), hd (Y @ [line_head])) e = (Inr (), ed') \<and>
      move_result ed ns0 (X @ S @ Y) S d ed'"
proof -
  obtain ed' gb where m: "move_tail cnt (last (line_head # X), hd (Y @ [line_head])) e = (Inr (), ed')"
      "ed' = spl0 (set_is_modified True (set_gb gb e))"
      "buf_inv ed' (X @ S @ Y)" "undo_inv ed' ns0 (X @ S @ Y)" "gb_ok ed'"
      "gb_lbuf gb = (if global (exec e) \<noteq> {} then cleared (set S) (gb_lbuf (global_buffer (core e))) else gb_lbuf (global_buffer (core e)))"
    using move_finish [OF inv, of cnt] unfolding move_tail_def prod.case by blast
  have "keeps_data ed ed'" "edit_frame ed ed'" using fr m(2) by (simp_all add: keeps_data_def edit_frame_def node_data_def)
  with m fr show ?thesis by (intro exI [of _ ed']) (simp add: move_result_def)
qed

lemma move_lines_stay:
  assumes inv: "buf_inv ed ns" "undo_inv ed ns0 ns" "gb_ok ed" and ok: "sys_all_ok ed"
    and seg: "ns = A @ S @ C" "S \<noteq> []" "from = int (length A) + 1" "to = int (length A + length S)"
    and stay: "after = from - 1 \<or> after = to"
  shows "\<exists>ed'. move_lines from to after ed = (Inr (), ed') \<and> move_result ed ns0 ns S to ed'"
proof -
  let ?L = "lines (state ed)"
  have len: "?L = int (length ns)" using inv(1) by (simp add: buf_inv_def)
  have range: "1 \<le> from" "from \<le> to" "to \<le> ?L" using seg len by (cases S; auto)+
  note at = node_at_segments [OF seg(1)]
  let ?e1 = "cache_node (node_at ns (INC_MOD to ?L)) (INC_MOD to ?L) (spl1 ed)"
  let ?e = "cache_node (node_at ns (from - 1)) (from - 1) ?e1"
  have inc: "0 \<le> INC_MOD to ?L" "INC_MOD to ?L \<le> ?L" using INC_MOD_bounds [of to ?L] range by auto
  have b1: "buf_inv ?e1 ns" by (rule buf_inv_cache_node) (use inv(1) inc in simp_all)
  have b: "buf_inv ?e ns" by (rule buf_inv_cache_node) (use b1 range in simp_all)
  have g: "get_line_node (INC_MOD to ?L) (spl1 ed) = (node_at ns (INC_MOD to ?L), ?e1)"
    "get_line_node (from - 1) ?e1 = (node_at ns (from - 1), ?e)"
    using get_line_node_eq [of "spl1 ed" ns "INC_MOD to ?L"] get_line_node_eq [OF b1, of "from - 1"] inv(1) inc range by simp_all
  have n: "node_at ns (from - 1) = last (line_head # A)" "node_at ns (INC_MOD to ?L) = hd (C @ [line_head])"
    using at(1,4) seg(3,4) len by simp_all
  have run: "move_lines from to after ed = move_tail (to - from + 1) (last (line_head # A), hd (C @ [line_head])) (set_dot to ?e)"
    unfolding move_lines_def move_tail_def [symmetric] Let_def using stay g n by simp
  have "buf_inv (set_dot to ?e) (A @ S @ C)" "undo_inv (set_dot to ?e) ns0 (A @ S @ C)" "gb_ok (set_dot to ?e)"
    using b inv(2,3) seg by (simp_all add: buf_inv_def undo_inv_def gb_ok_def)
  from move_tail_ok [OF this seg(2), of ed to "to - from + 1"] show ?thesis
    unfolding run seg(1) [symmetric] using ok by (simp add: keeps_data_def node_data_def)
qed

lemma move_lines_down:
  assumes inv: "buf_inv ed ns" "undo_inv ed ns0 ns" "gb_ok ed" and ok: "sys_all_ok ed"
    and ns: "ns = X @ M @ S @ C" and ne: "M \<noteq> []" "S \<noteq> []"
    and pos: "from = int (length X + length M) + 1" "to = int (length X + length M + length S)" "after = int (length X)"
  shows "\<exists>ed'. move_lines from to after ed = (Inr (), ed') \<and>
    move_result ed ns0 (X @ S @ M @ C) S (after + (to - from + 1)) ed'"
proof -
  let ?L = "lines (state ed)"
  have len: "?L = int (length ns)" and r: "ring (nodes (core ed)) ns" using inv(1) by (simp_all add: buf_inv_def)
  have log: "undo_log ns0 (next_node (core ed)) (nodes (core ed)) ns (rev (undo_queue (core ed)))"
    using inv(2) by (simp add: undo_inv_def)
  have l: "1 \<le> int (length M)" "1 \<le> int (length S)" using ne by (cases M; cases S; simp)+
  have L: "?L = int (length X) + int (length M) + int (length S) + int (length C)" using len ns by simp
  have range: "1 \<le> from" "from \<le> to" "to \<le> ?L" "0 \<le> after" "after \<le> ?L" "after \<noteq> from - 1" "after \<noteq> to" "after < from"
    using pos L l by linarith+
  have nb: "node_at ns (from - 1) = last M" "node_at ns (INC_MOD to ?L) = hd (C @ [line_head])"
    "node_at ns after = last (line_head # X)" "node_at ns (INC_MOD after ?L) = hd M"
    using node_at_segments(1,2,3) [OF ns] node_at_segments(4) [of ns "X @ M" S C] ns ne pos len l
    by (simp_all add: INC_MOD_def add.assoc)
  note pre = ring_swap_pre [OF r [unfolded ns] ne]
  have qf: "q_forw (nodes (core ed) (last (line_head # X))) = hd M" using pre by (simp only: swap_pre_def)
  obtain e5 where e5: "move_lines from to after ed = move_tail (to - from + 1) (last (line_head # X), hd M) e5"
    "core e5 = (core ed)\<lparr>undo_queue := undo_queue (core ed) @ [\<lparr>undo_h = last M, undo_t = hd (C @ [line_head]), undo_type = UMOV\<rparr>,
      \<lparr>undo_h = last (line_head # X), undo_t = hd M, undo_type = UMOV\<rparr>],
      nodes := swap_links (last (line_head # X)) (hd M) (last M) (hd S) (last S) (hd (C @ [line_head])) (nodes (core ed))\<rparr>"
    "state e5 = (state ed)\<lparr>dot := after + (to - from + 1)\<rparr>"
    "state1 e5 = state1 ed" "exec e5 = exec ed" "mutex e5 = mutex ed + 1" "input e5 = input ed" "streams e5 = streams ed" "sys_all_ok e5"
    "gl_lp (statics e5) = Some (last (line_head # X))" "gl_n_prev (statics e5) = after"
    using move_prefix [OF inv(1) ok range(1-7), unfolded nb qf move_links(1) [OF pre, unfolded Let_def]] range(8)
    by (simp only: if_True) blast
  have u: "undo_inv e5 ns0 (X @ S @ M @ C)"
    using undo_log_move(1) [OF log [unfolded ns] ne] inv(2) by (simp add: undo_inv_def e5)
  have "cache_inv (X @ S @ M @ C) (statics e5)"
    using e5(10,11) pos(3) node_at_segments(1) [of "X @ S @ M @ C" X S "M @ C"] by (simp add: cache_inv_def)
  then have b: "buf_inv e5 (X @ S @ (M @ C))"
    using ring_swap [OF r [unfolded ns] ne] inv(1) ns by (auto simp: buf_inv_def e5)
  have gk: "gb_ok e5" using inv(3) by (simp add: gb_ok_def e5)
  have k: "keeps_data ed e5" by (simp add: keeps_data_def node_data_def e5 swap_links_def)
  have "hd M = hd ((M @ C) @ [line_head])" using ne by simp
  then show ?thesis
    using move_tail_ok [OF b u gk ne(2) k, of "after + (to - from + 1)" "to - from + 1"] unfolding e5(1)
    by (simp add: e5 del: last.simps)
qed

lemma move_lines_up:
  assumes inv: "buf_inv ed ns" "undo_inv ed ns0 ns" "gb_ok ed" and ok: "sys_all_ok ed"
    and ns: "ns = A @ S @ M @ Y" and ne: "S \<noteq> []" "M \<noteq> []"
    and pos: "from = int (length A) + 1" "to = int (length A + length S)" "after = int (length A + length S + length M)"
  shows "\<exists>ed'. move_lines from to after ed = (Inr (), ed') \<and> move_result ed ns0 (A @ M @ S @ Y) S after ed'"
proof -
  let ?L = "lines (state ed)"
  have len: "?L = int (length ns)" and r: "ring (nodes (core ed)) ns" using inv(1) by (simp_all add: buf_inv_def)
  have log: "undo_log ns0 (next_node (core ed)) (nodes (core ed)) ns (rev (undo_queue (core ed)))"
    using inv(2) by (simp add: undo_inv_def)
  have l: "1 \<le> int (length M)" "1 \<le> int (length S)" using ne by (cases M; cases S; simp)+
  have L: "?L = int (length A) + int (length S) + int (length M) + int (length Y)" using len ns by simp
  have range: "1 \<le> from" "from \<le> to" "to \<le> ?L" "0 \<le> after" "after \<le> ?L" "after \<noteq> from - 1" "after \<noteq> to" "\<not> after < from"
    using pos L l by linarith+
  have nb: "node_at ns (from - 1) = last (line_head # A)" "node_at ns (INC_MOD to ?L) = hd M"
    "node_at ns after = last M" "node_at ns (INC_MOD after ?L) = hd (Y @ [line_head])"
    using node_at_segments(1,4) [OF ns] node_at_segments(3,4) [of ns "A @ S" M Y] ns ne pos len
    by (simp_all add: add.assoc)
  note pre = ring_swap_pre [OF r [unfolded ns] ne]
  have qf: "q_forw (nodes (core ed) (last M)) = hd (Y @ [line_head])" using pre by (simp only: swap_pre_def)
  obtain e5 where e5: "move_lines from to after ed = move_tail (to - from + 1) (last M, hd (Y @ [line_head])) e5"
    "core e5 = (core ed)\<lparr>undo_queue := undo_queue (core ed) @ [\<lparr>undo_h = last (line_head # A), undo_t = hd M, undo_type = UMOV\<rparr>,
      \<lparr>undo_h = last M, undo_t = hd (Y @ [line_head]), undo_type = UMOV\<rparr>],
      nodes := swap_links (last (line_head # A)) (hd S) (last S) (hd M) (last M) (hd (Y @ [line_head])) (nodes (core ed))\<rparr>"
    "state e5 = (state ed)\<lparr>dot := after + 0\<rparr>"
    "state1 e5 = state1 ed" "exec e5 = exec ed" "mutex e5 = mutex ed + 1" "input e5 = input ed" "streams e5 = streams ed" "sys_all_ok e5"
    "gl_lp (statics e5) = Some (last (line_head # A))" "gl_n_prev (statics e5) = from - 1"
    using move_prefix [OF inv(1) ok range(1-7), unfolded nb qf move_links(2) [OF pre, unfolded Let_def]] range(8)
    by (simp only: if_False) blast
  have u: "undo_inv e5 ns0 ((A @ M) @ S @ Y)"
    using undo_log_move(2) [OF log [unfolded ns] ne] inv(2) by (simp add: undo_inv_def e5)
  have "cache_inv ((A @ M) @ S @ Y) (statics e5)"
    using e5(10,11) pos(1) node_at_segments(1) [of "(A @ M) @ S @ Y" A M "S @ Y"] by (simp add: cache_inv_def)
  then have b: "buf_inv e5 ((A @ M) @ S @ Y)"
    using ring_swap [OF r [unfolded ns] ne] inv(1) ns by (auto simp: buf_inv_def e5)
  have gk: "gb_ok e5" using inv(3) by (simp add: gb_ok_def e5)
  have k: "keeps_data ed e5" by (simp add: keeps_data_def node_data_def e5 swap_links_def)
  have "last M = last (line_head # A @ M)" using ne by simp
  then show ?thesis
    using move_tail_ok [OF b u gk ne(1) k, of after "to - from + 1"] unfolding e5(1)
    by (simp add: e5 del: last.simps)
qed

text \<open>The lines \<open>from\<close> to \<open>to\<close> moved to after \<open>after\<close>\<close>

definition moved :: "int \<Rightarrow> int \<Rightarrow> int \<Rightarrow> 'a list \<Rightarrow> 'a list" where
  "moved from to after xs =
     (if after < from
      then take (nat after) xs @ segment from to xs @ drop (nat after) (take (nat (from - 1)) xs) @ drop (nat to) xs
      else take (nat (from - 1)) xs @ drop (nat to) (take (nat after) xs) @ segment from to xs @ drop (nat after) xs)"

lemma move_lines_ok:
  assumes inv: "buf_inv ed ns" "undo_inv ed ns0 ns" "gb_ok ed" and ok: "sys_all_ok ed"
    and range: "1 \<le> from" "from \<le> to" "to \<le> lines (state ed)" "0 \<le> after" "after \<le> lines (state ed)"
    and dest: "\<not> (from \<le> after \<and> after < to)"
  shows "\<exists>ed'. move_lines from to after ed = (Inr (), ed') \<and>
      move_result ed ns0 (moved from to after ns) (segment from to ns)
        (if after = from - 1 then to else if after < from then after + (to - from + 1) else after) ed'"
proof -
  have len: "lines (state ed) = int (length ns)" using inv(1) by (simp add: buf_inv_def)
  obtain A S C where seg: "ns = A @ S @ C" "S \<noteq> []" "from = int (length A) + 1" "to = int (length A + length S)"
    and sd: "S = take (nat (to - from + 1)) (drop (nat (from - 1)) ns)"
    by (rule split_segments [OF range(1,2) range(3) [unfolded len]])
  have S: "segment from to ns = S" unfolding segment_def by (rule sd [symmetric])
  have l: "1 \<le> int (length S)" using seg(2) by (cases S) simp_all
  have n: "nat (from - 1) = length A" "nat to = length A + length S" using seg(3,4) by simp_all
  consider (stay) "after = from - 1 \<or> after = to" | (down) "after < from - 1" | (up) "to < after" using dest by linarith
  then show ?thesis
  proof cases
    case stay
    have d: "(if after = from - 1 then to else if after < from then after + (to - from + 1) else after) = to"
      using stay seg(3,4) l by auto
    have "moved from to after ns = ns" unfolding moved_def S n using stay seg l by auto
    with move_lines_stay [OF inv ok seg stay] d show ?thesis by (simp only: S)
  next
    case down
    define X M where "X = take (nat after) A" and "M = drop (nat after) A"
    have A: "A = X @ M" "int (length X) = after" "M \<noteq> []" using down range(4) seg(3) by (auto simp: X_def M_def)
    have ns: "ns = X @ M @ S @ C" using seg A by simp
    have pos: "from = int (length X + length M) + 1" "to = int (length X + length M + length S)" "after = int (length X)"
      using seg(3,4) A by simp_all
    have d: "(if after = from - 1 then to else if after < from then after + (to - from + 1) else after) = after + (to - from + 1)"
      using down by simp
    have "moved from to after ns = X @ S @ M @ C"
      unfolding moved_def S n using down pos by (simp add: ns A(1))
    with move_lines_down [OF inv ok ns A(3) seg(2) pos] d show ?thesis by (simp only: S)
  next
    case up
    define M Y where "M = take (nat (after - to)) C" and "Y = drop (nat (after - to)) C"
    have C: "C = M @ Y" "M \<noteq> []" "after = int (length A + length S + length M)"
      using up range(5) seg(1,4) len by (auto simp: M_def Y_def)
    have ns: "ns = A @ S @ M @ Y" using seg C by simp
    have d: "(if after = from - 1 then to else if after < from then after + (to - from + 1) else after) = after"
      using up range by simp
    have "moved from to after ns = A @ M @ S @ Y"
      unfolding moved_def S n using up range C(3) seg(3,4) by (simp add: ns)
    with move_lines_up [OF inv ok ns seg(2) C(2) seg(3,4) C(3)] d show ?thesis by (simp only: S)
  qed
qed

end
