(* ===== verification/Numbers.thy ===== *)
theory Numbers
  imports Ed_Types
begin

text \<open>
  The conversions from decimal of \<open>ed.h\<close> (\<open>STRTOL_THROW\<close>, \<open>STRTOLL_THROW\<close>) over \<open>strtol\<close> and
  \<open>strtoll\<close> of the C library, and arithmetic on \<open>off_t\<close>, which wraps around at 64 bits when the
  sum of two addresses is out of range.  \<open>decimal\<close> prints a number; reading it back gives the
  number (\<open>strtoll_decimal\<close>).
\<close>

definition digits_val :: "string \<Rightarrow> int" where
  "digits_val ds = foldl (\<lambda>n c. n * 10 + int (digit_val c)) 0 ds"

text \<open>\<open>strtoll (s, &rest, 10)\<close>: the value, the rest, and whether the value was out of range.\<close>

definition strtoll :: "string \<Rightarrow> int \<times> string \<times> bool" where
  "strtoll s =
     (let s1 = dropWhile isspace s;
          neg = (cur s1 = CHR ''-'');
          s2 = (if cur s1 = CHR ''-'' \<or> cur s1 = CHR ''+'' then drop 1 s1 else s1);
          ds = takeWhile isdigit s2;
          n = (if neg then - digits_val ds else digits_val ds)
      in if ds = [] then (0, s, False)
         else if LLONG_MAX < n then (LLONG_MAX, drop (length ds) s2, True)
         else if n < - LLONG_MAX - 1 then (- LLONG_MAX - 1, drop (length ds) s2, True)
         else (n, drop (length ds) s2, False))"

text \<open>\<open>STRTOLL_THROW (i, ed->input, &ed->input, ERR)\<close>: the input moves on even on an error.\<close>

definition STRTOLL_THROW :: "ed_buffer \<Rightarrow> int res" where
  "STRTOLL_THROW ed =
     (case strtoll (input ed) of
        (n, rest, erange) \<Rightarrow>
          if erange then throw ''Numerical result out of range'' (set_input rest ed)
          else (Inr n, set_input rest ed))"

text \<open>The sum of two \<open>off_t\<close> as the machine computes it\<close>

definition off_t :: "int \<Rightarrow> int" where
  "off_t n = (n + 2 ^ 63) mod 2 ^ 64 - 2 ^ 63"

lemma off_t_id: "- OFF_T_MAX - 1 \<le> n \<Longrightarrow> n \<le> OFF_T_MAX \<Longrightarrow> off_t n = n"
  by (simp add: off_t_def OFF_T_MAX_def)

lemma off_t_bounds: "- OFF_T_MAX - 1 \<le> off_t n" "off_t n \<le> OFF_T_MAX"
proof -
  have "0 \<le> (n + 2 ^ 63) mod 2 ^ 64" "(n + 2 ^ 63) mod 2 ^ 64 < (2::int) ^ 64"
    by (rule pos_mod_sign pos_mod_bound; simp)+
  then show "- OFF_T_MAX - 1 \<le> off_t n" "off_t n \<le> OFF_T_MAX"
    by (simp_all add: off_t_def OFF_T_MAX_def)
qed

section \<open>Decimal notation\<close>

definition digit :: "nat \<Rightarrow> char" where
  "digit d = char_of (48 + d)"

fun decimal :: "nat \<Rightarrow> string" where
  "decimal n = (if n < 10 then [digit n] else decimal (n div 10) @ [digit (n mod 10)])"

declare decimal.simps [simp del]

lemma digit_props: "d < 10 \<Longrightarrow> isdigit (digit d) \<and> digit_val (digit d) = d"
  by (simp add: digit_def isdigit_def digit_val_def byte_def of_char_of)

lemma digit_not_space: "d < 10 \<Longrightarrow> \<not> isspace (digit d) \<and> digit d \<noteq> CHR ''-'' \<and> digit d \<noteq> CHR ''+''"
proof -
  assume d: "d < 10"
  have "byte (digit d) = 48 + d" using d by (simp add: digit_def byte_def of_char_of)
  then show ?thesis using d by (auto simp: isspace_def byte_def)
qed

lemma decimal_digits: "decimal n \<noteq> [] \<and> (\<forall>c \<in> set (decimal n). \<exists>d<10. c = digit d)"
proof (induction n rule: decimal.induct)
  case (1 n)
  show ?case
  proof (cases "n < 10")
    case False
    then show ?thesis using 1 by (subst (1 2) decimal.simps) (auto intro: exI [of _ "n mod 10"])
  qed (auto simp: decimal.simps [of n])
qed

lemma digits_val_snoc: "digits_val (ds @ [c]) = digits_val ds * 10 + int (digit_val c)"
  by (simp add: digits_val_def)

lemma digits_val_decimal: "digits_val (decimal n) = int n"
proof (induction n rule: decimal.induct)
  case (1 n)
  show ?case
  proof (cases "n < 10")
    case True
    then show ?thesis by (simp add: decimal.simps [of n] digits_val_def digit_props)
  next
    case False
    then have "digits_val (decimal n) = int (n div 10) * 10 + int (n mod 10)"
      using 1 by (simp add: decimal.simps [of n] digits_val_snoc digit_props)
    moreover have "int (n div 10) * 10 + int (n mod 10) = int n"
      by (simp add: zdiv_int zmod_int)
    ultimately show ?thesis by simp
  qed
qed

lemma decimal_hd: "\<exists>d<10. \<exists>ds. decimal n = digit d # ds"
  using decimal_digits [of n] by (cases "decimal n") auto

lemma strtoll_decimal:
  assumes "int n \<le> LLONG_MAX" "\<not> isdigit (cur rest)"
  shows "strtoll (decimal n @ rest) = (int n, rest, False)"
proof -
  obtain d ds where d: "d < 10" "decimal n = digit d # ds" using decimal_hd by blast
  have dig: "\<forall>c\<in>set (decimal n). isdigit c" using decimal_digits [of n] digit_props by auto
  have r: "takeWhile isdigit rest = []" using assms(2) by (cases rest) auto
  have tw: "takeWhile isdigit (decimal n @ rest) = decimal n"
    using dig r by (simp add: takeWhile_append2)
  have s: "dropWhile isspace (decimal n @ rest) = decimal n @ rest"
    using digit_not_space [OF d(1)] d(2) by simp
  have c: "cur (decimal n @ rest) = digit d" using d(2) by simp
  show ?thesis
    using assms(1) digit_not_space [OF d(1)] decimal_digits [of n]
    unfolding strtoll_def Let_def s c by (simp add: tw digits_val_decimal LLONG_MAX_def)
qed

end
