(* ===== verification/Ed_Init.thy ===== *)
theory Ed_Init
  imports Edit_Refine Numbers
begin

text \<open>
  The start of the editor (\<open>buffer.c\<close>: \<open>one_time_init\<close> and the functions it calls), over a
  parameter \<open>getenv\<close> for the environment.  The redirection of the standard input and the file
  list are not part of it.  The lemmas show that the invariants of the line buffer hold from
  the start and that there is nothing to undo.

  \<open>sample_ed\<close> is a buffer of three lines, at which later theories evaluate their theorems.
\<close>

definition init_ed_state :: "int \<Rightarrow> ed_state" where
  "init_ed_state addr = \<lparr>dot = addr, lines = addr, is_binary = False, is_utf8 = True, is_empty = True,
     is_modified = False, newline_appended = False, newline_missing = False, input_is_binary = False\<rparr>"

definition init_ed_command :: "ed_buffer \<Rightarrow> ed_buffer" where
  "init_ed_command ed =
     exec_update (\<lambda>x. x\<lparr>first_pass := False, global := {}, macro_in_global := {}\<rparr>)
       (display_update (\<lambda>d. d\<lparr>paging := 0, page_addr := 0, underflow := False, overflow := False, hidden := False\<rparr>) ed)"

definition init_global_buffer :: "ed_global_buffer" where
  "init_global_buffer = \<lparr>gb_lbuf = [], gb_last = 0, gb_ptr = 0, gb_index = 0\<rparr>"

text \<open>\<open>INIT_DEQUE\<close>\<close>

definition init_deque :: "node \<Rightarrow> heap \<Rightarrow> heap" where
  "init_deque p h = link_nodes p p h"

text \<open>A new, empty temporary file, for the buffer, a register or a script\<close>

definition create_disk_buffer :: "ed_buffer \<Rightarrow> stream_id res" where
  "create_disk_buffer ed =
     (case sys_call ed of
        (False, ed) \<Rightarrow> throw ''Buffer open error'' ed
      | (True, ed) \<Rightarrow>
          (let fp = next_stream ed
           in (Inr fp, next_stream_update Suc (upd_stream fp (\<lambda>_. empty_stream) ed))))"

definition init_core_buffer :: "ed_buffer \<Rightarrow> unit res" where
  "init_core_buffer ed = andThen (create_disk_buffer ed) (\<lambda>fp ed. (Inr (), core_update (core_fp_update (\<lambda>_. fp)) ed))"

definition close_ed_buffer :: "ed_buffer \<Rightarrow> unit res" where
  "close_ed_buffer ed =
     (case sys_call ed of
        (ok, ed) \<Rightarrow>
          let closed = core_update (\<lambda>c. c\<lparr>offset := 0, seek_on_write := False\<rparr>)
          in if ok then (Inr (), closed ed) else (Inl ERR, closed (set_err ''Buffer close error'' ed)))"

definition reopen_ed_buffer :: "ed_buffer \<Rightarrow> unit res" where
  "reopen_ed_buffer ed = andThen (close_ed_buffer ed) (\<lambda>_. init_core_buffer)"

definition ROWS_MAX :: int where "ROWS_MAX = 2147483647"
definition COLUMNS_MAX :: int where "COLUMNS_MAX = 2147483647"
definition WS_ROW :: int where "WS_ROW = 24"
definition WS_COL :: int where "WS_COL = 80"
definition TAB_WIDTH :: int where "TAB_WIDTH = 8"

text \<open>\<open>LINES\<close> and \<open>COLUMNS\<close> of the environment, when they are sane\<close>

definition init_window ::
  "string option \<Rightarrow> int \<Rightarrow> int \<Rightarrow> int \<Rightarrow> int \<Rightarrow> (ed_command_error + int)" where
  "init_window s low high old dflt =
     (case s of
        Some s \<Rightarrow>
          (case strtoll s of
             (l, _, erange) \<Rightarrow> if erange then Inl ERR else Inr (if low < l \<and> l < high then l else old))
      | None \<Rightarrow> Inr (if old = 0 then dflt else old))"

definition one_time_init :: "(string \<Rightarrow> string option) \<Rightarrow> ed_buffer \<Rightarrow> unit res" where
  "one_time_init getenv ed =
     andThen (init_core_buffer ed) (\<lambda>_ ed.
       let ed = init_ed_command ed;
           ed = state1_update (\<lambda>_. init_ed_state (-1)) (state_update (\<lambda>_. init_ed_state 0) ed);
           ed = set_nodes (init_deque line_head (nodes (core ed))) ed;
           ed = core_update (\<lambda>c. c\<lparr>undo_queue := [], global_buffer := init_global_buffer\<rparr>) ed
       in case init_window (getenv ''LINES'') 1 ROWS_MAX (ws_row (display ed)) WS_ROW of
            Inl e \<Rightarrow> throw ''Numerical result out of range'' ed
          | Inr r \<Rightarrow>
              (let ed = display_update (ws_row_update (\<lambda>_. r)) ed
               in case init_window (getenv ''COLUMNS'') TAB_WIDTH COLUMNS_MAX (ws_col (display ed)) WS_COL of
                    Inl e \<Rightarrow> throw ''Numerical result out of range'' ed
                  | Inr c \<Rightarrow>
                      (let ed = display_update (ws_col_update (\<lambda>_. c)) ed;
                           ed = (if prompt (exec ed) = [] then exec_update (prompt_update (\<lambda>_. ''*'')) ed else ed);
                           ed = (if getenv ''POSIXLY_CORRECT'' \<noteq> None
                                 then exec_update (opt_update (insert POSIXLY_CORRECT)) ed else ed)
                       in (Inr (), ed))))"

lemma init_window_bounds:
  "init_window s low high old d = Inr w \<Longrightarrow> old = 0 \<or> low < old \<and> old < high \<Longrightarrow> low < d \<Longrightarrow> d < high \<Longrightarrow>
     w = 0 \<or> low < w \<and> w < high"
  by (auto simp: init_window_def split: option.splits prod.splits if_splits)

lemma init_core_buffer_eq:
  assumes "init_core_buffer ed = (Inr u, e)"
  shows "core e = (core ed)\<lparr>core_fp := next_stream ed\<rparr> \<and> streams e (next_stream ed) = empty_stream \<and> statics e = statics ed"
  using assms by (auto simp: init_core_buffer_def create_disk_buffer_def throw_def sys_call_def Let_def upd_stream_def split: bool.splits if_splits)

lemma ring_init: "ring (init_deque line_head h) []"
  by (simp add: ring_def init_deque_def)

text \<open>The buffer at the start: the process begins with no allocated node but the head, and
  with a line cache not yet set.\<close>

lemma one_time_init_inv:
  assumes "one_time_init getenv ed = (Inr (), ed')"
    and "next_node (core ed) = 1" "gl_lp (statics ed) = None" "gl_n_prev (statics ed) = 0"
    and "offset (core ed) = 0" "seek_on_write (core ed) = False"
  shows "buf_inv ed' []" "disk_inv ed'" "gb_ok ed'"
    and "fst (undo_last_command ed') = Inl ERR"
proof -
  obtain e where e0: "init_core_buffer ed = (Inr (), e)"
    using assms(1) by (auto simp: one_time_init_def andThen_eq_Inr)
  note e = init_core_buffer_eq [OF e0]
  have c: "nodes (core ed') = init_deque line_head (nodes (core ed))" "next_node (core ed') = 1"
    "core_fp (core ed') = next_stream ed" "offset (core ed') = 0" "seek_on_write (core ed') = False"
    "global_buffer (core ed') = init_global_buffer" "streams ed' = streams e"
    "state ed' = init_ed_state 0" "state1 ed' = init_ed_state (-1)" "statics ed' = statics ed"
    using assms e by (auto simp: one_time_init_def e0 Let_def init_ed_command_def throw_def split: sum.splits if_splits)
  show "buf_inv ed' []"
    using c assms by (simp add: buf_inv_def ring_init cache_inv_def init_ed_state_def)
  show "disk_inv ed'" using c e by (simp add: disk_inv_def empty_stream_def)
  show "gb_ok ed'" using c by (simp add: gb_ok_def gb_inv_def init_global_buffer_def once_in_def)
  show "fst (undo_last_command ed') = Inl ERR"
    using c by (simp add: undo_last_command_def init_ed_state_def throw_def)
qed

section \<open>A sample buffer\<close>

definition sample_heap :: heap where
  "sample_heap = (\<lambda>_. \<lparr>q_forw = 0, q_back = 0, ln_len = 0, ln_seek = 0\<rparr>)
     (0 := \<lparr>q_forw = 1, q_back = 3, ln_len = 0, ln_seek = 0\<rparr>,
      1 := \<lparr>q_forw = 2, q_back = 0, ln_len = 1, ln_seek = 0\<rparr>,
      2 := \<lparr>q_forw = 3, q_back = 1, ln_len = 2, ln_seek = 1\<rparr>,
      3 := \<lparr>q_forw = 0, q_back = 2, ln_len = 3, ln_seek = 3\<rparr>)"

definition sample_core :: ed_core where
  "sample_core = \<lparr>regbuf = \<lparr>reg_fp = (\<lambda>_. None), read_idx = 0, write_idx = 0, rio_f = {}\<rparr>,
     stack_frame = (\<lambda>_. \<lparr>sf_fp = 0, sf_size = 0, sf_addr = 0\<rparr>), sp = 0, mark = (\<lambda>_. None), marks = 0,
     global_buffer = \<lparr>gb_lbuf = [], gb_last = 0, gb_ptr = 0, gb_index = 0\<rparr>, nodes = sample_heap, next_node = 4,
     freed = {}, undo_queue = [], core_fp = 1, offset = 6, seek_on_write = False\<rparr>"

definition sample_state :: ed_state where
  "sample_state = (init_ed_state 3)\<lparr>is_empty := False\<rparr>"

definition sample_exec :: ed_execute where
  "sample_exec = \<lparr>subst = \<lparr>lhs = None, s_mod = 0, s_nth = 1, r_f = False, s_f = {}, sio_f = {}\<rparr>,
     region = \<lparr>region_start = 0, region_end = 0, addrs = 0\<rparr>, exec_fp = None, script_pathname = None,
     address = None, err = None, prompt = ''*'', line_no = 0, have_key = False, first_pass = False,
     global = {}, macro_in_global = {}, opt = {}, exit_status = 0\<rparr>"

definition sample_ed :: ed_buffer where
  "sample_ed = \<lparr>state = sample_state, state1 = sample_state, core = sample_core,
     display = \<lparr>ws_row = 24, ws_col = 80, page_addr = 0, paging = 0, is_paging = 0, underflow = False,
       overflow = False, hidden = False, dio_f = {}\<rparr>,
     exec = sample_exec, file_info = \<lparr>file_name_of = None, is_glob = False\<rparr>, input = [],
     statics = \<lparr>gl_lp = None, gl_n_prev = 0, re_search = None, re_subst = None, re_freed = {}, subst_rhs = None,
       subst_rhs_i = 0, sc_prev = None, saved_input = None, gcb = None\<rparr>,
     streams = (\<lambda>_. empty_stream)(1 := \<lparr>f_data = ''abbccc'', f_pos = 6, f_eof = False\<rparr>),
     next_stream = 2, std_in = 0, std_out = [], std_err = [], mutex = 0, sys_ok = (\<lambda>_. True), sys_n = 0,
     files = (\<lambda>_. None)\<rparr>"

lemmas sample_defs = sample_ed_def sample_core_def sample_state_def sample_exec_def init_ed_state_def

lemma sample_state_fields [simp]:
  "state sample_ed = sample_state" "state1 sample_ed = sample_state" "lines sample_state = 3" "dot sample_state = 3"
  "sys_all_ok sample_ed" "lines (state sample_ed) = 3" "next_node (core sample_ed) = 4" "input sample_ed = []"
  "exec sample_ed = sample_exec" "global sample_exec = {}" "opt sample_exec = {}" "mutex sample_ed = 0"
  "core_fp (core sample_ed) = Suc 0"
  by (simp_all add: sample_defs sys_all_ok_def)

lemma sample_ring: "ring sample_heap [1, 2, 3]"
  by (simp add: ring_def sample_heap_def line_head_def)

lemma sample_buf_inv: "buf_inv sample_ed [1, 2, 3]"
  using sample_ring by (simp add: buf_inv_def sample_defs cache_inv_def)

lemma less_4_cases: "p < (4::nat) \<longleftrightarrow> p = 0 \<or> p = 1 \<or> p = 2 \<or> p = 3"
  by auto

lemma sample_undo_inv: "undo_inv sample_ed [1, 2, 3] [1, 2, 3]"
proof -
  have "heap_ok 4 sample_heap [1, 2, 3]"
    using sample_ring by (auto simp: heap_ok_def closed_below_def sample_heap_def less_4_cases)
  then show ?thesis by (auto simp: undo_inv_def sample_defs intro: log_nil)
qed

lemma sample_disk_inv: "disk_inv sample_ed"
  by (auto simp: disk_inv_def sample_defs node_stored_def sample_heap_def less_4_cases)

lemma sample_gb_ok: "gb_ok sample_ed"
  by (simp add: gb_ok_def gb_inv_def sample_defs once_in_def)

lemmas sample_invs = sample_buf_inv sample_undo_inv sample_disk_inv sample_gb_ok

lemma sample_disk [simp]: "streams sample_ed (Suc 0) = \<lparr>f_data = ''abbccc'', f_pos = 6, f_eof = False\<rparr>"
  by (simp add: sample_ed_def)

lemma sample_node_text [simp]:
  "node_text sample_ed (Suc 0) = ''a''" "node_text sample_ed 2 = ''bb''" "node_text sample_ed 3 = ''ccc''"
  by (simp_all add: node_text_def line_head_def sample_core_def sample_heap_def sample_ed_def)

lemma sample_text [simp]: "buffer_text sample_ed [Suc 0, 2, 3] = [''a'', ''bb'', ''ccc'']"
  by (simp add: buffer_text_def)

lemma room_for_sample [simp]: "n \<le> 1000000 \<Longrightarrow> room_for n sample_ed"
  by (simp add: room_for_def OFF_T_MAX_def)

end
