(* ===== verification/Edit_Spec.thy ===== *)
theory Edit_Spec
  imports Edit_Refine Ed_Init
begin

text \<open>
  The abstract specification of the line commands: a buffer is the list of the texts of its
  lines, and a command is a function on lists.  The lemmas show that the code's surgery on the
  ring of nodes, with the texts in the buffer file, computes these functions (\<open>buffer_text\<close> is
  the abstraction function).
\<close>

section \<open>What the invariants do not depend on\<close>

lemma cache_inv_re [simp]:
  "cache_inv ns (re_search_update f s) = cache_inv ns s" "cache_inv ns (re_subst_update f s) = cache_inv ns s"
  "cache_inv ns (re_freed_update h s) = cache_inv ns s" "cache_inv ns (subst_rhs_i_update k s) = cache_inv ns s"
  "cache_inv ns (subst_rhs_update g s) = cache_inv ns s" "cache_inv ns (sc_prev_update g s) = cache_inv ns s"
  by (simp_all add: cache_inv_def split: option.split)

text \<open>What the invariants of the ring and of the buffer file do not depend on\<close>

lemma buf_inv_updates [simp]:
  "buf_inv (exec_update eu ed) ns = buf_inv ed ns" "buf_inv (input_update iu ed) ns = buf_inv ed ns"
  "buf_inv (sys_n_update nu ed) ns = buf_inv ed ns" "buf_inv (mutex_update mu ed) ns = buf_inv ed ns"
  "buf_inv (display_update du ed) ns = buf_inv ed ns" "buf_inv (std_out_update ou ed) ns = buf_inv ed ns"
  "buf_inv (std_err_update ou ed) ns = buf_inv ed ns" "buf_inv (file_info_update fu ed) ns = buf_inv ed ns"
  "buf_inv (set_dot d ed) ns = buf_inv ed ns" "buf_inv (set_is_modified b ed) ns = buf_inv ed ns"
  "buf_inv (statics_update (re_search_update sru) ed) ns = buf_inv ed ns"
  "buf_inv (statics_update (re_subst_update ssu) ed) ns = buf_inv ed ns"
  "buf_inv (statics_update (re_freed_update hu) ed) ns = buf_inv ed ns"
  "buf_inv (statics_update (subst_rhs_update ru) ed) ns = buf_inv ed ns"
  "buf_inv (statics_update (subst_rhs_i_update riu) ed) ns = buf_inv ed ns"
  "buf_inv (statics_update (sc_prev_update pu) ed) ns = buf_inv ed ns"
  "buf_inv (streams_update su ed) ns = buf_inv ed ns"
  by (simp_all add: buf_inv_def)

lemma disk_inv_updates [simp]:
  "disk_inv (exec_update eu ed) = disk_inv ed" "disk_inv (input_update iu ed) = disk_inv ed"
  "disk_inv (sys_n_update nu ed) = disk_inv ed" "disk_inv (mutex_update mu ed) = disk_inv ed"
  "disk_inv (display_update du ed) = disk_inv ed" "disk_inv (std_out_update ou ed) = disk_inv ed"
  "disk_inv (std_err_update ou ed) = disk_inv ed" "disk_inv (file_info_update fu ed) = disk_inv ed"
  "disk_inv (state_update tu ed) = disk_inv ed" "disk_inv (statics_update cu ed) = disk_inv ed"
  by (simp_all add: disk_inv_def node_stored_def)

lemma sys_all_ok_updates [simp]:
  "sys_all_ok (display_update du ed) = sys_all_ok ed" "sys_all_ok (std_out_update ou ed) = sys_all_ok ed"
  "sys_all_ok (std_err_update ou ed) = sys_all_ok ed" "sys_all_ok (file_info_update fu ed) = sys_all_ok ed"
  "sys_all_ok (streams_update su ed) = sys_all_ok ed"
  by (simp_all add: sys_all_ok_def)

lemma spl0_spl1 [simp]: "spl0 (spl1 ed) = ed"
  by (cases ed) (simp add: spl0_def spl1_def)

lemma spl_inv [simp]:
  "buf_inv (spl1 ed) ns = buf_inv ed ns" "disk_inv (spl1 ed) = disk_inv ed" "sys_all_ok (spl1 ed) = sys_all_ok ed"
  "state (spl1 ed) = state ed" "core (spl1 ed) = core ed" "statics (spl1 ed) = statics ed" "buffer_text (spl1 ed) = buffer_text ed"
  "buf_inv (spl0 ed) ns = buf_inv ed ns" "disk_inv (spl0 ed) = disk_inv ed" "sys_all_ok (spl0 ed) = sys_all_ok ed"
  "state (spl0 ed) = state ed" "core (spl0 ed) = core ed" "statics (spl0 ed) = statics ed" "buffer_text (spl0 ed) = buffer_text ed"
  by (simp_all add: spl1_def spl0_def buf_inv_def disk_inv_def node_stored_def fun_eq_iff buffer_text_def node_text_def)

section \<open>Texts from the data of the nodes\<close>

definition data_text :: "string \<Rightarrow> nat \<times> int \<Rightarrow> string" where
  "data_text d = (\<lambda>(len, seek). take len (drop (nat seek) d))"

lemma buffer_text_data:
  assumes "buf_inv ed ns"
  shows "buffer_text ed ns = map (data_text (f_data (disk ed))) (map (node_data ed) ns)"
  using assms by (auto simp: buffer_text_def node_text_def data_text_def node_data_def buf_inv_def ring_def)

lemma disk_same: "streams ed' = streams ed \<Longrightarrow> core_fp (core ed') = core_fp (core ed) \<Longrightarrow> f_data (disk ed') = f_data (disk ed)"
  by simp

lemma map_segment [simp]: "map g (segment i j xs) = segment i j (map g xs)"
  by (simp add: segment_def take_map drop_map)

lemma map_removed [simp]: "map g (removed i j xs) = removed i j (map g xs)"
  by (simp add: removed_def take_map drop_map)

lemma map_moved [simp]: "map g (moved i j a xs) = moved i j a (map g xs)"
  by (simp add: moved_def segment_def take_map drop_map)

lemma set_removed: "set (removed i j xs) \<subseteq> set xs"
  by (auto simp: removed_def dest: in_set_takeD in_set_dropD)

lemma set_moved: "set (moved i j a xs) \<subseteq> set xs"
  by (auto simp: moved_def segment_def dest!: in_set_takeD in_set_dropD)

lemma map_node_data_cong:
  assumes "keeps_data ed ed'" "buf_inv ed ns" "set xs \<subseteq> set ns"
  shows "map (node_data ed') xs = map (node_data ed) xs"
  using assms by (auto simp: keeps_data_def buf_inv_def)

section \<open>The commands refine their specifications\<close>

lemma copy_lines_spec:
  assumes "buf_inv ed ns" "undo_inv ed ns0 ns" "sys_all_ok ed"
    and "1 \<le> from" "from \<le> to" "to \<le> lines (state ed)" "0 \<le> after" "after \<le> lines (state ed)"
    and "lines (state ed) + (to - from + 1) \<le> OFF_T_MAX"
  shows "\<exists>ed' ns'. copy_lines from to after ed = (Inr (), ed') \<and> buf_inv ed' ns' \<and> undo_inv ed' ns0 ns' \<and>
     buffer_text ed' ns' = insert_after after (segment from to (buffer_text ed ns)) (buffer_text ed ns) \<and>
     dot (state ed') = after + (to - from + 1)"
proof -
  obtain ed' ns' where r: "copy_lines from to after ed = (Inr (), ed')" "buf_inv ed' ns'" "undo_inv ed' ns0 ns'"
     "map (node_data ed') ns' = insert_after after (segment from to (map (node_data ed) ns)) (map (node_data ed) ns)"
     "edit_frame ed ed'" "streams ed' = streams ed" "dot (state ed') = after + (to - from + 1)"
    using copy_lines_ok [OF assms] by blast
  have "buffer_text ed' ns' = insert_after after (segment from to (buffer_text ed ns)) (buffer_text ed ns)"
    unfolding buffer_text_data [OF assms(1)] buffer_text_data [OF r(2)]
    using disk_same [OF r(6)] r(4,5) by (simp add: edit_frame_def)
  with r show ?thesis by blast
qed

lemma delete_lines_spec:
  assumes "buf_inv ed ns" "undo_inv ed ns0 ns" "gb_ok ed" "sys_all_ok ed"
    and "1 \<le> from" "from \<le> to" "to \<le> lines (state ed)"
  shows "\<exists>ed'. delete_lines from to ed = (Inr (), ed') \<and> buf_inv ed' (removed from to ns) \<and>
     undo_inv ed' ns0 (removed from to ns) \<and> gb_ok ed' \<and>
     buffer_text ed' (removed from to ns) = removed from to (buffer_text ed ns) \<and>
     dot (state ed') = from - 1 \<and> is_modified (state ed')"
proof (rule delete_lines_ok [OF assms])
  fix ed' gb q
  assume r: "delete_lines from to ed = (Inr (), ed')"
    "buf_inv ed' (removed from to ns)" "undo_inv ed' ns0 (removed from to ns)" "gb_ok ed'"
    "core ed' = (core ed)\<lparr>undo_queue := q, global_buffer := gb,
        nodes := link_nodes (node_at ns (from - 1)) (node_at ns (INC_MOD to (lines (state ed)))) (nodes (core ed))\<rparr>"
    "dot (state ed') = from - 1" "is_modified (state ed')" "streams ed' = streams ed"
  have nd: "node_data ed' = node_data ed" using r(5) by (auto simp: node_data_def)
  have "buffer_text ed' (removed from to ns) = removed from to (buffer_text ed ns)"
    unfolding buffer_text_data [OF assms(1)] buffer_text_data [OF r(2)] nd using disk_same [OF r(8)] r(5) by simp
  with r show ?thesis by blast
qed

lemma move_lines_spec:
  assumes "buf_inv ed ns" "undo_inv ed ns0 ns" "gb_ok ed" "sys_all_ok ed"
    and "1 \<le> from" "from \<le> to" "to \<le> lines (state ed)" "0 \<le> after" "after \<le> lines (state ed)"
    and "\<not> (from \<le> after \<and> after < to)"
  shows "\<exists>ed'. move_lines from to after ed = (Inr (), ed') \<and> buf_inv ed' (moved from to after ns) \<and>
      undo_inv ed' ns0 (moved from to after ns) \<and> gb_ok ed' \<and>
      buffer_text ed' (moved from to after ns) = moved from to after (buffer_text ed ns) \<and>
      lines (state ed') = lines (state ed) \<and> is_modified (state ed')"
proof -
  obtain ed' d where r: "move_lines from to after ed = (Inr (), ed')"
    "move_result ed ns0 (moved from to after ns) (segment from to ns) d ed'"
    using move_lines_ok [OF assms] by blast
  note m = r(2) [unfolded move_result_def]
  have "map (node_data ed') (moved from to after ns) = moved from to after (map (node_data ed) ns)"
    using map_node_data_cong [OF _ assms(1) set_moved, of ed' "from" to after] m by simp
  then have "buffer_text ed' (moved from to after ns) = moved from to after (buffer_text ed ns)"
    unfolding buffer_text_data [OF assms(1)] buffer_text_data [OF conjunct1 [OF m]]
    using disk_same [of ed' ed] m by (simp add: edit_frame_def)
  with r m show ?thesis by blast
qed

end
