(* ===== verification/Parse_Text.thy ===== *)
theory Parse_Text
  imports Ed_Types
begin

text \<open>
  The scanners of \<open>parse.c\<close> that only look at text: \<open>strtok_with_delimiters\<close>,
  \<open>regular_expression\<close> with \<open>character_class\<close>, \<open>shell_quote\<close> and \<open>trailing_escapes\<close>.
  \<open>ed->input\<close> is the list of the characters that are left.  The command buffer ends with a
  newline; where C would read beyond the end of the buffer, the scanners here stop without a
  result.
\<close>

section \<open>Escapes\<close>

text \<open>\<open>trailing_escapes s k\<close> is \<open>trailing_escapes (s, s + k)\<close>.\<close>

fun trailing_escapes :: "string \<Rightarrow> nat \<Rightarrow> nat" where
  "trailing_escapes s 0 = 0"
| "trailing_escapes s (Suc k) =
     (if peek k s \<noteq> REVERSE_SOLIDUS then 0 else trailing_escapes s k + 1)"

lemma peek_nth: "k < length s \<Longrightarrow> peek k s = s ! k"
  by (simp add: peek_def cur_def hd_drop_conv_nth split: list.splits)
     (metis drop_eq_Nil hd_drop_conv_nth leD list.sel(1))

lemma trailing_escapes_count:
  "k \<le> length s \<Longrightarrow>
     trailing_escapes s k = length (takeWhile (\<lambda>c. c = REVERSE_SOLIDUS) (rev (take k s)))"
  by (induction k) (auto simp: peek_nth take_Suc_conv_app_nth)

section \<open>Tokens\<close>

text \<open>
  The copy loop of \<open>strtok_with_delimiters\<close>: the token and the rest of the string from the
  character that ends it.  \<open>strchr\<close> finds the terminating NUL too, so a backslash at the end of
  the string makes the loop run over the end: no result.
\<close>

fun tok_copy :: "string \<Rightarrow> string \<Rightarrow> (string \<times> string) option" where
  "tok_copy delims [] = Some ([], [])"
| "tok_copy delims (c # cs) =
     (if c = REVERSE_SOLIDUS \<and> (cs = [] \<or> cur cs \<in> set delims)
      then (case cs of
              [] \<Rightarrow> None
            | d # ds \<Rightarrow> map_option (apfst ((#) d)) (tok_copy delims ds))
      else if c \<in> set delims then Some ([], c # cs)
      else map_option (apfst ((#) c)) (tok_copy delims cs))"

text \<open>
  One call: the argument \<open>s\<close> (\<open>None\<close> for a null pointer) and the static \<open>t\<close>; the token
  (\<open>None\<close> for a null pointer) and the static after the call.
\<close>

definition strtok_with_delimiters ::
  "string option \<Rightarrow> string \<Rightarrow> string option \<Rightarrow> (string option \<times> string option) option" where
  "strtok_with_delimiters s delims t =
     (let start = (case s of
                     Some s \<Rightarrow> Some s
                   | None \<Rightarrow> (case t of
                       None \<Rightarrow> None
                     | Some t \<Rightarrow> if drop 1 t = [] then None else Some (drop 1 t)))
      in case start of
           None \<Rightarrow> Some (None, map_option (drop 1) t)
         | Some t \<Rightarrow>
             (let t = dropWhile (\<lambda>c. c \<in> set delims) t
              in if t = [] then Some (None, Some t)
                 else map_option (\<lambda>(tok, t). (Some tok, if t = [] then None else Some t))
                        (tok_copy delims t)))"

text \<open>The loop of \<open>file_glob\<close>: all the tokens of a string\<close>

fun strtok_all :: "nat \<Rightarrow> string option \<Rightarrow> string \<Rightarrow> string option \<Rightarrow> string list option" where
  "strtok_all 0 s delims t = None"
| "strtok_all (Suc k) s delims t =
     (case strtok_with_delimiters s delims t of
        None \<Rightarrow> None
      | Some (None, t) \<Rightarrow> Some []
      | Some (Some tok, t) \<Rightarrow> map_option ((#) tok) (strtok_all k None delims t))"

definition escape_delims :: "string \<Rightarrow> string \<Rightarrow> string" where
  "escape_delims delims s = concat (map (\<lambda>c. if c \<in> set delims then [REVERSE_SOLIDUS, c] else [c]) s)"

lemma tok_copy_escape:
  assumes "REVERSE_SOLIDUS \<notin> set s" "REVERSE_SOLIDUS \<notin> set delims" "rest = [] \<or> cur rest \<in> set delims"
  shows "tok_copy delims (escape_delims delims s @ rest) = Some (s, rest)"
  using assms(1)
proof (induction s)
  case Nil
  show ?case using assms(2,3) by (cases rest) (auto simp: escape_delims_def)
next
  case (Cons c s)
  then show ?case by (cases "c \<in> set delims") (auto simp: escape_delims_def)
qed

lemma escape_delims_start:
  assumes "s \<noteq> []" "REVERSE_SOLIDUS \<notin> set delims"
  shows "escape_delims delims s \<noteq> []" "dropWhile (\<lambda>c. c \<in> set delims) (escape_delims delims s @ r) = escape_delims delims s @ r"
  using assms by (cases s; auto simp: escape_delims_def)+

text \<open>Tokens that were escaped and written with one delimiter between them are read back.\<close>

fun join_tokens :: "string \<Rightarrow> char \<Rightarrow> string list \<Rightarrow> string" where
  "join_tokens delims d [] = []"
| "join_tokens delims d [x] = escape_delims delims x"
| "join_tokens delims d (x # xs) = escape_delims delims x @ d # join_tokens delims d xs"

lemma join_tokens_Cons:
  "xs \<noteq> [] \<Longrightarrow> join_tokens delims d (x # xs) = escape_delims delims x @ d # join_tokens delims d xs"
  by (cases xs) auto

lemma strtok_next:
  assumes x: "x \<noteq> []" "REVERSE_SOLIDUS \<notin> set x" and d: "d \<in> set delims" "REVERSE_SOLIDUS \<notin> set delims"
    and s: "s = Some (join_tokens delims d (x # xs)) \<or> s = None \<and> t = Some (d # join_tokens delims d (x # xs))"
  shows "strtok_with_delimiters s delims t =
    Some (Some x, if xs = [] then None else Some (d # join_tokens delims d xs))"
proof -
  let ?r = "if xs = [] then [] else d # join_tokens delims d xs"
  have j: "join_tokens delims d (x # xs) = escape_delims delims x @ ?r"
    using join_tokens_Cons [of xs] by simp
  have ne: "join_tokens delims d (x # xs) \<noteq> []" using escape_delims_start(1) [OF x(1) d(2)] j by simp
  have "dropWhile (\<lambda>c. c \<in> set delims) (join_tokens delims d (x # xs)) = join_tokens delims d (x # xs)"
    unfolding j by (rule escape_delims_start(2) [OF x(1) d(2)])
  moreover have "tok_copy delims (join_tokens delims d (x # xs)) = Some (x, ?r)"
    unfolding j by (rule tok_copy_escape [OF x(2) d(2)]) (use d(1) in simp)
  ultimately show ?thesis using s ne by (auto simp: strtok_with_delimiters_def Let_def)
qed

lemma strtok_all_rest:
  assumes "\<forall>x\<in>set xs. x \<noteq> [] \<and> REVERSE_SOLIDUS \<notin> set x" "d \<in> set delims" "REVERSE_SOLIDUS \<notin> set delims"
    and "length xs < k"
  shows "strtok_all k None delims (if xs = [] then None else Some (d # join_tokens delims d xs)) = Some xs"
  using assms(1,4)
proof (induction xs arbitrary: k)
  case Nil
  then show ?case by (cases k) (auto simp: strtok_with_delimiters_def)
next
  case (Cons x xs)
  then obtain k' where k: "k = Suc k'" by (cases k) auto
  have "strtok_with_delimiters None delims (Some (d # join_tokens delims d (x # xs)))
      = Some (Some x, if xs = [] then None else Some (d # join_tokens delims d xs))"
    by (rule strtok_next) (use Cons.prems assms in auto)
  with Cons k show ?case by simp
qed

lemma strtok_roundtrip:
  assumes "\<forall>x\<in>set xs. x \<noteq> [] \<and> REVERSE_SOLIDUS \<notin> set x" "d \<in> set delims" "REVERSE_SOLIDUS \<notin> set delims"
    and "length xs < k"
  shows "strtok_all k (Some (join_tokens delims d xs)) delims t = Some xs"
proof (cases xs)
  case Nil
  then show ?thesis using assms(4) by (cases k) (auto simp: strtok_with_delimiters_def Let_def)
next
  case (Cons x ys)
  obtain k' where k: "k = Suc k'" using assms(4) by (cases k) auto
  have "strtok_with_delimiters (Some (join_tokens delims d (x # ys))) delims t
      = Some (Some x, if ys = [] then None else Some (d # join_tokens delims d ys))"
    by (rule strtok_next) (use assms Cons in auto)
  with strtok_all_rest [of ys d delims k'] assms Cons k show ?thesis by simp
qed

section \<open>Bracket expressions and delimited patterns\<close>

text \<open>The inner loop: to the \<open>]\<close> after the character \<open>d\<close>; \<open>c\<close> is the character before.\<close>

fun cc_inner :: "char \<Rightarrow> char \<Rightarrow> string \<Rightarrow> string option" where
  "cc_inner d c [] = None"
| "cc_inner d c (x # xs) =
     (if x = CHR '']'' \<and> c = d then Some (x # xs)
      else if x = LINE_FEED then None
      else cc_inner d x xs)"

lemma cc_inner_suffix: "cc_inner d c s = Some r \<Longrightarrow> \<exists>p. s = p @ r \<and> r \<noteq> [] \<and> hd r = CHR '']''"
  by (induction d c s rule: cc_inner.induct) (auto split: if_splits intro: exI [of _ "[]"] exI [of _ "_ # _"])

lemma cc_inner_length: "cc_inner d c s = Some r \<Longrightarrow> length r \<le> length s"
  using cc_inner_suffix by fastforce

function cc_loop :: "string \<Rightarrow> string option" where
  "cc_loop [] = None"
| "cc_loop (x # xs) =
     (if x = CHR '']'' then Some (x # xs)
      else if x = LINE_FEED then None
      else if x = CHR ''['' \<and> cur xs \<in> {CHR ''.'', CHR '':'', CHR ''=''}
      then (case cc_inner (cur xs) (peek 1 xs) (drop 1 xs) of
              None \<Rightarrow> None
            | Some r \<Rightarrow> cc_loop (drop 1 r))
      else cc_loop xs)"
  by pat_completeness auto
termination
  by (relation "measure length") (auto dest!: cc_inner_length)

definition character_class :: "string \<Rightarrow> string option" where
  "character_class s =
     (let s = (if cur s = CHR ''^'' then drop 1 s else s);
          s = (if cur s = CHR '']'' then drop 1 s else s)
      in cc_loop s)"

lemma cc_loop_suffix: "cc_loop s = Some r \<Longrightarrow> \<exists>p. s = p @ r \<and> r \<noteq> [] \<and> hd r = CHR '']''"
proof (induction s rule: cc_loop.induct)
  case (2 x xs)
  show ?case
  proof (cases "x = CHR ''['' \<and> cur xs \<in> {CHR ''.'', CHR '':'', CHR ''=''}")
    case True
    then obtain r1 where r1: "cc_inner (cur xs) (peek 1 xs) (drop 1 xs) = Some r1" "cc_loop (drop 1 r1) = Some r"
      using "2.prems" by (auto split: option.splits)
    then obtain p where p: "drop 1 r1 = p @ r" "r \<noteq> []" "hd r = CHR '']''"
      using "2.IH"(1) True by auto
    obtain p1 where "drop 1 xs = p1 @ r1" using cc_inner_suffix [OF r1(1)] by blast
    then have "x # xs = (x # take 1 xs @ p1 @ take 1 r1 @ p) @ r"
      using p(1) by (metis append_Cons append_assoc append_take_drop_id)
    then show ?thesis using p(2,3) by blast
  next
    case False
    then show ?thesis using "2.prems" "2.IH"(2)
      by (auto split: if_splits intro: exI [of _ "[]"] exI [of _ "_ # _"])
  qed
qed simp

lemma character_class_suffix:
  "character_class s = Some r \<Longrightarrow> \<exists>p. s = p @ r \<and> r \<noteq> [] \<and> hd r = CHR '']''"
proof -
  assume "character_class s = Some r"
  then obtain k where "cc_loop (drop k s) = Some r"
    by (auto simp: character_class_def Let_def split: if_splits
        intro: that [of 0] that [of 1] that [of 2] simp del: cc_loop.simps)
  then obtain p where "drop k s = p @ r" "r \<noteq> []" "hd r = CHR '']''" using cc_loop_suffix by blast
  then show ?thesis by (metis append_assoc append_take_drop_id)
qed

text \<open>The loop of \<open>regular_expression\<close>: a message, or the input from where the pattern ends\<close>

function re_scan :: "char \<Rightarrow> string \<Rightarrow> string + string" where
  "re_scan dc [] = Inr []"
| "re_scan dc (c # cs) =
     (if \<not> ((c \<noteq> dc \<or> (dc = REVERSE_SOLIDUS \<and> cur cs = dc)) \<and> c \<noteq> LINE_FEED) then Inr (c # cs)
      else if c = CHR ''['' then
        (case character_class cs of
           None \<Rightarrow> Inl ''Brackets ([]) unbalanced''
         | Some r \<Rightarrow> re_scan dc (drop 1 r))
      else if c = REVERSE_SOLIDUS then
        (if cur cs = LINE_FEED then Inl (''Backslash ('' @ [REVERSE_SOLIDUS] @ '') unexpected'') else re_scan dc (drop 1 cs))
      else re_scan dc cs)"
  by pat_completeness auto
termination
  by (relation "measure (length \<circ> snd)") (auto dest!: character_class_suffix)

definition regular_expression :: "char \<Rightarrow> ed_buffer \<Rightarrow> string res" where
  "regular_expression dc ed =
     (case re_scan dc (input ed) of
        Inl msg \<Rightarrow> throw msg ed
      | Inr rest \<Rightarrow>
          (let len = length (input ed) - length rest
           in (Inr (take len (input ed)), set_input rest ed)))"

text \<open>Where the scan stops: at the delimiter or the newline, after a prefix of the input.\<close>

lemma re_scan_suffix:
  "re_scan dc s = Inr r \<Longrightarrow> \<exists>p. s = p @ r \<and> (r \<noteq> [] \<longrightarrow> hd r = dc \<or> hd r = LINE_FEED)"
proof (induction dc s arbitrary: r rule: re_scan.induct)
  case (2 dc c cs)
  let ?go = "(c \<noteq> dc \<or> (dc = REVERSE_SOLIDUS \<and> cur cs = dc)) \<and> c \<noteq> LINE_FEED"
  consider (stop) "\<not> ?go" | (cls) q where "?go" "c = CHR ''[''" "character_class cs = Some q" "re_scan dc (drop 1 q) = Inr r"
    | (esc) "?go" "c = REVERSE_SOLIDUS" "cur cs \<noteq> LINE_FEED" "re_scan dc (drop 1 cs) = Inr r"
    | (other) "?go" "c \<noteq> CHR ''[''" "c \<noteq> REVERSE_SOLIDUS" "re_scan dc cs = Inr r"
    using "2.prems" by (auto split: if_splits option.splits)
  then show ?case
  proof cases
    case stop
    then have "r = c # cs" "c = dc \<or> c = LINE_FEED" using "2.prems" by (auto split: if_splits)
    then show ?thesis by (intro exI [of _ "[]"]) auto
  next
    case cls
    then obtain p where p: "drop 1 q = p @ r" "r \<noteq> [] \<longrightarrow> hd r = dc \<or> hd r = LINE_FEED" using "2.IH"(1) by auto
    obtain p1 where "cs = p1 @ q" using character_class_suffix [OF cls(3)] by blast
    then have "c # cs = (c # p1 @ take 1 q @ p) @ r" using p(1) by (metis append_Cons append_assoc append_take_drop_id)
    with p(2) show ?thesis by blast
  next
    case esc
    then obtain p where p: "drop 1 cs = p @ r" "r \<noteq> [] \<longrightarrow> hd r = dc \<or> hd r = LINE_FEED" using "2.IH"(2) by auto
    then have "c # cs = (c # take 1 cs @ p) @ r" by (metis append_Cons append_assoc append_take_drop_id)
    with p(2) show ?thesis by blast
  next
    case other
    then obtain p where "cs = p @ r" "r \<noteq> [] \<longrightarrow> hd r = dc \<or> hd r = LINE_FEED" using "2.IH"(3) by auto
    then show ?thesis by (intro exI [of _ "c # p"]) auto
  qed
qed simp

lemma regular_expression_split:
  assumes "regular_expression dc ed = (Inr pat, ed')"
  shows "input ed = pat @ input ed'"
    and "input ed' = [] \<or> hd (input ed') = dc \<or> hd (input ed') = LINE_FEED"
proof -
  obtain rest where r: "re_scan dc (input ed) = Inr rest" "ed' = set_input rest ed"
    "pat = take (length (input ed) - length rest) (input ed)"
    using assms by (auto simp: regular_expression_def throw_def Let_def split: sum.splits)
  then obtain p where "input ed = p @ rest" "rest \<noteq> [] \<longrightarrow> hd rest = dc \<or> hd rest = LINE_FEED"
    using re_scan_suffix by blast
  with r(2,3) show "input ed = pat @ input ed'"
    "input ed' = [] \<or> hd (input ed') = dc \<or> hd (input ed') = LINE_FEED" by auto
qed

text \<open>A pattern without brackets, escapes and delimiters is taken up to the delimiter.\<close>

lemma re_scan_plain:
  "set p \<inter> {dc, LINE_FEED, CHR ''['', REVERSE_SOLIDUS} = {} \<Longrightarrow> dc \<noteq> REVERSE_SOLIDUS \<Longrightarrow>
     d = dc \<or> d = LINE_FEED \<Longrightarrow> re_scan dc (p @ d # r) = Inr (d # r)"
  by (induction p) auto

section \<open>Quoting for the shell\<close>

text \<open>The loop after the leading apostrophes\<close>

fun quote_body :: "string \<Rightarrow> string" where
  "quote_body [] = []"
| "quote_body (c # fn) =
     (if c = APOSTROPHE
      then (if fn \<noteq> [] then [APOSTROPHE, REVERSE_SOLIDUS, APOSTROPHE, APOSTROPHE]
            else [APOSTROPHE, REVERSE_SOLIDUS, APOSTROPHE])
      else (if fn \<noteq> [] then [c] else [c, APOSTROPHE])) @ quote_body fn"

fun quote_leading :: "string \<Rightarrow> string" where
  "quote_leading (c # fn) =
     (if c = APOSTROPHE then [REVERSE_SOLIDUS, APOSTROPHE] @ quote_leading fn
      else APOSTROPHE # quote_body (c # fn))"
| "quote_leading [] = []"

definition shell_quote :: "string \<Rightarrow> string" where
  "shell_quote fn = (if fn = [] then [APOSTROPHE, APOSTROPHE] else quote_leading fn)"

text \<open>
  The word a POSIX shell makes of a quoted word: between apostrophes every character stands for
  itself, outside a backslash takes the next character; any other character outside would be
  subject to interpretation by the shell and has no result here, nor has an open quote.
\<close>

fun shell_word :: "bool \<Rightarrow> string \<Rightarrow> string option" where
  "shell_word inside [] = (if inside then None else Some [])"
| "shell_word inside (c # cs) =
     (if c = APOSTROPHE then shell_word (\<not> inside) cs
      else if inside then map_option ((#) c) (shell_word True cs)
      else if c = REVERSE_SOLIDUS then
        (case cs of [] \<Rightarrow> None | d # ds \<Rightarrow> map_option ((#) d) (shell_word False ds))
      else None)"

lemma shell_word_body: "fn \<noteq> [] \<Longrightarrow> shell_word True (quote_body fn) = Some fn"
proof (induction fn)
  case (Cons c fn)
  then show ?case by (cases fn) auto
qed simp

lemma shell_word_leading: "shell_word False (quote_leading fn) = Some fn"
  by (induction fn rule: quote_leading.induct) (auto simp: shell_word_body simp del: quote_body.simps)

lemma shell_quote_roundtrip: "shell_word False (shell_quote fn) = Some fn"
  using shell_word_leading by (auto simp: shell_quote_def)

text \<open>The buffer \<open>shell_quote\<close> allocates: \<open>quoted_len\<close> plus what each step adds.\<close>

lemma quote_body_length:
  "length (quote_body fn) \<le> length fn + 3 * length (filter (\<lambda>c. c = APOSTROPHE) fn) + 1"
  by (induction fn rule: quote_body.induct) auto

end
