(* ===== verification/Stream_IO.thy ===== *)
theory Stream_IO
  imports Edit_Refine Parse_Text
begin

text \<open>
  Streams (\<open>io.c\<close>): reading a line, extending it over continuation lines, reading a stream into
  the editor buffer, writing lines to a stream; and the deque of texts of \<open>buffer.c\<close> that holds
  the output of an external filter.  Encryption is the subject of another theory: here
  \<open>have_key\<close> is not set.  Of the errors of a stream, interrupted calls (which the code retries)
  and broken pipes are not modelled.
\<close>

section \<open>Reading lines\<close>

datatype getc_result = GotChar char | GotEof | GotError

definition getc :: "stream_id \<Rightarrow> ed_buffer \<Rightarrow> getc_result \<times> ed_buffer" where
  "getc fp ed =
     (case sys_call ed of
        (False, ed) \<Rightarrow> (GotError, ed)
      | (True, ed) \<Rightarrow>
          (let f = streams ed fp in
           if f_eof f \<or> length (f_data f) \<le> f_pos f
           then (GotEof, upd_stream fp (f_eof_update (\<lambda>_. True)) ed)
           else (GotChar (f_data f ! f_pos f), upd_stream fp (f_pos_update Suc) ed)))"

definition feof :: "stream_id \<Rightarrow> ed_buffer \<Rightarrow> bool" where
  "feof fp ed = f_eof (streams ed fp)"

definition clearerr :: "stream_id \<Rightarrow> ed_buffer \<Rightarrow> ed_buffer" where
  "clearerr fp = upd_stream fp (f_eof_update (\<lambda>_. False))"

datatype line_end = Newline | EndOfFile | ReadError

text \<open>The loop of \<open>get_stream_line\<close>.  Fuel: the characters left in the stream, and one more.\<close>

primrec get_chars :: "nat \<Rightarrow> stream_id \<Rightarrow> string \<Rightarrow> ed_buffer \<Rightarrow> (string \<times> line_end) res" where
  "get_chars 0 fp tb ed = (Inl FATAL, ed)"
| "get_chars (Suc k) fp tb ed =
     (case getc fp ed of
        (GotEof, ed) \<Rightarrow> (Inr (tb, EndOfFile), ed)
      | (GotError, ed) \<Rightarrow> (Inr (tb, ReadError), ed)
      | (GotChar c, ed) \<Rightarrow>
          if c = LINE_FEED then (Inr (tb, Newline), ed)
          else
            let ed = set_input_is_binary (input_is_binary (state ed) \<or> c = NUL) ed
            in if SIZE_MAX - 2 \<le> int (length tb + 1) then throw ''Line too long'' ed
               else get_chars k fp (tb @ [c]) ed)"

definition line_fuel :: "stream_id \<Rightarrow> ed_buffer \<Rightarrow> nat" where
  "line_fuel fp ed = length (f_data (streams ed fp)) - f_pos (streams ed fp) + 1"

definition get_stream_line :: "stream_id \<Rightarrow> ed_buffer \<Rightarrow> string res" where
  "get_stream_line fp ed =
     andThen (get_chars (line_fuel fp ed) fp [] ed) (\<lambda>(tb, e) ed.
       if feof fp ed \<and> tb = [] then throw ''End-of-file unexpected'' ed
       else if \<not> feof fp ed \<and> e = ReadError then throw ''File read error'' ed
       else if fp = std_in ed then (Inr (tb @ (if e = Newline then [LINE_FEED] else [])), ed)
       else (Inr (tb @ [LINE_FEED]), set_newline_missing (e \<noteq> Newline) ed))"

definition get_stdin_line :: "ed_buffer \<Rightarrow> string res" where
  "get_stdin_line ed = get_stream_line (std_in ed) ed"

abbreviation inc_line_no :: "ed_buffer \<Rightarrow> ed_buffer" where
  "inc_line_no \<equiv> exec_update (line_no_update (\<lambda>n. n + 1))"

text \<open>The loop of \<open>get_extended_line\<close>: \<open>xl\<close> is the line so far, \<open>p\<close> the count of backslashes
  before its last character.  A null \<open>ed->input\<close> is the empty list.\<close>

primrec extend_loop :: "nat \<Rightarrow> bool \<Rightarrow> bool \<Rightarrow> string \<Rightarrow> nat \<Rightarrow> ed_buffer \<Rightarrow> string res" where
  "extend_loop 0 nonl escape xl p ed = (Inl FATAL, ed)"
| "extend_loop (Suc k) nonl escape xl p ed =
     (if (if nonl then 1 < length xl \<and> xl ! (length xl - 2) = REVERSE_SOLIDUS else odd p)
      then
        let len = length xl - (if escape then (p + 1) div 2 else 1);
            xl = take (len - 1) xl @ [LINE_FEED]
        in case get_stdin_line ed of
             (Inl e, ed) \<Rightarrow> (Inl e, set_input [] ed)
           | (Inr line, ed) \<Rightarrow>
               let ed = set_input line ed in
               if last line \<noteq> LINE_FEED then throw ''End-of-file unexpected'' ed
               else if SIZE_MAX - 1 < int (length line) then throw ''Memory request too big'' ed
               else
                 let xl = xl @ line
                 in extend_loop k nonl escape xl (trailing_escapes xl (length xl - 1)) (inc_line_no ed)
      else (Inr xl, ed))"

definition get_extended_line :: "bool \<Rightarrow> bool \<Rightarrow> bool \<Rightarrow> ed_buffer \<Rightarrow> string res" where
  "get_extended_line nonl escape nt ed =
     (let xl = (if nt then cstr (input ed)
                else takeWhile (\<lambda>c. c \<noteq> LINE_FEED) (input ed) @ [LINE_FEED]);
          p = (if xl \<noteq> [] then trailing_escapes xl (length xl - 1) else 0)
      in andThen (extend_loop (line_fuel (std_in ed) ed + 1) nonl escape xl p ed) (\<lambda>xl ed.
           (Inr (if nonl then butlast xl else xl), ed)))"

section \<open>File names\<close>

definition file_name :: "ed_buffer \<Rightarrow> string res" where
  "file_name ed =
     andThen (get_extended_line True False True ed) (\<lambda>xl ed.
       if RESTRICTED \<in> opt (exec ed) \<and> (cstr xl = ''..'' \<or> CHR ''/'' \<in> set (cstr xl))
       then throw ''Access restricted to working directory'' ed
       else (Inr (cstr xl), set_input (drop (length xl + 1) (input ed)) ed))"

definition is_valid_name :: "string \<Rightarrow> ed_buffer \<Rightarrow> string res" where
  "is_valid_name name ed =
     (let ed = set_input (if name \<noteq> [] \<and> last name = LINE_FEED then name else name @ [LINE_FEED]) ed
      in andThen (file_name ed) (\<lambda>s ed.
           if s \<noteq> name then throw ''Invalid file name'' ed else (Inr s, ed)))"

section \<open>Reading a stream into the buffer\<close>

text \<open>\<open>PUT_BUFFER_LINE\<close>: the next node and the undo record\<close>

definition PUT_BUFFER_LINE :: "node \<Rightarrow> string \<Rightarrow> nat option \<Rightarrow> ed_buffer \<Rightarrow> (node \<times> nat option) res" where
  "PUT_BUFFER_LINE lp tb up ed =
     (case put_buffer_line tb (length tb) (spl1 ed) of
        (Inl _, ed) \<Rightarrow> (Inl ERR, spl0 ed)
      | (Inr _, ed) \<Rightarrow>
          (let lp = q_forw (nodes (core ed) lp)
           in andThen (APPEND_UNDO_NODE lp up (dot (state ed)) ed) (\<lambda>i ed.
                (Inr (lp, Some i), spl0 ed))))"

text \<open>The loop ends when \<open>get_stream_line\<close> returns a null pointer; fuel as for a line.\<close>

primrec read_loop :: "nat \<Rightarrow> stream_id \<Rightarrow> node \<Rightarrow> nat option \<Rightarrow> int \<Rightarrow> ed_buffer \<Rightarrow> int res" where
  "read_loop 0 fp lp up sz ed = (Inl FATAL, ed)"
| "read_loop (Suc k) fp lp up sz ed =
     (case get_stream_line fp ed of
        (Inl _, ed) \<Rightarrow> (Inr sz, ed)
      | (Inr tb, ed) \<Rightarrow>
          andThen (PUT_BUFFER_LINE lp tb up ed) (\<lambda>(lp, up) ed.
            read_loop k fp lp up (sz + int (length tb)) ed))"

definition print_err :: "string \<Rightarrow> ed_buffer \<Rightarrow> ed_buffer" where
  "print_err s = std_err_update (\<lambda>e. e @ s)"

text \<open>The end of \<open>read_stream\<close> and \<open>read_stream_r\<close>: the flags of the buffer and the warning\<close>

definition read_finish :: "bool \<Rightarrow> int \<Rightarrow> ed_buffer \<Rightarrow> int res" where
  "read_finish stream_appended sz ed =
     (let s = state ed;
          ed = set_is_empty (is_empty s \<and> sz = 0) ed;
          newline_inserted = (if stream_appended then newline_appended s \<and> is_binary s else newline_missing s);
          ed = set_newline_appended (if stream_appended then newline_missing s else newline_appended s) ed;
          ed = set_is_binary (is_binary s \<or> input_is_binary s) ed;
          sz = (if is_binary (state ed) \<and> stream_appended \<and> newline_appended (state ed) then sz - 1 else sz);
          ed = (if newline_inserted \<and> 0 < sz then print_err (''Newline inserted'' @ [LINE_FEED]) ed
                else if \<not> is_binary (state ed) \<and> newline_appended (state ed) \<and> 0 < sz
                then print_err (''Newline appended'' @ [LINE_FEED]) ed else ed)
      in (Inr sz, ed))"

definition read_stream :: "stream_id \<Rightarrow> int \<Rightarrow> ed_buffer \<Rightarrow> int res" where
  "read_stream fp after ed =
     (let (lp, ed) = get_line_node after ed;
          stream_appended = (after = lines (state ed));
          ed = set_newline_missing False (set_input_is_binary False (set_dot after ed))
      in andThen (read_loop (line_fuel fp ed + 1) fp lp None 0 ed) (\<lambda>sz ed.
           if feof fp ed then read_finish stream_appended sz (clearerr fp ed)
           else (Inl ERR, clearerr fp ed)))"

section \<open>Writing lines to a stream\<close>

fun put_stream_line :: "stream_id \<Rightarrow> string \<Rightarrow> ed_buffer \<Rightarrow> unit res" where
  "put_stream_line fp [] ed = (Inr (), ed)"
| "put_stream_line fp (c # s) ed =
     (case sys_call ed of
        (False, ed) \<Rightarrow> throw ''File write error'' ed
      | (True, ed) \<Rightarrow> put_stream_line fp s (upd_stream fp (stream_write [c]) ed))"

primrec write_loop :: "nat \<Rightarrow> stream_id \<Rightarrow> node \<Rightarrow> int \<Rightarrow> ed_buffer \<Rightarrow> int res" where
  "write_loop 0 fp lp sz ed = (Inr sz, ed)"
| "write_loop (Suc n) fp lp sz ed =
     andThen (get_buffer_line lp ed) (\<lambda>s ed.
       let len = ln_len (nodes (core ed) lp);
           append_newline = \<not> (n = 0 \<and> is_binary (state ed) \<and> newline_appended (state ed));
           nl = (if append_newline then [LINE_FEED] else [])
       in if u64 (OFF_T_MAX - int len - int (length nl)) \<le> u64 sz then throw ''File too big'' ed
          else
            (case put_stream_line fp (take len s @ nl) ed of
               (Inl e, ed) \<Rightarrow> (Inl e, clearerr fp ed)
             | (Inr _, ed) \<Rightarrow>
                 write_loop n fp (q_forw (nodes (core ed) lp)) (sz + int (len + length nl)) ed))"

definition write_stream :: "stream_id \<Rightarrow> node \<Rightarrow> int \<Rightarrow> ed_buffer \<Rightarrow> int res" where
  "write_stream fp lp n ed = write_loop (nat n) fp lp 0 ed"

text \<open>\<open>append_stream\<close> copies in chunks of \<open>BUFSIZ\<close>; \<open>last_byte\<close> is the last byte written.\<close>

definition BUFSIZ :: nat where "BUFSIZ = 8192"

primrec copy_chunks :: "nat \<Rightarrow> stream_id \<Rightarrow> stream_id \<Rightarrow> nat \<Rightarrow> char option \<Rightarrow> ed_buffer \<Rightarrow> (nat \<times> char option) res" where
  "copy_chunks 0 dest src sz last_byte ed = (Inl FATAL, ed)"
| "copy_chunks (Suc k) dest src sz last_byte ed =
     (let (buf, f) = stream_read BUFSIZ (streams ed src);
          ed = upd_stream src (\<lambda>_. f) ed
      in if buf = [] then (Inr (sz, last_byte), ed)
         else case sys_call ed of
           (False, ed) \<Rightarrow> throw ''File write error'' ed
         | (True, ed) \<Rightarrow>
             copy_chunks k dest src (sz + length buf) (Some (last buf))
               (upd_stream dest (stream_write buf) ed))"

definition append_stream :: "stream_id \<Rightarrow> stream_id \<Rightarrow> ed_buffer \<Rightarrow> nat res" where
  "append_stream dest src ed =
     (case copy_chunks (line_fuel src ed + 1) dest src 0 None ed of
        (Inl e, ed) \<Rightarrow> (Inl e, clearerr dest ed)
      | (Inr (sz, last_byte), ed) \<Rightarrow>
          if feof src ed then
            (if last_byte \<noteq> None \<and> last_byte \<noteq> Some LINE_FEED
             then case sys_call ed of
                    (False, ed) \<Rightarrow> (Inl ERR, clearerr dest (set_err ''File write error'' ed))
                  | (True, ed) \<Rightarrow> (Inr sz, clearerr src (upd_stream dest (stream_write [LINE_FEED]) ed))
             else (Inr sz, clearerr src ed))
          else (Inl ERR, clearerr src (set_err ''File read error'' ed)))"

end
