(* ===== verification/Line_Input.thy ===== *)
theory Line_Input
  imports Edit_Spec Stream_IO
begin

text \<open>
  Lines put into the buffer one after the other: from a stream (\<open>read_stream\<close>), from the input
  (\<open>append_lines\<close>), as the join of a range (\<open>join_lines\<close>).

  \<open>typing ed ns0 A B ta tb new ts up\<close>: the lines \<open>new\<close> with the texts \<open>ts\<close> have been put between
  the lines \<open>A\<close> and \<open>B\<close>, and \<open>up\<close> is their undo record.  The locale \<open>line_putter\<close> states what
  putting one line promises; its interpretations are the ways the code puts a line.
\<close>

section \<open>Lines being put\<close>

definition typing ::
  "ed_buffer \<Rightarrow> node list \<Rightarrow> node list \<Rightarrow> node list \<Rightarrow> string list \<Rightarrow> string list \<Rightarrow> node list \<Rightarrow> string list \<Rightarrow> nat option \<Rightarrow> bool" where
  "typing ed ns0 A B ta tb new ts up \<longleftrightarrow>
     adding ed ns0 A B new up \<and> disk_inv ed \<and> sys_all_ok ed \<and>
     buffer_text ed A = ta \<and> buffer_text ed B = tb \<and> buffer_text ed new = ts \<and>
     dot (state ed) = int (length (A @ new))"

text \<open>Room for \<open>k\<close> more lines of \<open>n\<close> bytes in all\<close>

definition room :: "nat \<Rightarrow> nat \<Rightarrow> ed_buffer \<Rightarrow> bool" where
  "room k n ed \<longleftrightarrow> int (length (f_data (disk ed)) + n) < OFF_T_MAX \<and> lines (state ed) + int k \<le> OFF_T_MAX"

definition put_frame :: "ed_buffer \<Rightarrow> ed_buffer \<Rightarrow> bool" where
  "put_frame ed ed' \<longleftrightarrow>
     disk_frame ed (set_input (input ed) ed') \<and> state1 ed' = state1 ed \<and> exec ed' = exec ed \<and> mutex ed' = mutex ed \<and>
     global_buffer (core ed') = global_buffer (core ed)"

lemma put_frame_refl [simp]: "put_frame ed ed"
  by (simp add: put_frame_def disk_frame_def)

lemma put_frame_trans: "put_frame a b \<Longrightarrow> put_frame b c \<Longrightarrow> put_frame a c"
  by (auto simp: put_frame_def disk_frame_def)

lemma disk_frame_undo_node: "disk_frame ed (snd (append_undo_node ty h t ed))"
  by (auto simp: append_undo_node_def throw_def Let_def case_prod_beta spl1_def spl0_def split: bool.split)

lemma disk_frame_APPEND: "disk_frame ed (snd (APPEND_UNDO_NODE lp up addr ed))"
  using disk_frame_undo_node [of ed UADD addr addr]
  by (auto simp: APPEND_UNDO_NODE_def spl0_def split: option.split prod.split sum.split)

lemma buffer_text_append [simp]: "buffer_text ed (xs @ ys) = buffer_text ed xs @ buffer_text ed ys"
  by (simp add: buffer_text_def)

lemma buffer_text_same:
  "nodes (core e') = nodes (core e) \<Longrightarrow> f_data (disk e') = f_data (disk e) \<Longrightarrow> buffer_text e' = buffer_text e"
  by (rule ext) (simp add: buffer_text_def node_text_def)

lemma disk_inv_undo: "core e2 = (core e)\<lparr>undo_queue := q\<rparr> \<Longrightarrow> streams e2 = streams e \<Longrightarrow> disk_inv e2 = disk_inv e"
  by (simp add: disk_inv_def node_stored_def)

text \<open>What \<open>put_buffer_line\<close> gives, and the undo record that follows it, whatever was done to
  marks and caches in between\<close>

lemma typing_put:
  assumes ty: "typing ed ns0 A B ta tb new ts up" and r: "room 1 m ed" "m \<le> length t"
  obtains lp ed1 where "put_buffer_line t (Suc m) ed = (Inr (drop (Suc m) t), ed1)" "lp = next_node (core ed)"
    "buf_inv ed1 (A @ new @ lp # B)" "disk_inv ed1" "sys_all_ok ed1"
    "state ed1 = (state ed)\<lparr>dot := dot (state ed) + 1, lines := lines (state ed) + 1\<rparr>"
    "f_data (disk ed1) = f_data (disk ed) @ take m t"
    "state1 ed1 = state1 ed" "exec ed1 = exec ed" "mutex ed1 = mutex ed" "input ed1 = input ed"
    "core ed1 = (core ed)\<lparr>nodes := put_heap lp m (int (length (f_data (disk ed))))
          (last (line_head # A @ new)) (nodes (core ed)), next_node := Suc lp, seek_on_write := False,
        offset := int (length (f_data (disk ed)) + m)\<rparr>"
    "buffer_text ed1 (A @ new @ lp # B) = ta @ ts @ take m t # tb"
proof -
  let ?ns = "A @ new @ B" and ?lp = "next_node (core ed)"
  have inv: "buf_inv ed ?ns" "disk_inv ed" "adding ed ns0 A B new up" "sys_all_ok ed"
    and d: "dot (state ed) = int (length (A @ new))"
    using ty by (simp_all add: typing_def adding_def)
  have at: "node_at ?ns (dot (state ed)) = last (line_head # A @ new)"
    using node_at_segments(1) [of ?ns "A @ new" "[]" B] d by simp
  have ins: "insert_after (dot (state ed)) [?lp] ?ns = A @ new @ ?lp # B" using d by (simp add: insert_after_def)
  have a: "0 \<le> dot (state ed)" "dot (state ed) \<le> lines (state ed)" using inv(1) d by (simp_all add: buf_inv_def)
  have room: "room_for (Suc m) ed" "lines (state ed) < OFF_T_MAX" using r inv(4) by (simp_all add: room_for_def room_def)
  have p: "0 < ?lp" using inv(1) by (simp add: buf_inv_def)
  show ?thesis
  proof (rule put_buffer_line_ok [OF inv(1,2) a room r(2)])
    fix ed1
    assume e: "put_buffer_line t (Suc m) ed = (Inr (drop (Suc m) t), ed1)"
      "buf_inv ed1 (insert_after (dot (state ed)) [?lp] ?ns)" "disk_inv ed1"
      "core ed1 = (core ed)\<lparr>nodes := put_heap ?lp m (int (length (f_data (disk ed)))) (node_at ?ns (dot (state ed))) (nodes (core ed)),
          next_node := Suc ?lp, seek_on_write := False, offset := int (length (f_data (disk ed)) + m)\<rparr>"
      "state ed1 = (state ed)\<lparr>dot := dot (state ed) + 1, lines := lines (state ed) + 1\<rparr>"
      "f_data (disk ed1) = f_data (disk ed) @ take m t" "sys_all_ok ed1"
      "state1 ed1 = state1 ed" "exec ed1 = exec ed" "mutex ed1 = mutex ed" "input ed1 = input ed"
    have new: "node_text ed1 ?lp = take m t" using e(4,6) r(2) p by (simp add: node_text_def line_head_def)
    have old: "buffer_text ed1 ?ns = buffer_text ed ?ns"
      by (rule buffer_text_cong [where extra = "take m t"]) (use inv e(4,6) in \<open>auto simp: buf_inv_def\<close>)
    have "buffer_text ed1 A = ta" "buffer_text ed1 new = ts" "buffer_text ed1 B = tb"
      using old ty unfolding typing_def by (auto simp: buffer_text_def)
    then have "buffer_text ed1 (A @ new @ ?lp # B) = ta @ ts @ take m t # tb"
      using new by (simp add: buffer_text_def)
    then show ?thesis using that [OF e(1) refl] e at ins by (simp del: last.simps)
  qed
qed

text \<open>States that differ from \<open>e\<close> in marks, caches and what the buffer does not depend on\<close>

definition same_buffer :: "ed_buffer \<Rightarrow> ed_buffer \<Rightarrow> node list \<Rightarrow> bool" where
  "same_buffer e e' ns \<longleftrightarrow>
     buf_inv e' ns \<and> disk_inv e' \<and> sys_all_ok e' \<and> state1 e' = state1 e \<and>
     dot (state e') = dot (state e) \<and> lines (state e') = lines (state e) \<and>
     nodes (core e') = nodes (core e) \<and> next_node (core e') = next_node (core e) \<and>
     undo_queue (core e') = undo_queue (core e) \<and> core_fp (core e') = core_fp (core e) \<and> f_data (streams e' (core_fp (core e))) = f_data (disk e)"

lemma typing_undo:
  assumes ty: "typing ed ns0 A B ta tb new ts up" and lp: "lp = next_node (core ed)"
    and e1: "nodes (core edp) = put_heap lp m seek (last (line_head # A @ new)) (nodes (core ed))"
      "next_node (core edp) = Suc lp" "undo_queue (core edp) = undo_queue (core ed)" "state1 edp = state1 ed"
      "dot (state edp) = dot (state ed) + 1"
    and tx: "buffer_text edp (A @ new @ lp # B) = ta @ ts @ t # tb"
    and same: "same_buffer edp e (A @ new @ lp # B)"
  obtains i e2 q where "APPEND_UNDO_NODE lp up (dot (state edp)) e = (Inr i, e2)"
    "typing e2 ns0 A B ta tb (new @ [lp]) (ts @ [t]) (Some i)"
    "core e2 = (core e)\<lparr>undo_queue := q\<rparr>" "state e2 = state e" "state1 e2 = state1 e" "streams e2 = streams e"
    "exec e2 = exec e" "mutex e2 = mutex e" "input e2 = input e" "sys_all_ok e2"
proof -
  have ad: "adding ed ns0 A B new up" and len: "length ta = length A" "length ts = length new" "length tb = length B"
    and d: "dot (state ed) = int (length (A @ new))"
    using ty by (auto simp: typing_def buffer_text_def)
  note s = same [unfolded same_buffer_def]
  obtain i e2 q where e2: "APPEND_UNDO_NODE lp up (dot (state edp)) e = (Inr i, e2)"
     "adding e2 ns0 A B (new @ [lp]) (Some i)" "core e2 = (core e)\<lparr>undo_queue := q\<rparr>" "state e2 = state e"
     "state1 e2 = state1 e" "streams e2 = streams e" "exec e2 = exec e" "mutex e2 = mutex e" "input e2 = input e" "sys_all_ok e2"
    using adding_step [OF ad lp, of e m seek "dot (state edp)"] s e1 d by (auto simp del: last.simps append_assoc)
  have "buffer_text e2 = buffer_text edp" by (rule buffer_text_same) (use s e2(3,6) in simp_all)
  then have "buffer_text e2 A = ta" "buffer_text e2 (new @ [lp]) = ts @ [t]" "buffer_text e2 B = tb"
    using tx len by (simp_all add: buffer_text_def)
  moreover have "disk_inv e2" using s disk_inv_undo [OF e2(3,6)] by simp
  moreover have "dot (state e2) = int (length (A @ new @ [lp]))" using s e1(5) e2(4) d by simp
  ultimately have "typing e2 ns0 A B ta tb (new @ [lp]) (ts @ [t]) (Some i)"
    using e2(2,10) by (simp add: typing_def)
  with that e2 show ?thesis by blast
qed

section \<open>The contract of a way to put lines\<close>

text \<open>\<open>put lp t up\<close>: put the line \<open>t\<close>, with its newline, after the node \<open>lp\<close>, and record it.\<close>

locale line_putter =
  fixes put :: "node \<Rightarrow> string \<Rightarrow> nat option \<Rightarrow> ed_buffer \<Rightarrow> (node \<times> nat option) res"
  assumes put_line: "typing ed ns0 A B ta tb new ts up \<Longrightarrow> room 1 (length t) ed \<Longrightarrow>
     \<exists>i ed'. put (last (line_head # A @ new)) (t @ [LINE_FEED]) up ed = (Inr (next_node (core ed), Some i), ed') \<and>
       typing ed' ns0 A B ta tb (new @ [next_node (core ed)]) (ts @ [t]) (Some i) \<and> put_frame ed ed' \<and>
       f_data (disk ed') = f_data (disk ed) @ t \<and> lines (state ed') = lines (state ed) + 1"

primrec put_all ::
  "(node \<Rightarrow> string \<Rightarrow> nat option \<Rightarrow> ed_buffer \<Rightarrow> (node \<times> nat option) res) \<Rightarrow> string list \<Rightarrow> node \<Rightarrow> nat option \<Rightarrow> ed_buffer \<Rightarrow>
   (node \<times> nat option) res" where
  "put_all put [] lp up ed = (Inr (lp, up), ed)"
| "put_all put (t # ts) lp up ed = andThen (put lp (t @ [LINE_FEED]) up ed) (\<lambda>(lp, up) ed. put_all put ts lp up ed)"

abbreviation total_length :: "string list \<Rightarrow> nat" where
  "total_length ts \<equiv> length (concat ts)"

lemma last_snoc_node: "last (line_head # A @ new @ [lp]) = lp"
  by simp

context line_putter begin

lemma put_all_ok:
  "typing ed ns0 A B ta tb new ts up \<Longrightarrow> room (length us) (total_length us) ed \<Longrightarrow>
     \<exists>new' up' ed'. put_all put us (last (line_head # A @ new)) up ed = (Inr (last (line_head # A @ new @ new'), up'), ed') \<and>
       typing ed' ns0 A B ta tb (new @ new') (ts @ us) up' \<and> put_frame ed ed' \<and>
       f_data (disk ed') = f_data (disk ed) @ concat us \<and> lines (state ed') = lines (state ed) + int (length us)"
proof (induction us arbitrary: ed new ts up)
  case Nil
  then show ?case by (intro exI [of _ "[]"]) (simp add: put_frame_refl)
next
  case (Cons u us)
  have "room 1 (length u) ed" using Cons.prems(2) by (simp add: room_def)
  from put_line [OF Cons.prems(1) this]
  obtain i e where e: "put (last (line_head # A @ new)) (u @ [LINE_FEED]) up ed = (Inr (next_node (core ed), Some i), e)"
    "typing e ns0 A B ta tb (new @ [next_node (core ed)]) (ts @ [u]) (Some i)" "put_frame ed e"
    "f_data (disk e) = f_data (disk ed) @ u" "lines (state e) = lines (state ed) + 1" by blast
  have "room (length us) (total_length us) e" using Cons.prems(2) e(4,5) by (simp add: room_def)
  from Cons.IH [OF e(2) this]
  obtain new' up' ed' where r: "put_all put us (next_node (core ed)) (Some i) e
      = (Inr (last (line_head # A @ new @ next_node (core ed) # new'), up'), ed')"
    "typing ed' ns0 A B ta tb (new @ next_node (core ed) # new') (ts @ u # us) up'" "put_frame e ed'"
    "f_data (disk ed') = f_data (disk e) @ concat us" "lines (state ed') = lines (state e) + int (length us)"
    by (auto simp: last_snoc_node simp del: last.simps)
  have "put_all put (u # us) (last (line_head # A @ new)) up ed
      = (Inr (last (line_head # A @ new @ next_node (core ed) # new'), up'), ed')"
    using e(1) r(1) by simp
  with r(2) put_frame_trans [OF e(3) r(3)] r(4,5) e(4,5) show ?case
    by (intro exI [of _ "next_node (core ed) # new'"] exI [of _ up'] exI [of _ ed']) simp
qed

end

section \<open>\<open>PUT_BUFFER_LINE\<close>\<close>

lemma typing_spl [simp]:
  "typing (spl1 ed) ns0 A B ta tb new ts up = typing ed ns0 A B ta tb new ts up"
  "typing (spl0 ed) ns0 A B ta tb new ts up = typing ed ns0 A B ta tb new ts up"
  using adding_cong [of "spl1 ed" ed ns0 A B new up] adding_cong [of "spl0 ed" ed ns0 A B new up]
  by (simp_all add: typing_def)

lemma adding_forw:
  assumes "buf_inv e (A @ new @ lp # B)"
  shows "q_forw (nodes (core e) (last (line_head # A @ new))) = lp"
proof (cases "A @ new" rule: rev_cases)
  case Nil
  then show ?thesis using ring_forw [of "nodes (core e)" "A @ new @ lp # B" 0] assms by (auto simp: buf_inv_def)
next
  case (snoc ys y)
  then have eq: "A @ new @ lp # B = ys @ y # lp # B" by (metis append.assoc append_Cons append_Nil)
  have "ring (nodes (core e)) (A @ new @ lp # B)" using assms by (simp add: buf_inv_def)
  then have "ring (nodes (core e)) (ys @ y # lp # B)" unfolding eq .
  with ring_successor [of "nodes (core e)" ys y lp B] snoc show ?thesis by simp
qed

lemma PUT_BUFFER_LINE_ok:
  assumes ty: "typing ed ns0 A B ta tb new ts up" and r: "room 1 (length t) ed"
  shows "\<exists>i ed'. PUT_BUFFER_LINE (last (line_head # A @ new)) (t @ [LINE_FEED]) up ed = (Inr (next_node (core ed), Some i), ed') \<and>
       typing ed' ns0 A B ta tb (new @ [next_node (core ed)]) (ts @ [t]) (Some i) \<and> put_frame ed ed' \<and>
       f_data (disk ed') = f_data (disk ed) @ t \<and> state ed' = (state ed)\<lparr>dot := dot (state ed) + 1, lines := lines (state ed) + 1\<rparr> \<and> input ed' = input ed"
proof -
  have ty1: "typing (spl1 ed) ns0 A B ta tb new ts up" using ty by simp
  have r1: "room 1 (length t) (spl1 ed)" using r by (simp add: room_def spl1_def)
  show ?thesis
  proof (rule typing_put [OF ty1 r1, of "t @ [LINE_FEED]"])
    fix lp ed1
    assume p: "put_buffer_line (t @ [LINE_FEED]) (Suc (length t)) (spl1 ed) = (Inr (drop (Suc (length t)) (t @ [LINE_FEED])), ed1)"
      "lp = next_node (core (spl1 ed))" "buf_inv ed1 (A @ new @ lp # B)" "disk_inv ed1" "sys_all_ok ed1"
      "state ed1 = (state (spl1 ed))\<lparr>dot := dot (state (spl1 ed)) + 1, lines := lines (state (spl1 ed)) + 1\<rparr>"
      "f_data (disk ed1) = f_data (disk (spl1 ed)) @ take (length t) (t @ [LINE_FEED])"
      "state1 ed1 = state1 (spl1 ed)" "exec ed1 = exec (spl1 ed)" "mutex ed1 = mutex (spl1 ed)" "input ed1 = input (spl1 ed)"
      "core ed1 = (core (spl1 ed))\<lparr>nodes := put_heap lp (length t) (int (length (f_data (disk (spl1 ed)))))
          (last (line_head # A @ new)) (nodes (core (spl1 ed))), next_node := Suc lp, seek_on_write := False,
        offset := int (length (f_data (disk (spl1 ed))) + length t)\<rparr>"
      "buffer_text ed1 (A @ new @ lp # B) = ta @ ts @ take (length t) (t @ [LINE_FEED]) # tb"
    define e where "e = ed1"
    have same: "same_buffer ed1 ed1 (A @ new @ lp # B)" using p by (simp add: same_buffer_def)
    have forw: "q_forw (nodes (core ed1) (last (line_head # A @ new))) = lp" by (rule adding_forw [OF p(3)])
    have f1: "disk_frame (spl1 ed) ed1" using disk_frame_put_buffer_line [of "spl1 ed" "t @ [LINE_FEED]" "Suc (length t)"] p(1) by simp
    show ?thesis
    proof (rule typing_undo [OF ty1 p(2), where edp = ed1 and e = ed1 and m = "length t" and t = t])
      fix i e2 q
      assume u: "APPEND_UNDO_NODE lp up (dot (state ed1)) ed1 = (Inr i, e2)"
        "typing e2 ns0 A B ta tb (new @ [lp]) (ts @ [t]) (Some i)"
        "core e2 = (core ed1)\<lparr>undo_queue := q\<rparr>" "state e2 = state ed1" "state1 e2 = state1 ed1" "streams e2 = streams ed1"
        "exec e2 = exec ed1" "mutex e2 = mutex ed1" "input e2 = input ed1" "sys_all_ok e2"
      have f2: "disk_frame ed1 e2" using disk_frame_APPEND [of ed1 lp up "dot (state ed1)"] u(1) by simp
      have "PUT_BUFFER_LINE (last (line_head # A @ new)) (t @ [LINE_FEED]) up ed = (Inr (lp, Some i), spl0 e2)"
        using p(1) forw u(1) by (simp add: PUT_BUFFER_LINE_def Let_def del: last.simps)
      moreover have "put_frame ed (spl0 e2)"
        using f1 f2 p u by (auto simp: put_frame_def disk_frame_def spl1_def spl0_def)
      moreover have "typing (spl0 e2) ns0 A B ta tb (new @ [lp]) (ts @ [t]) (Some i)" using u(2) by simp
      ultimately show ?thesis using p u by (auto simp: spl0_def spl1_def)
    qed (use p same in \<open>simp_all add: spl1_def\<close>)
  qed simp
qed

interpretation reader: line_putter PUT_BUFFER_LINE
proof unfold_locales
  fix ed ns0 A B ta tb new ts up and t :: string
  assume "typing ed ns0 A B ta tb new ts up" "room 1 (length t) ed"
  from PUT_BUFFER_LINE_ok [OF this]
  show "\<exists>i ed'. PUT_BUFFER_LINE (last (line_head # A @ new)) (t @ [LINE_FEED]) up ed = (Inr (next_node (core ed), Some i), ed') \<and>
       typing ed' ns0 A B ta tb (new @ [next_node (core ed)]) (ts @ [t]) (Some i) \<and> put_frame ed ed' \<and>
       f_data (disk ed') = f_data (disk ed) @ t \<and> lines (state ed') = lines (state ed) + 1" by fastforce
qed

section \<open>Reading lines from a stream\<close>

definition rest_of :: "ed_stream \<Rightarrow> string" where
  "rest_of f = drop (f_pos f) (f_data f)"

lemma getc_char:
  assumes "sys_all_ok ed" "\<not> f_eof (streams ed fp)" "rest_of (streams ed fp) = c # r"
  obtains e where "getc fp ed = (GotChar c, e)" "rest_of (streams e fp) = r" "sys_all_ok e"
    "e = upd_stream fp (f_pos_update Suc) (sys_n_update Suc ed)"
proof -
  have pos: "f_pos (streams ed fp) < length (f_data (streams ed fp))" "f_data (streams ed fp) ! f_pos (streams ed fp) = c"
    using assms(3) by (simp_all add: rest_of_def) (metis drop_eq_Nil linorder_not_less list.discI, metis hd_drop_conv_nth list.sel(1) drop_eq_Nil linorder_not_less list.discI)
  moreover have "drop (Suc (f_pos (streams ed fp))) (f_data (streams ed fp)) = r"
    using assms(3) by (simp add: rest_of_def) (metis drop_Suc list.sel(3) tl_drop)
  ultimately show ?thesis using assms(1,2) that by (simp add: getc_def Let_def rest_of_def)
qed

lemma getc_end:
  assumes "sys_all_ok ed" "rest_of (streams ed fp) = []"
  shows "getc fp ed = (GotEof, upd_stream fp (f_eof_update (\<lambda>_. True)) (sys_n_update Suc ed))"
  using assms by (simp add: getc_def Let_def rest_of_def)

text \<open>What reading from \<open>fp\<close> changes: the stream, two flags of the buffer, the count of calls\<close>

abbreviation clear_flags :: "ed_state \<Rightarrow> ed_state" where
  "clear_flags s \<equiv> s\<lparr>input_is_binary := False, newline_missing := False\<rparr>"

definition read_frame :: "stream_id \<Rightarrow> ed_buffer \<Rightarrow> ed_buffer \<Rightarrow> bool" where
  "read_frame fp ed ed' \<longleftrightarrow>
     core ed' = core ed \<and> state1 ed' = state1 ed \<and> exec ed' = exec ed \<and> mutex ed' = mutex ed \<and> input ed' = input ed \<and>
     statics ed' = statics ed \<and> std_in ed' = std_in ed \<and> sys_all_ok ed' \<and> std_out ed' = std_out ed \<and> std_err ed' = std_err ed \<and>
     display ed' = display ed \<and> file_info ed' = file_info ed \<and> next_stream ed' = next_stream ed \<and> sys_ok ed' = sys_ok ed \<and>
     clear_flags (state ed') = clear_flags (state ed) \<and>
     (\<forall>x. x \<noteq> fp \<longrightarrow> streams ed' x = streams ed x) \<and> f_data (streams ed' fp) = f_data (streams ed fp)"

lemma read_frame_refl: "sys_all_ok ed \<Longrightarrow> read_frame fp ed ed"
  by (simp add: read_frame_def)

lemma read_frame_trans: "read_frame fp a b \<Longrightarrow> read_frame fp b c \<Longrightarrow> read_frame fp a c"
  by (simp add: read_frame_def)

lemma read_frame_state:
  assumes "read_frame fp ed e"
  shows "dot (state e) = dot (state ed)" "lines (state e) = lines (state ed)" "is_binary (state e) = is_binary (state ed)"
    "is_empty (state e) = is_empty (state ed)" "newline_appended (state e) = newline_appended (state ed)"
    "is_modified (state e) = is_modified (state ed)"
proof -
  have s: "clear_flags (state e) = clear_flags (state ed)" using assms by (simp add: read_frame_def)
  show "dot (state e) = dot (state ed)" using arg_cong [OF s, of dot] by simp
  show "lines (state e) = lines (state ed)" using arg_cong [OF s, of lines] by simp
  show "is_binary (state e) = is_binary (state ed)" using arg_cong [OF s, of is_binary] by simp
  show "is_empty (state e) = is_empty (state ed)" using arg_cong [OF s, of is_empty] by simp
  show "newline_appended (state e) = newline_appended (state ed)" using arg_cong [OF s, of newline_appended] by simp
  show "is_modified (state e) = is_modified (state ed)" using arg_cong [OF s, of is_modified] by simp
qed

lemma read_frame_step:
  "read_frame fp ed e \<Longrightarrow> f_data (g (streams e fp)) = f_data (streams e fp) \<Longrightarrow> read_frame fp ed (upd_stream fp g (sys_n_update Suc e))"
  by (simp add: read_frame_def upd_stream_def)

lemma read_frame_flags:
  "read_frame fp ed e \<Longrightarrow> read_frame fp ed (set_input_is_binary b e)"
  "read_frame fp ed e \<Longrightarrow> read_frame fp ed (set_newline_missing b e)"
  by (simp_all add: read_frame_def)

text \<open>One line: up to its newline, or up to the end of the stream\<close>

lemma get_chars_line:
  assumes "LINE_FEED \<notin> set t" "sys_all_ok ed" "\<not> f_eof (streams ed fp)" "rest_of (streams ed fp) = t @ LINE_FEED # r"
    and "length t < k" "int (length tb + length t) < SIZE_MAX - 3"
  shows "\<exists>e. get_chars k fp tb ed = (Inr (tb @ t, Newline), e) \<and> read_frame fp ed e \<and> rest_of (streams e fp) = r \<and>
    \<not> f_eof (streams e fp) \<and> newline_missing (state e) = newline_missing (state ed) \<and>
    input_is_binary (state e) = (input_is_binary (state ed) \<or> NUL \<in> set t)"
  using assms
proof (induction t arbitrary: k tb ed)
  case Nil
  then obtain k' where k: "k = Suc k'" by (cases k) auto
  obtain e where e: "getc fp ed = (GotChar LINE_FEED, e)" "rest_of (streams e fp) = r" "sys_all_ok e"
    "e = upd_stream fp (f_pos_update Suc) (sys_n_update Suc ed)"
    using getc_char [of ed fp LINE_FEED r] Nil.prems by auto
  have "read_frame fp ed e" unfolding e(4) using Nil.prems(2) by (intro read_frame_step read_frame_refl) auto
  with e Nil.prems(3) show ?case by (simp add: k)
next
  case (Cons c t)
  then obtain k' where k: "k = Suc k'" by (cases k) auto
  obtain e where e: "getc fp ed = (GotChar c, e)" "rest_of (streams e fp) = t @ LINE_FEED # r" "sys_all_ok e"
    "e = upd_stream fp (f_pos_update Suc) (sys_n_update Suc ed)"
    using getc_char [of ed fp c "t @ LINE_FEED # r"] Cons.prems by auto
  define e' where "e' = set_input_is_binary (input_is_binary (state e) \<or> c = NUL) e"
  have fr: "read_frame fp ed e'" unfolding e'_def e(4) using Cons.prems(2) by (intro read_frame_flags read_frame_step read_frame_refl) auto
  have prem: "sys_all_ok e'" "\<not> f_eof (streams e' fp)" "rest_of (streams e' fp) = t @ LINE_FEED # r"
    using e Cons.prems(3) by (simp_all add: e'_def)
  have "\<exists>e''. get_chars k' fp (tb @ [c]) e' = (Inr ((tb @ [c]) @ t, Newline), e'') \<and> read_frame fp e' e'' \<and> rest_of (streams e'' fp) = r \<and>
    \<not> f_eof (streams e'' fp) \<and> newline_missing (state e'') = newline_missing (state e') \<and>
    input_is_binary (state e'') = (input_is_binary (state e') \<or> NUL \<in> set t)"
    by (rule Cons.IH [OF _ prem]) (use Cons.prems k in auto)
  then obtain e'' where r: "get_chars k' fp (tb @ [c]) e' = (Inr (tb @ c # t, Newline), e'')" "read_frame fp e' e''"
    "rest_of (streams e'' fp) = r" "\<not> f_eof (streams e'' fp)" "newline_missing (state e'') = newline_missing (state e')"
    "input_is_binary (state e'') = (input_is_binary (state e') \<or> NUL \<in> set t)" by auto
  have "c \<noteq> LINE_FEED" using Cons.prems(1) by auto
  then have "get_chars k fp tb ed = get_chars k' fp (tb @ [c]) e'"
    using Cons.prems(6) e(1) by (simp add: k Let_def e'_def)
  with r read_frame_trans [OF fr r(2)] e(4) show ?case by (auto simp: e'_def)
qed

lemma get_chars_end:
  assumes "LINE_FEED \<notin> set t" "sys_all_ok ed" "\<not> f_eof (streams ed fp)" "rest_of (streams ed fp) = t"
    and "length t < k" "int (length tb + length t) < SIZE_MAX - 3"
  shows "\<exists>e. get_chars k fp tb ed = (Inr (tb @ t, EndOfFile), e) \<and> read_frame fp ed e \<and> rest_of (streams e fp) = [] \<and>
    f_eof (streams e fp) \<and> newline_missing (state e) = newline_missing (state ed) \<and>
    input_is_binary (state e) = (input_is_binary (state ed) \<or> NUL \<in> set t)"
  using assms
proof (induction t arbitrary: k tb ed)
  case Nil
  then obtain k' where k: "k = Suc k'" by (cases k) auto
  let ?e = "upd_stream fp (f_eof_update (\<lambda>_. True)) (sys_n_update Suc ed)"
  have "getc fp ed = (GotEof, ?e)" using getc_end [of ed fp] Nil.prems by simp
  moreover have "read_frame fp ed ?e" using Nil.prems(2) by (intro read_frame_step read_frame_refl) auto
  ultimately show ?case using Nil.prems(4) by (simp add: k rest_of_def)
next
  case (Cons c t)
  then obtain k' where k: "k = Suc k'" by (cases k) auto
  obtain e where e: "getc fp ed = (GotChar c, e)" "rest_of (streams e fp) = t" "sys_all_ok e"
    "e = upd_stream fp (f_pos_update Suc) (sys_n_update Suc ed)"
    using getc_char [of ed fp c t] Cons.prems by auto
  define e' where "e' = set_input_is_binary (input_is_binary (state e) \<or> c = NUL) e"
  have fr: "read_frame fp ed e'" unfolding e'_def e(4) using Cons.prems(2) by (intro read_frame_flags read_frame_step read_frame_refl) auto
  have prem: "sys_all_ok e'" "\<not> f_eof (streams e' fp)" "rest_of (streams e' fp) = t"
    using e Cons.prems(3) by (simp_all add: e'_def)
  have "\<exists>e''. get_chars k' fp (tb @ [c]) e' = (Inr ((tb @ [c]) @ t, EndOfFile), e'') \<and> read_frame fp e' e'' \<and> rest_of (streams e'' fp) = [] \<and>
    f_eof (streams e'' fp) \<and> newline_missing (state e'') = newline_missing (state e') \<and>
    input_is_binary (state e'') = (input_is_binary (state e') \<or> NUL \<in> set t)"
    by (rule Cons.IH [OF _ prem]) (use Cons.prems k in auto)
  then obtain e'' where r: "get_chars k' fp (tb @ [c]) e' = (Inr (tb @ c # t, EndOfFile), e'')" "read_frame fp e' e''"
    "rest_of (streams e'' fp) = []" "f_eof (streams e'' fp)" "newline_missing (state e'') = newline_missing (state e')"
    "input_is_binary (state e'') = (input_is_binary (state e') \<or> NUL \<in> set t)" by auto
  have "c \<noteq> LINE_FEED" using Cons.prems(1) by auto
  then have "get_chars k fp tb ed = get_chars k' fp (tb @ [c]) e'"
    using Cons.prems(6) e(1) by (simp add: k Let_def e'_def)
  with r read_frame_trans [OF fr r(2)] e(4) show ?case by (auto simp: e'_def)
qed

text \<open>\<open>get_stream_line\<close> on a complete line, on a last line without its newline, and at the end\<close>

lemma line_fuel_rest:
  assumes "rest_of (streams ed fp) = t @ r"
  shows "length t < line_fuel fp ed"
proof -
  have "length (rest_of (streams ed fp)) = length t + length r" by (simp add: assms)
  then show ?thesis by (simp add: line_fuel_def rest_of_def)
qed

lemma get_stream_line_newline:
  assumes "LINE_FEED \<notin> set t" "sys_all_ok ed" "\<not> f_eof (streams ed fp)" "rest_of (streams ed fp) = t @ LINE_FEED # r"
    and "int (length t) < SIZE_MAX - 3"
  obtains e where "get_stream_line fp ed = (Inr (t @ [LINE_FEED]), e)" "read_frame fp ed e" "rest_of (streams e fp) = r"
    "\<not> f_eof (streams e fp)" "input_is_binary (state e) = (input_is_binary (state ed) \<or> NUL \<in> set t)"
    "newline_missing (state e) = (if fp = std_in ed then newline_missing (state ed) else False)"
proof -
  obtain e where e: "get_chars (line_fuel fp ed) fp [] ed = (Inr (t, Newline), e)" "read_frame fp ed e" "rest_of (streams e fp) = r"
    "\<not> f_eof (streams e fp)" "newline_missing (state e) = newline_missing (state ed)"
    "input_is_binary (state e) = (input_is_binary (state ed) \<or> NUL \<in> set t)"
    using get_chars_line [OF assms(1-4), of "line_fuel fp ed" "[]"] line_fuel_rest [OF assms(4)] assms(5) by auto
  have "std_in e = std_in ed" using e(2) by (simp add: read_frame_def)
  then show ?thesis
    using that [of "if fp = std_in ed then e else set_newline_missing False e"] e
    by (cases "fp = std_in ed") (simp_all add: get_stream_line_def feof_def read_frame_flags)
qed

lemma get_stream_line_last:
  assumes "LINE_FEED \<notin> set t" "t \<noteq> []" "sys_all_ok ed" "\<not> f_eof (streams ed fp)" "rest_of (streams ed fp) = t"
    and "int (length t) < SIZE_MAX - 3"
  obtains e where "get_stream_line fp ed = (Inr (t @ (if fp = std_in ed then [] else [LINE_FEED])), e)" "read_frame fp ed e"
    "rest_of (streams e fp) = []" "f_eof (streams e fp)"
    "input_is_binary (state e) = (input_is_binary (state ed) \<or> NUL \<in> set t)"
    "newline_missing (state e) = (if fp = std_in ed then newline_missing (state ed) else True)"
proof -
  obtain e where e: "get_chars (line_fuel fp ed) fp [] ed = (Inr (t, EndOfFile), e)" "read_frame fp ed e" "rest_of (streams e fp) = []"
    "f_eof (streams e fp)" "newline_missing (state e) = newline_missing (state ed)"
    "input_is_binary (state e) = (input_is_binary (state ed) \<or> NUL \<in> set t)"
    using get_chars_end [OF assms(1,3-5), of "line_fuel fp ed" "[]"] line_fuel_rest [of ed fp t "[]"] assms(5,6) by auto
  have "std_in e = std_in ed" using e(2) by (simp add: read_frame_def)
  then show ?thesis
    using that [of "if fp = std_in ed then e else set_newline_missing True e"] e assms(2)
    by (cases "fp = std_in ed") (simp_all add: get_stream_line_def feof_def read_frame_flags)
qed

lemma get_stream_line_eof:
  assumes "sys_all_ok ed" "rest_of (streams ed fp) = []"
  obtains e where "get_stream_line fp ed = throw ''End-of-file unexpected'' e" "read_frame fp ed e" "f_eof (streams e fp)"
    "state e = state ed"
proof -
  let ?e = "upd_stream fp (f_eof_update (\<lambda>_. True)) (sys_n_update Suc ed)"
  obtain k where "line_fuel fp ed = Suc k" by (auto simp: line_fuel_def)
  then have "get_stream_line fp ed = throw ''End-of-file unexpected'' ?e"
    using getc_end [OF assms] by (simp add: get_stream_line_def feof_def)
  moreover have "read_frame fp ed ?e" using assms(1) by (intro read_frame_step read_frame_refl) auto
  ultimately show ?thesis using that by simp
qed

section \<open>Reading a stream\<close>

definition io_frame :: "stream_id \<Rightarrow> ed_buffer \<Rightarrow> ed_buffer \<Rightarrow> bool" where
  "io_frame fp ed ed' \<longleftrightarrow>
     state1 ed' = state1 ed \<and> mutex ed' = mutex ed \<and> core_fp (core ed') = core_fp (core ed) \<and> input ed' = input ed \<and>
     global_buffer (core ed') = global_buffer (core ed) \<and> std_in ed' = std_in ed \<and> std_out ed' = std_out ed \<and>
     (\<forall>x. x \<noteq> core_fp (core ed) \<longrightarrow> x \<noteq> fp \<longrightarrow> streams ed' x = streams ed x)"

lemma io_frame_trans: "io_frame fp a b \<Longrightarrow> io_frame fp b c \<Longrightarrow> io_frame fp a c"
  by (auto simp: io_frame_def)

lemma io_frame_read: "read_frame fp ed e \<Longrightarrow> io_frame fp ed e"
  by (auto simp: io_frame_def read_frame_def)

lemma io_frame_put: "put_frame ed e \<Longrightarrow> input e = input ed \<Longrightarrow> io_frame fp ed e"
  by (auto simp: io_frame_def put_frame_def disk_frame_def)

lemma typing_read:
  assumes "read_frame fp ed e" "fp \<noteq> core_fp (core ed)" "typing ed ns0 A B ta tb new ts up"
  shows "typing e ns0 A B ta tb new ts up"
proof -
  have fr: "core e = core ed" "state1 e = state1 ed" "statics e = statics ed" "sys_all_ok e" "disk e = disk ed"
    using assms(1,2) by (auto simp: read_frame_def)
  have "adding e ns0 A B new up = adding ed ns0 A B new up"
    using fr read_frame_state(2) [OF assms(1)] by (intro adding_cong) simp_all
  moreover have "buffer_text e = buffer_text ed" using fr by (intro buffer_text_same) simp_all
  moreover have "disk_inv e = disk_inv ed" using fr by (simp add: disk_inv_def node_stored_def)
  ultimately show ?thesis using assms(3) fr read_frame_state(1) [OF assms(1)] by (simp add: typing_def)
qed

text \<open>One round of the loop of \<open>read_stream\<close>: a line was read and is put.\<close>

lemma read_round:
  assumes ty: "typing ed ns0 A B ta tb new ts up" and fp: "fp \<noteq> core_fp (core ed)"
    and line: "get_stream_line fp ed = (Inr (t @ [LINE_FEED]), e)" "read_frame fp ed e"
    and r: "room 1 (length t) ed"
  obtains lp up' e' where
    "\<And>k sz. read_loop (Suc k) fp (last (line_head # A @ new)) up sz ed = read_loop k fp lp up' (sz + int (length t + 1)) e'"
    "lp = last (line_head # A @ new @ [lp])" "typing e' ns0 A B ta tb (new @ [lp]) (ts @ [t]) up'" "io_frame fp ed e'"
    "streams e' fp = streams e fp" "core_fp (core e') = core_fp (core ed)" "std_in e' = std_in ed"
    "f_data (disk e') = f_data (disk ed) @ t"
    "state e' = (state e)\<lparr>dot := dot (state ed) + 1, lines := lines (state ed) + 1\<rparr>"
proof -
  have tye: "typing e ns0 A B ta tb new ts up" by (rule typing_read [OF line(2) fp ty])
  have core: "core e = core ed" "disk e = disk ed" "std_in e = std_in ed" using line(2) fp by (auto simp: read_frame_def)
  have "room 1 (length t) e" using r core read_frame_state(2) [OF line(2)] by (simp add: room_def)
  from PUT_BUFFER_LINE_ok [OF tye this]
  obtain i e' where e': "PUT_BUFFER_LINE (last (line_head # A @ new)) (t @ [LINE_FEED]) up e = (Inr (next_node (core e), Some i), e')"
    "typing e' ns0 A B ta tb (new @ [next_node (core e)]) (ts @ [t]) (Some i)" "put_frame e e'"
    "f_data (disk e') = f_data (disk e) @ t"
    "state e' = (state e)\<lparr>dot := dot (state e) + 1, lines := lines (state e) + 1\<rparr>" "input e' = input e" by blast
  have fr: "streams e' fp = streams e fp" "core_fp (core e') = core_fp (core ed)" "std_in e' = std_in ed"
    using e'(3) fp core by (auto simp: put_frame_def disk_frame_def)
  have loop: "read_loop (Suc k) fp (last (line_head # A @ new)) up sz ed = read_loop k fp (next_node (core e)) (Some i) (sz + int (length t + 1)) e'" for k sz
    using line(1) e'(1) by (simp del: last.simps)
  show ?thesis
    by (rule that [OF loop _ e'(2) io_frame_trans [OF io_frame_read [OF line(2)] io_frame_put [OF e'(3,6)]] fr])
       (use e'(4,5) core read_frame_state(1,2) [OF line(2)] in auto)
qed

lemma typing_exec [simp]: "typing (exec_update f ed) ns0 A B ta tb new ts up = typing ed ns0 A B ta tb new ts up"
  using adding_cong [of "exec_update f ed" ed ns0 A B new up] buffer_text_same [of "exec_update f ed" ed] by (simp add: typing_def)

definition same_flags :: "ed_state \<Rightarrow> ed_state \<Rightarrow> bool" where
  "same_flags s s' \<longleftrightarrow> is_binary s' = is_binary s \<and> is_empty s' = is_empty s \<and> newline_appended s' = newline_appended s"

abbreviation text_lines :: "string list \<Rightarrow> string \<Rightarrow> string list" where
  "text_lines us tail \<equiv> us @ (if tail = [] then [] else [tail])"

definition bytes_of :: "string list \<Rightarrow> string" where
  "bytes_of us = concat (map (\<lambda>t. t @ [LINE_FEED]) us)"

lemma bytes_of_simps [simp]: "bytes_of [] = []" "bytes_of (u # us) = u @ LINE_FEED # bytes_of us" "bytes_of (us @ vs) = bytes_of us @ bytes_of vs"
  by (simp_all add: bytes_of_def)

lemma length_bytes_of: "length (bytes_of us) = total_length us + length us"
  by (induction us) auto

lemma read_loop_ok:
  assumes "typing ed ns0 A B ta tb new ts up" "fp \<noteq> core_fp (core ed)" "fp \<noteq> std_in ed" "\<not> f_eof (streams ed fp)"
    and "rest_of (streams ed fp) = bytes_of us @ tail" "\<forall>t\<in>set (tail # us). LINE_FEED \<notin> set t \<and> int (length t) < SIZE_MAX - 3"
    and "room (length (text_lines us tail)) (total_length (text_lines us tail)) ed" "length us + 1 < k"
  shows "\<exists>new' up' ed'. read_loop k fp (last (line_head # A @ new)) up sz ed
        = (Inr (sz + int (length (bytes_of (text_lines us tail)))), ed') \<and>
      typing ed' ns0 A B ta tb (new @ new') (ts @ text_lines us tail) up' \<and> io_frame fp ed ed' \<and> f_eof (streams ed' fp) \<and>
      same_flags (state ed) (state ed') \<and>
      newline_missing (state ed') = (if tail \<noteq> [] then True else if us = [] then newline_missing (state ed) else False) \<and>
      input_is_binary (state ed') = (input_is_binary (state ed) \<or> NUL \<in> set (concat (text_lines us tail)))"
  using assms
proof (induction us arbitrary: ed new ts up k sz)
  case Nil
  then obtain k' where k: "k = Suc (Suc k')" by (metis One_nat_def add.commute less_imp_Suc_add list.size(3) plus_1_eq_Suc add_Suc)
  have ok: "sys_all_ok ed" using Nil.prems(1) by (simp add: typing_def)
  show ?case
  proof (cases "tail = []")
    case True
    then obtain e where e: "get_stream_line fp ed = throw ''End-of-file unexpected'' e" "read_frame fp ed e" "f_eof (streams e fp)" "state e = state ed"
      using get_stream_line_eof [OF ok, of fp] Nil.prems(5) by auto
    have "read_loop k fp (last (line_head # A @ new)) up sz ed = (Inr sz, set_err ''End-of-file unexpected'' e)"
      using e(1) by (simp add: k throw_def)
    moreover have "io_frame fp ed (set_err ''End-of-file unexpected'' e)" using io_frame_read [OF e(2)] by (simp add: io_frame_def)
    ultimately show ?thesis using True e typing_read [OF e(2) Nil.prems(2,1)]
      by (intro exI [of _ "[]"] exI [of _ up]) (simp add: same_flags_def)
  next
    case False
    obtain e where e: "get_stream_line fp ed = (Inr (tail @ [LINE_FEED]), e)" "read_frame fp ed e"
      "rest_of (streams e fp) = []" "f_eof (streams e fp)"
      "input_is_binary (state e) = (input_is_binary (state ed) \<or> NUL \<in> set tail)" "newline_missing (state e)"
      using get_stream_line_last [OF _ False ok Nil.prems(4)] Nil.prems(3,5,6) by auto
    have "room 1 (length tail) ed" using Nil.prems(7) False by simp
    from read_round [OF Nil.prems(1,2) e(1,2) this]
    obtain lp up' e' where r: "\<And>k sz. read_loop (Suc k) fp (last (line_head # A @ new)) up sz ed = read_loop k fp lp up' (sz + int (length tail + 1)) e'"
      "typing e' ns0 A B ta tb (new @ [lp]) (ts @ [tail]) up'" "io_frame fp ed e'" "streams e' fp = streams e fp"
      "core_fp (core e') = core_fp (core ed)" "state e' = (state e)\<lparr>dot := dot (state ed) + 1, lines := lines (state ed) + 1\<rparr>"
      by metis
    have ok': "sys_all_ok e'" using r(2) by (simp add: typing_def)
    obtain f where f: "get_stream_line fp e' = throw ''End-of-file unexpected'' f" "read_frame fp e' f" "f_eof (streams f fp)" "state f = state e'"
      using get_stream_line_eof [OF ok', of fp] r(4) e(3) by auto
    have "read_loop k fp (last (line_head # A @ new)) up sz ed = (Inr (sz + int (length tail + 1)), set_err ''End-of-file unexpected'' f)"
      using r(1) f(1) by (simp add: k throw_def del: last.simps)
    moreover have "io_frame fp ed (set_err ''End-of-file unexpected'' f)"
      using io_frame_trans [OF r(3) io_frame_read [OF f(2)]] by (simp add: io_frame_def)
    moreover have "typing f ns0 A B ta tb (new @ [lp]) (ts @ [tail]) up'" using typing_read [OF f(2) _ r(2)] Nil.prems(2) r(5) by simp
    ultimately show ?thesis using False e f r(6) read_frame_state [OF e(2)]
      by (intro exI [of _ "[lp]"] exI [of _ up'] exI [of _ "set_err ''End-of-file unexpected'' f"]) (simp add: same_flags_def)
  qed
next
  case (Cons u us)
  then obtain k' where k: "k = Suc k'" by (cases k) auto
  have ok: "sys_all_ok ed" using Cons.prems(1) by (simp add: typing_def)
  obtain e where e: "get_stream_line fp ed = (Inr (u @ [LINE_FEED]), e)" "read_frame fp ed e"
    "rest_of (streams e fp) = bytes_of us @ tail" "\<not> f_eof (streams e fp)"
    "input_is_binary (state e) = (input_is_binary (state ed) \<or> NUL \<in> set u)" "\<not> newline_missing (state e)"
    using get_stream_line_newline [of u ed fp "bytes_of us @ tail"] ok Cons.prems(3-6) by auto
  have "room 1 (length u) ed" using Cons.prems(7) by (auto simp: room_def)
  from read_round [OF Cons.prems(1,2) e(1,2) this]
  obtain lp up' e' where r: "\<And>k sz. read_loop (Suc k) fp (last (line_head # A @ new)) up sz ed = read_loop k fp lp up' (sz + int (length u + 1)) e'"
    "lp = last (line_head # A @ new @ [lp])" "typing e' ns0 A B ta tb (new @ [lp]) (ts @ [u]) up'" "io_frame fp ed e'" "streams e' fp = streams e fp"
    "core_fp (core e') = core_fp (core ed)" "std_in e' = std_in ed" "f_data (disk e') = f_data (disk ed) @ u"
    "state e' = (state e)\<lparr>dot := dot (state ed) + 1, lines := lines (state ed) + 1\<rparr>"
    by metis
  have prems: "fp \<noteq> core_fp (core e')" "fp \<noteq> std_in e'" "\<not> f_eof (streams e' fp)" "rest_of (streams e' fp) = bytes_of us @ tail"
    "\<forall>t\<in>set (tail # us). LINE_FEED \<notin> set t \<and> int (length t) < SIZE_MAX - 3"
    "room (length (text_lines us tail)) (total_length (text_lines us tail)) e'" "length us + 1 < k'"
    using Cons.prems r e k by (auto simp: room_def)
  obtain new' up'' ed' where i: "read_loop k' fp (last (line_head # A @ new @ [lp])) up' (sz + int (length u + 1)) e'
        = (Inr (sz + int (length u + 1) + int (length (bytes_of (text_lines us tail)))), ed')"
      "typing ed' ns0 A B ta tb ((new @ [lp]) @ new') ((ts @ [u]) @ text_lines us tail) up''" "io_frame fp e' ed'" "f_eof (streams ed' fp)"
      "same_flags (state e') (state ed')"
      "newline_missing (state ed') = (if tail \<noteq> [] then True else if us = [] then newline_missing (state e') else False)"
      "input_is_binary (state ed') = (input_is_binary (state e') \<or> NUL \<in> set (concat (text_lines us tail)))"
    using Cons.IH [OF r(3) prems, of "sz + int (length u + 1)"] by blast
  have "read_loop k fp (last (line_head # A @ new)) up sz ed = (Inr (sz + int (length (bytes_of (text_lines (u # us) tail)))), ed')"
    using r(1) i(1) r(2) by (simp add: k algebra_simps del: last.simps)
  moreover have "same_flags (state ed) (state ed')" using i(5) r(9) read_frame_state [OF e(2)] by (simp add: same_flags_def)
  moreover have "input_is_binary (state ed') = (input_is_binary (state ed) \<or> NUL \<in> set (concat (text_lines (u # us) tail)))"
    using i(7) r(9) e(5) by auto
  moreover have "newline_missing (state ed') = (if tail \<noteq> [] then True else False)" using i(6) r(9) e(6) by simp
  ultimately show ?case using i(2,4) io_frame_trans [OF r(4) i(3)]
    by (intro exI [of _ "lp # new'"] exI [of _ up''] exI [of _ ed']) simp
qed

lemma typing_start:
  assumes inv: "buf_inv ed ns" "undo_inv ed ns0 ns" "disk_inv ed" "sys_all_ok ed"
    and after: "0 \<le> after" "after \<le> lines (state ed)" "dot (state ed) = after"
  shows "typing ed ns0 (take (nat after) ns) (drop (nat after) ns)
     (take (nat after) (buffer_text ed ns)) (drop (nat after) (buffer_text ed ns)) [] [] None"
proof -
  have "adding ed ns0 (take (nat after) ns) (drop (nat after) ns) [] None"
    using adding_start [of ed "take (nat after) ns" "drop (nat after) ns" ns0] inv by simp
  then show ?thesis using inv after by (simp add: typing_def buffer_text_def take_map drop_map buf_inv_def)
qed

lemma typing_result:
  assumes "typing ed ns0 A B ta tb new ts up"
  shows "buf_inv ed (A @ new @ B)" "undo_inv ed ns0 (A @ new @ B)" "disk_inv ed" "buffer_text ed (A @ new @ B) = ta @ ts @ tb"
    "dot (state ed) = int (length (A @ new))"
  using assms adding_undo_inv [of ed ns0 A B new up] by (simp_all add: typing_def adding_def)

definition read_size :: "bool \<Rightarrow> ed_state \<Rightarrow> string list \<Rightarrow> string \<Rightarrow> int" where
  "read_size stream_appended s us tail =
     (let sz = int (length (bytes_of (text_lines us tail)));
          binary = (is_binary s \<or> NUL \<in> set (concat (text_lines us tail)))
      in if binary \<and> stream_appended \<and> tail \<noteq> [] then sz - 1 else sz)"

lemma read_finish_ok:
  assumes "newline_missing (state e) = (tail \<noteq> [])" "input_is_binary (state e) = (NUL \<in> set (concat (text_lines us tail)))"
    and "is_binary (state e) = is_binary s"
  shows "\<exists>s' err'. read_finish sa (int (length (bytes_of (text_lines us tail)))) e
      = (Inr (read_size sa s us tail), std_err_update (\<lambda>x. x @ err') (state_update (\<lambda>_. s') e)) \<and>
     dot s' = dot (state e) \<and> lines s' = lines (state e)"
proof -
  let ?r = "read_finish sa (int (length (bytes_of (text_lines us tail)))) e"
  have "snd ?r = std_err_update (\<lambda>x. x @ drop (length (std_err e)) (std_err (snd ?r))) (state_update (\<lambda>_. state (snd ?r)) e)
      \<and> dot (state (snd ?r)) = dot (state e) \<and> lines (state (snd ?r)) = lines (state e)"
    by (cases e) (simp add: read_finish_def Let_def print_err_def)
  moreover have "fst ?r = Inr (read_size sa s us tail)"
    using assms(1-3) by (simp add: read_finish_def read_size_def Let_def)
  ultimately show ?thesis by (metis prod.collapse)
qed

text \<open>Reading a stream inserts its lines, the last one also when its newline is missing.\<close>

lemma read_stream_ok:
  assumes inv: "buf_inv ed ns" "undo_inv ed ns0 ns" "disk_inv ed" "sys_all_ok ed"
    and after: "0 \<le> after" "after \<le> lines (state ed)"
    and fp: "fp \<noteq> core_fp (core ed)" "fp \<noteq> std_in ed" "\<not> f_eof (streams ed fp)"
    and data: "rest_of (streams ed fp) = bytes_of us @ tail" "\<forall>t\<in>set (tail # us). LINE_FEED \<notin> set t \<and> int (length t) < SIZE_MAX - 3"
    and r: "room (length (text_lines us tail)) (total_length (text_lines us tail)) ed"
  shows "\<exists>ed' ns'. read_stream fp after ed = (Inr (read_size (after = lines (state ed)) (state ed) us tail), ed') \<and>
     buf_inv ed' ns' \<and> undo_inv ed' ns0 ns' \<and> disk_inv ed' \<and>
     buffer_text ed' ns' = insert_after after (text_lines us tail) (buffer_text ed ns) \<and>
     dot (state ed') = after + int (length (text_lines us tail)) \<and> state1 ed' = state1 ed"
proof -
  let ?A = "take (nat after) ns" and ?B = "drop (nat after) ns" and ?all = "text_lines us tail"
  let ?ta = "take (nat after) (buffer_text ed ns)" and ?tb = "drop (nat after) (buffer_text ed ns)"
  let ?c = "cache_node (node_at ns after) after ed"
  define e where "e = set_newline_missing False (set_input_is_binary False (set_dot after ?c))"
  have g: "get_line_node after ed = (node_at ns after, ?c)" by (rule get_line_node_eq [OF inv(1) after])
  have c: "buf_inv ?c ns" using inv(1) after by simp
  have len: "int (length ?A) = after" using inv(1) after by (simp add: buf_inv_def)
  have lp: "node_at ns after = last (line_head # ?A @ [])" using node_at_last [OF after(1)] after(2) inv(1) by (simp add: buf_inv_def)
  have cu: "core e = core ed" "streams e = streams ed" "state1 e = state1 ed" "lines (state e) = lines (state ed)" "std_in e = std_in ed"
    "statics e = statics ?c" by (simp_all add: e_def cache_node_def)
  have ie: "buf_inv e ns" "undo_inv e ns0 ns" "disk_inv e" "sys_all_ok e" "buffer_text e = buffer_text ed"
    using c inv cu buffer_text_same [of e ed]
    by (simp_all add: buf_inv_def undo_inv_def disk_inv_def node_stored_def sys_all_ok_def) (simp_all add: e_def cache_node_def)
  have ty: "typing e ns0 ?A ?B ?ta ?tb [] [] None"
    using typing_start [OF ie(1-4), of after] after cu(4) ie(5) by (simp add: e_def)
  have fuel: "length us + 1 < line_fuel fp e + 1"
  proof -
    have "length us \<le> length (bytes_of us @ tail)" by (simp add: length_bytes_of)
    then show ?thesis using line_fuel_rest [of e fp "bytes_of us @ tail" "[]"] data(1) cu(2) by simp
  qed
  obtain new up ed1 where l: "read_loop (line_fuel fp e + 1) fp (node_at ns after) None 0 e = (Inr (int (length (bytes_of ?all))), ed1)"
    "typing ed1 ns0 ?A ?B ?ta ?tb new ?all up" "io_frame fp e ed1" "f_eof (streams ed1 fp)" "same_flags (state e) (state ed1)"
    "newline_missing (state ed1) = (tail \<noteq> [])" "input_is_binary (state ed1) = (NUL \<in> set (concat ?all))"
    using read_loop_ok [OF ty, of fp us tail "line_fuel fp e + 1" 0] fp data r fuel cu lp
    by (auto simp: room_def e_def split: if_splits)
  define sa where "sa = (after = lines (state ed))"
  obtain s' err' where fin: "read_finish sa (int (length (bytes_of ?all))) (clearerr fp ed1)
      = (Inr (read_size sa (state ed) us tail), std_err_update (\<lambda>x. x @ err') (state_update (\<lambda>_. s') (clearerr fp ed1)))"
    "dot s' = dot (state ed1)" "lines s' = lines (state ed1)"
    using read_finish_ok [of "clearerr fp ed1" tail us "state ed" sa] l(5,6,7) unfolding same_flags_def
    by (auto simp: clearerr_def e_def cache_node_def)
  have cl: "lines (state ?c) = lines (state ed)" by (simp add: cache_node_def)
  have rs: "read_stream fp after ed = andThen (read_loop (line_fuel fp e + 1) fp (node_at ns after) None 0 e) (\<lambda>sz ed.
      if feof fp ed then read_finish sa sz (clearerr fp ed) else (Inl ERR, clearerr fp ed))"
    unfolding read_stream_def g prod.case Let_def e_def sa_def cl by (rule refl)
  define ed' where "ed' = std_err_update (\<lambda>x. x @ err') (state_update (\<lambda>_. s') (clearerr fp ed1))"
  have "read_stream fp after ed = (Inr (read_size sa (state ed) us tail), ed')"
    unfolding rs l(1) using l(4) fin(1) by (simp add: feof_def ed'_def del: of_nat_add)
  moreover have fp1: "fp \<noteq> core_fp (core ed1)" using l(3) fp cu(1) by (simp add: io_frame_def)
  moreover note t = typing_result [OF l(2)]
  moreover have "buf_inv ed' (?A @ new @ ?B)" using t(1) fin(3) by (simp add: buf_inv_def ed'_def clearerr_def)
  moreover have "undo_inv ed' ns0 (?A @ new @ ?B)" using t(2) by (simp add: undo_inv_def ed'_def clearerr_def)
  moreover have "disk_inv ed'" using t(3) fp1 by (simp add: disk_inv_def node_stored_def ed'_def clearerr_def)
  moreover have "buffer_text ed' (?A @ new @ ?B) = insert_after after ?all (buffer_text ed ns)"
    using t(4) fp1 buffer_text_same [of ed' ed1] by (simp add: ed'_def clearerr_def insert_after_def)
  moreover have "dot (state ed') = after + int (length ?all)"
  proof -
    have "length new = length ?all" using l(2) by (metis length_map typing_def buffer_text_def)
    then show ?thesis using t(5) fin(2) len by (simp add: ed'_def)
  qed
  moreover have "state1 ed' = state1 ed" using l(3) cu(3) by (simp add: ed'_def clearerr_def io_frame_def)
  ultimately show ?thesis unfolding sa_def by blast
qed

end
