(* ===== verification/Regexp.thy ===== *)
theory Regexp
  imports Edit_Spec Parse_Text
begin

text \<open>
  The regular expression interface (\<open>regexp.c\<close>).  The library (GNU \<open>re_compile_pattern\<close> and
  \<open>regexec\<close> with \<open>REG_STARTEND\<close>) is a parameter: \<open>re_compile\<close> gives an error message or the
  number of subexpressions, \<open>re_exec\<close> the offsets of a match and of its subexpressions.

  \<open>get_matching_node_address\<close> is shown to find the first matching line in the cyclic order of
  addresses, and to end.
\<close>

record regex_lib =
  re_compile :: "string \<Rightarrow> bool \<Rightarrow> string + nat"
  re_exec :: "regex \<Rightarrow> bool \<Rightarrow> string \<Rightarrow> (int \<times> int) list option"

datatype search_type = RE_SEARCH | RE_SUBST

definition use_previous_pattern :: "char \<Rightarrow> string \<Rightarrow> bool" where
  "use_previous_pattern dc inp \<longleftrightarrow>
     cur inp = LINE_FEED \<or>
     (if dc = REVERSE_SOLIDUS then cur inp = dc \<and> peek 1 inp \<noteq> dc else cur inp = dc)"

abbreviation set_re_search :: "regex option \<Rightarrow> ed_buffer \<Rightarrow> ed_buffer" where
  "set_re_search r \<equiv> statics_update (re_search_update (\<lambda>_. r))"
abbreviation set_re_subst :: "regex option \<Rightarrow> ed_buffer \<Rightarrow> ed_buffer" where
  "set_re_subst r \<equiv> statics_update (re_subst_update (\<lambda>_. r))"

text \<open>The pattern of an empty or repeated command\<close>

definition previous_pattern :: "char \<Rightarrow> search_type \<Rightarrow> ed_buffer \<Rightarrow> regex res" where
  "previous_pattern dc re_type ed =
     (let (re, ed) =
        (case re_type of
           RE_SUBST \<Rightarrow>
             (let re = (if (dc \<noteq> LINE_FEED \<and> re_search (statics ed) \<noteq> None) \<or> r_f (subst (exec ed))
                        then re_search (statics ed) else re_subst (statics ed))
              in (re, if re_subst (statics ed) = None then set_re_subst re ed else ed))
         | RE_SEARCH \<Rightarrow>
             (let re = (if re_search (statics ed) \<noteq> None then re_search (statics ed) else re_subst (statics ed))
              in (re, if re_search (statics ed) = None then set_re_search re ed else ed)))
      in case re of
           None \<Rightarrow> throw ''No previous pattern'' ed
         | Some re \<Rightarrow> (Inr re, ed))"

text \<open>The regex that a new one replaces is freed unless the other variable holds it too.\<close>

definition free_regex :: "regex option \<Rightarrow> regex option \<Rightarrow> ed_buffer \<Rightarrow> ed_buffer" where
  "free_regex old other ed =
     (case old of
        None \<Rightarrow> ed
      | Some re \<Rightarrow>
          if map_option re_id other = Some (re_id re) then ed
          else statics_update (re_freed_update (insert (re_id re))) ed)"

definition keep_regex :: "search_type \<Rightarrow> regex \<Rightarrow> ed_buffer \<Rightarrow> ed_buffer" where
  "keep_regex re_type re ed =
     (case re_type of
        RE_SUBST \<Rightarrow> set_re_subst (Some re) (free_regex (re_subst (statics ed)) (re_search (statics ed)) ed)
      | RE_SEARCH \<Rightarrow> set_re_search (Some re) (free_regex (re_search (statics ed)) (re_subst (statics ed)) ed))"

definition get_compiled_regex :: "'x regex_lib_scheme \<Rightarrow> char \<Rightarrow> search_type \<Rightarrow> ed_buffer \<Rightarrow> regex res" where
  "get_compiled_regex lib dc re_type ed =
     (if isspace dc \<and> dc \<noteq> LINE_FEED then throw ''Invalid pattern delimiter'' ed
      else if dc = LINE_FEED then previous_pattern dc re_type ed
      else
        let ed = set_input (drop 1 (input ed)) ed in
        if use_previous_pattern dc (input ed) then previous_pattern dc re_type ed
        else
          andThen (regular_expression dc ed) (\<lambda>pattern ed.
            if re_type = RE_SUBST \<and> cur (input ed) = LINE_FEED \<and> posix_or_traditional ed
            then throw ''Missing pattern delimiter'' ed
            else
              case sys_call ed of
                (False, ed) \<Rightarrow> throw ''Memory exhausted'' ed
              | (True, ed) \<Rightarrow>
                  (case re_compile lib pattern (REGEX_EXTENDED \<in> opt (exec ed)) of
                     Inl msg \<Rightarrow> throw msg ed
                   | Inr nsub \<Rightarrow>
                       (let re = \<lparr>re_id = sys_n ed, re_pattern = pattern, re_extended = (REGEX_EXTENDED \<in> opt (exec ed)), re_nsub = nsub\<rparr>
                        in (Inr re, keep_regex re_type re ed)))))"

definition re_matches :: "'x regex_lib_scheme \<Rightarrow> regex \<Rightarrow> string \<Rightarrow> bool" where
  "re_matches lib re s \<longleftrightarrow> re_exec lib re False s \<noteq> None"

definition next_search_address :: "bool \<Rightarrow> int \<Rightarrow> int \<Rightarrow> int" where
  "next_search_address dir addr n = (if dir then INC_MOD addr n else DEC_MOD addr n)"

text \<open>The loop ends when it is back at the current line: fuel for all addresses.\<close>

primrec search_loop :: "'x regex_lib_scheme \<Rightarrow> regex \<Rightarrow> bool \<Rightarrow> nat \<Rightarrow> int \<Rightarrow> ed_buffer \<Rightarrow> int res" where
  "search_loop lib re dir 0 addr ed = (Inl FATAL, ed)"
| "search_loop lib re dir (Suc k) addr ed =
     (let addr = next_search_address dir addr (lines (state ed));
          ed = spl1 ed;
          go_on = (\<lambda>ed. if addr = dot (state ed) then throw ''No match'' (spl0 ed)
                        else search_loop lib re dir k addr (spl0 ed))
      in if addr \<noteq> 0
         then let (lp, ed) = get_line_node addr ed
              in case get_buffer_line lp ed of
                   (Inl _, ed) \<Rightarrow> (Inl ERR, spl0 ed)
                 | (Inr s, ed) \<Rightarrow>
                     if re_matches lib re (take (ln_len (nodes (core ed) lp)) s) then (Inr addr, spl0 ed)
                     else go_on ed
         else go_on ed)"

definition get_matching_node_address :: "'x regex_lib_scheme \<Rightarrow> regex option \<Rightarrow> bool \<Rightarrow> ed_buffer \<Rightarrow> int res" where
  "get_matching_node_address lib re dir ed =
     (case re of
        None \<Rightarrow> (Inl ERR, ed)
      | Some re \<Rightarrow> search_loop lib re dir (nat (lines (state ed)) + 1) (dot (state ed)) ed)"

section \<open>Looking at lines\<close>

text \<open>What reading lines leaves alone: everything but positions and caches\<close>

definition looked :: "ed_buffer \<Rightarrow> node list \<Rightarrow> ed_buffer \<Rightarrow> bool" where
  "looked ed ns ed' \<longleftrightarrow>
     buf_inv ed' ns \<and> disk_inv ed' \<and> sys_all_ok ed' \<and> state ed' = state ed \<and> state1 ed' = state1 ed \<and>
     mutex ed' = mutex ed \<and> exec ed' = exec ed \<and> input ed' = input ed \<and>
     (\<exists>b off. core ed' = (core ed)\<lparr>seek_on_write := b, offset := off\<rparr>) \<and>
     f_data (disk ed') = f_data (disk ed)"

lemma looked_text: "looked ed ns ed' \<Longrightarrow> buffer_text ed' ns = buffer_text ed ns"
  by (auto simp: looked_def buffer_text_def node_text_def)

lemma looked_trans: "looked ed ns ed' \<Longrightarrow> looked ed' ns ed'' \<Longrightarrow> looked ed ns ed''"
  by (auto simp: looked_def) (rule exI, rule exI, rule refl)

lemma looked_refl: "buf_inv ed ns \<Longrightarrow> disk_inv ed \<Longrightarrow> sys_all_ok ed \<Longrightarrow> looked ed ns ed"
  by (auto simp: looked_def intro!: exI [of _ "seek_on_write (core ed)"] exI [of _ "offset (core ed)"])

lemma read_line_ok:
  assumes inv: "buf_inv ed ns" "disk_inv ed" "sys_all_ok ed" and n: "1 \<le> n" "n \<le> lines (state ed)"
  obtains ed' where "get_buffer_line (node_at ns n) (cache_node (node_at ns n) n ed) = (Inr (buffer_text ed ns ! (nat n - 1)), ed')"
    "looked ed ns ed'" "ln_len (nodes (core ed') (node_at ns n)) = length (buffer_text ed ns ! (nat n - 1))"
proof -
  define i where "i = nat n - 1"
  have i: "nat n = Suc i" "i < length ns" using n inv(1) by (auto simp: i_def buf_inv_def)
  let ?p = "ns ! i" and ?c = "cache_node (ns ! i) n ed"
  have at: "node_at ns n = ?p" using i by simp
  have mem: "?p \<in> set ns" using i by simp
  then have p: "0 < ?p" "?p < next_node (core ed)"
    using inv(1) by (auto simp: buf_inv_def ring_def line_head_def intro: gr0I)
  have c: "buf_inv ?c ns" using buf_inv_cache_node [OF inv(1), of n] n at by simp
  have d: "disk_inv ?c" using inv(2) by (simp add: disk_inv_def node_stored_def)
  have t: "node_text ?c ?p = node_text ed ?p" by (simp add: node_text_def)
  have "node_stored ed ?p" using inv(2) p by (simp add: disk_inv_def)
  then have len: "ln_len (nodes (core ed) ?p) = length (node_text ed ?p)"
    using p by (auto simp: node_stored_def node_text_def line_head_def)
  have bt: "buffer_text ed ns ! i = node_text ed ?p" using i by (simp add: buffer_text_def)
  show ?thesis
  proof (rule get_buffer_line_text [of ?c ?p])
    fix ed'
    assume g: "get_buffer_line ?p ?c = (Inr (node_text ?c ?p), ed')" "disk_inv ed'" "f_data (disk ed') = f_data (disk ?c)"
      "state ed' = state ?c" "statics ed' = statics ?c" "sys_all_ok ed'" "state1 ed' = state1 ?c" "mutex ed' = mutex ?c"
      "exec ed' = exec ?c" "input ed' = input ?c"
      "core ed' = (core ?c)\<lparr>seek_on_write := True, offset := ln_seek (nodes (core ?c) ?p) + int (ln_len (nodes (core ?c) ?p))\<rparr>"
    have "buf_inv ed' ns" using c g by (simp add: buf_inv_def)
    then have "looked ed ns ed'" using g by (auto simp: looked_def)
    moreover have "ln_len (nodes (core ed') ?p) = length (node_text ed ?p)" using g(11) len by simp
    ultimately show ?thesis
      using that [unfolded at, folded i_def, unfolded bt] g(1) t by simp
  qed (use d p inv(3) in auto)
qed

section \<open>The search finds the first match\<close>

text \<open>The addresses in the order the search visits them, ending at the current line\<close>

definition search_order :: "bool \<Rightarrow> int \<Rightarrow> int \<Rightarrow> int list" where
  "search_order dir d n = (if dir then [d + 1..n] @ [0..d] else rev [0..d - 1] @ rev [d..n])"

fun iterates :: "('a \<Rightarrow> 'a) \<Rightarrow> 'a \<Rightarrow> 'a list \<Rightarrow> bool" where
  "iterates f a [] = True"
| "iterates f a (x # xs) = (x = f a \<and> iterates f x xs)"

lemma iterates_append: "iterates f a (xs @ ys) \<longleftrightarrow> iterates f a xs \<and> iterates f (last (a # xs)) ys"
  by (induction xs arbitrary: a) auto

lemma iterates_upto:
  "f a = i \<Longrightarrow> \<forall>x. i \<le> x \<longrightarrow> x < j \<longrightarrow> f x = x + 1 \<Longrightarrow> iterates f a [i..j :: int]"
proof (induction i j arbitrary: a rule: upto.induct)
  case (1 i j)
  show ?case
  proof (cases "i \<le> j")
    case True
    have "iterates f i [i + 1..j]"
    proof (cases "i < j")
      case True
      with "1.prems"(2) have "f i = i + 1" by simp
      then show ?thesis using \<open>i \<le> j\<close> by (intro "1.IH") (auto intro: "1.prems"(2) [rule_format])
    qed simp
    with True "1.prems"(1) show ?thesis by (simp add: upto_rec1)
  qed simp
qed

lemma last_upto: "i \<le> j \<Longrightarrow> last [i..j :: int] = j"
  by (simp add: upto_rec2)

lemma rev_upto_rec: "i \<le> j \<Longrightarrow> rev [i..j :: int] = j # rev [i..j - 1]"
  by (simp add: upto_rec2)

lemma iterates_rev_upto:
  "f a = j \<Longrightarrow> \<forall>x. i < x \<longrightarrow> x \<le> j \<longrightarrow> f x = x - 1 \<Longrightarrow> iterates f a (rev [i..j :: int])"
proof (induction "nat (j - i + 1)" arbitrary: a j)
  case (Suc n)
  then have "i \<le> j" by linarith
  have "iterates f j (rev [i..j - 1])"
  proof (cases "i < j")
    case True
    then show ?thesis using Suc.prems Suc.hyps(2) by (intro Suc.hyps(1)) auto
  qed simp
  then show ?case using Suc.prems(1) rev_upto_rec [OF \<open>i \<le> j\<close>] by simp
qed simp

lemma last_rev_upto: "i \<le> j \<Longrightarrow> last (rev [i..j :: int]) = i"
  by (simp add: last_rev upto_rec1)

lemma search_order_spec:
  assumes "0 \<le> d" "d \<le> n"
  shows "iterates (\<lambda>a. next_search_address dir a n) d (search_order dir d n)"
    and "search_order dir d n \<noteq> []" "last (search_order dir d n) = d" "d \<notin> set (butlast (search_order dir d n))"
    and "set (search_order dir d n) = {0..n}" "length (search_order dir d n) = nat n + 1"
proof -
  show "iterates (\<lambda>a. next_search_address dir a n) d (search_order dir d n)"
  proof (cases dir)
    case True
    have "iterates (\<lambda>a. INC_MOD a n) d [d + 1..n]"
    proof (cases "d = n")
      case False
      then show ?thesis using assms by (intro iterates_upto) (auto simp: INC_MOD_def)
    qed simp
    moreover have "last (d # [d + 1..n]) = n" using assms last_upto [of "d + 1" n] by auto
    moreover have "iterates (\<lambda>a. INC_MOD a n) n [0..d]"
      using assms by (intro iterates_upto) (auto simp: INC_MOD_def)
    ultimately show ?thesis using True by (simp add: search_order_def next_search_address_def iterates_append del: last.simps)
  next
    case False
    have "iterates (\<lambda>a. DEC_MOD a n) d (rev [0..d - 1])"
    proof (cases "d = 0")
      case False
      then show ?thesis using assms by (intro iterates_rev_upto) (auto simp: DEC_MOD_def)
    qed simp
    moreover have "last (d # rev [0..d - 1]) = 0" using assms last_rev_upto [of 0 "d - 1"] by auto
    moreover have "iterates (\<lambda>a. DEC_MOD a n) 0 (rev [d..n])"
      using assms by (intro iterates_rev_upto) (auto simp: DEC_MOD_def)
    ultimately show ?thesis using False by (simp add: search_order_def next_search_address_def iterates_append del: last.simps)
  qed
  show "search_order dir d n \<noteq> []" "length (search_order dir d n) = nat n + 1"
    using assms by (auto simp: search_order_def)
  show "last (search_order dir d n) = d"
    using assms last_upto [of 0 d] last_rev_upto [of d n] by (auto simp: search_order_def)
  show "set (search_order dir d n) = {0..n}" using assms by (auto simp: search_order_def)
  have "distinct (search_order dir d n)" by (auto simp: search_order_def)
  with \<open>search_order dir d n \<noteq> []\<close> \<open>last (search_order dir d n) = d\<close>
  show "d \<notin> set (butlast (search_order dir d n))" using last_notin_butlast [of "search_order dir d n"] by simp
qed

definition line_matches :: "'x regex_lib_scheme \<Rightarrow> regex \<Rightarrow> string list \<Rightarrow> int \<Rightarrow> bool" where
  "line_matches lib re texts a \<longleftrightarrow> a \<noteq> 0 \<and> re_matches lib re (texts ! (nat a - 1))"

lemma line_matches_0 [simp]: "\<not> line_matches lib re texts 0"
  by (simp add: line_matches_def)

text \<open>What a search returns: the first match, or the error\<close>

definition search_result :: "ed_buffer \<Rightarrow> node list \<Rightarrow> int option \<Rightarrow> int res \<Rightarrow> bool" where
  "search_result ed ns found r \<longleftrightarrow>
     (case found of
        Some a \<Rightarrow> fst r = Inr a \<and> looked ed ns (snd r)
      | None \<Rightarrow> (\<exists>e. looked ed ns e \<and> r = throw ''No match'' e))"

lemma search_result_trans: "looked ed ns e \<Longrightarrow> search_result e ns f r \<Longrightarrow> search_result ed ns f r"
  by (auto simp: search_result_def dest: looked_trans split: option.splits)

lemma looked_spl: "looked (spl1 ed) ns e' \<Longrightarrow> looked ed ns (spl0 e')"
  unfolding looked_def by (auto simp: spl0_def spl1_def buf_inv_def disk_inv_def node_stored_def)

lemma search_loop_ok:
  assumes "buf_inv ed ns" "disk_inv ed" "sys_all_ok ed"
    and "iterates (\<lambda>a. next_search_address dir a (lines (state ed))) addr xs" "xs \<noteq> []"
      "last xs = dot (state ed)" "dot (state ed) \<notin> set (butlast xs)" "set xs \<subseteq> {0..lines (state ed)}" "length xs \<le> k"
  shows "search_result ed ns (List.find (line_matches lib re (buffer_text ed ns)) xs) (search_loop lib re dir k addr ed)"
  using assms
proof (induction k arbitrary: ed addr xs)
  case (Suc k)
  obtain x ys where xs: "xs = x # ys" using Suc.prems(5) by (cases xs) auto
  let ?S = "\<lambda>e. if x = dot (state e) then throw ''No match'' (spl0 e) else search_loop lib re dir k x (spl0 e)"
  have x: "x = next_search_address dir addr (lines (state ed))" "0 \<le> x" "x \<le> lines (state ed)"
    using Suc.prems(4,8) xs by auto
  have go: "search_result ed ns (List.find (line_matches lib re (buffer_text ed ns)) ys) (?S e)"
    if l: "looked ed ns (spl0 e)" for e
  proof (cases "ys = []")
    case True
    then have "x = dot (state e)" using Suc.prems(6) xs l by (auto simp: looked_def spl0_def)
    then show ?thesis using True l by (auto simp: search_result_def)
  next
    case False
    then have "x \<noteq> dot (state e)" using Suc.prems(7) xs l by (auto simp: looked_def spl0_def)
    moreover have "search_result (spl0 e) ns (List.find (line_matches lib re (buffer_text (spl0 e) ns)) ys) (search_loop lib re dir k x (spl0 e))"
      using Suc.prems False xs l by (intro Suc.IH) (auto simp: looked_def)
    ultimately show ?thesis using search_result_trans [OF l] looked_text [OF l] by simp
  qed
  have l0: "looked ed ns ed" by (rule looked_refl [OF Suc.prems(1-3)])
  show ?case
  proof (cases "x = 0")
    case True
    have "search_loop lib re dir (Suc k) addr ed = ?S (spl1 ed)"
      using True by (simp add: x(1) [symmetric] Let_def)
    then show ?thesis using go [of "spl1 ed"] l0 True by (simp add: xs del: search_loop.simps)
  next
    case False
    then have "1 \<le> x" using x by simp
    have inv: "buf_inv (spl1 ed) ns" "disk_inv (spl1 ed)" "sys_all_ok (spl1 ed)" using Suc.prems by simp_all
    show ?thesis
    proof (rule read_line_ok [OF inv, of x])
      fix e
      let ?t = "buffer_text (spl1 ed) ns ! (nat x - 1)"
      assume g: "get_buffer_line (node_at ns x) (cache_node (node_at ns x) x (spl1 ed)) = (Inr ?t, e)"
        "looked (spl1 ed) ns e" "ln_len (nodes (core e) (node_at ns x)) = length ?t"
      have l: "looked ed ns (spl0 e)" by (rule looked_spl [OF g(2)])
      have "get_line_node x (spl1 ed) = (node_at ns x, cache_node (node_at ns x) x (spl1 ed))"
        using get_line_node_eq [OF inv(1), of x] x by simp
      then have "search_loop lib re dir (Suc k) addr ed = (if re_matches lib re ?t then (Inr x, spl0 e) else ?S e)"
        using False g by (simp add: x(1) [symmetric] Let_def)
      moreover have "line_matches lib re (buffer_text ed ns) x = re_matches lib re ?t"
        using False by (simp add: line_matches_def)
      ultimately show ?thesis
        using go [OF l] l by (auto simp: xs search_result_def simp del: search_loop.simps split: if_splits)
    qed (use \<open>1 \<le> x\<close> x in auto)
  qed
qed simp

lemma get_matching_node_address_ok:
  assumes "buf_inv ed ns" "disk_inv ed" "sys_all_ok ed" "0 \<le> dot (state ed)" "dot (state ed) \<le> lines (state ed)"
  shows "search_result ed ns
     (List.find (line_matches lib re (buffer_text ed ns)) (search_order dir (dot (state ed)) (lines (state ed))))
     (get_matching_node_address lib (Some re) dir ed)"
  unfolding get_matching_node_address_def option.case
  by (rule search_loop_ok [OF assms(1-3)]) (use search_order_spec [OF assms(4,5)] in auto)

lemma search_result_frame:
  assumes "search_result ed ns found r"
  shows "buffer_text (snd r) ns = buffer_text ed ns \<and> state (snd r) = state ed"
proof (cases found)
  case None
  then obtain e where e: "looked ed ns e" "r = throw ''No match'' e" using assms by (auto simp: search_result_def)
  have "buffer_text (snd r) ns = buffer_text e ns" by (simp add: e(2) throw_def buffer_text_def node_text_def)
  then show ?thesis using e looked_text [OF e(1)] by (simp add: throw_def looked_def)
qed (use assms looked_text in \<open>auto simp: search_result_def looked_def\<close>)

section \<open>A library of literal patterns\<close>

text \<open>An instance of the parameter, for examples: a pattern matches its first occurrence.\<close>

fun find_at :: "nat \<Rightarrow> string \<Rightarrow> string \<Rightarrow> nat option" where
  "find_at i p [] = (if p = [] then Some i else None)"
| "find_at i p (c # cs) = (if take (length p) (c # cs) = p then Some i else find_at (Suc i) p cs)"

definition literal_lib :: regex_lib where
  "literal_lib = \<lparr>re_compile = (\<lambda>p ext. Inr 0),
     re_exec = (\<lambda>re notbol s. map_option (\<lambda>i. [(int i, int (i + length (re_pattern re)))]) (find_at 0 (re_pattern re) s))\<rparr>"

definition literal :: "string \<Rightarrow> regex" where
  "literal p = \<lparr>re_id = 0, re_pattern = p, re_extended = False, re_nsub = 0\<rparr>"

lemma re_matches_literal: "re_matches literal_lib (literal p) s \<longleftrightarrow> find_at 0 p s \<noteq> None"
  by (simp add: re_matches_def literal_lib_def literal_def)

end
