(* ===== verification/Address.thy ===== *)
theory Address
  imports Regexp Numbers
begin

text \<open>
  Line addresses (\<open>parse.c\<close>: \<open>address_range\<close> and the functions it calls).  Intermediate
  addresses are \<open>off_t\<close> and wrap around.  A range that parses is a range of the buffer, whatever
  the input; a range printed in decimal is read back.
\<close>

definition SKIP_WHITESPACE :: "ed_buffer \<Rightarrow> ed_buffer" where
  "SKIP_WHITESPACE ed = set_input (dropWhile (\<lambda>c. isspace c \<and> c \<noteq> LINE_FEED) (input ed)) ed"

definition IS_DELIMITER :: "char \<Rightarrow> bool" where
  "IS_DELIMITER c \<longleftrightarrow> c = CHR ''%'' \<or> c = CHR '','' \<or> c = CHR '';''"

abbreviation advance :: "ed_buffer \<Rightarrow> ed_buffer" where
  "advance ed \<equiv> set_input (drop 1 (input ed)) ed"

definition check_address_bounds :: "int \<Rightarrow> ed_buffer \<Rightarrow> unit res" where
  "check_address_bounds addr ed =
     (if \<not> (0 \<le> addr \<and> addr \<le> lines (state ed)) then throw ''Address out of range'' ed else (Inr (), ed))"

text \<open>The number after a sign, 1 when there is none\<close>

definition signed_offset :: "ed_buffer \<Rightarrow> int res" where
  "signed_offset ed = (if isdigit (cur (input ed)) then STRTOLL_THROW ed else (Inr 1, ed))"

text \<open>Each round of the loop consumes a character: fuel for the length of the input.\<close>

primrec offset_loop :: "nat \<Rightarrow> int \<Rightarrow> ed_buffer \<Rightarrow> int res" where
  "offset_loop 0 addr ed = (Inl FATAL, ed)"
| "offset_loop (Suc k) addr ed =
     (let c = cur (input ed) in
      if isdigit c then andThen (STRTOLL_THROW ed) (\<lambda>n ed. offset_loop k (off_t (addr + n)) ed)
      else if c = CHR ''+'' then andThen (signed_offset (advance ed)) (\<lambda>n ed. offset_loop k (off_t (addr + n)) ed)
      else if c = CHR ''-'' \<or> c = CHR ''^'' then andThen (signed_offset (advance ed)) (\<lambda>n ed. offset_loop k (off_t (addr - n)) ed)
      else if c = CHR '' '' \<or> c = CHARACTER_TABULATION then
        (let ed = SKIP_WHITESPACE ed in
         if isdigit (cur (input ed)) then andThen (STRTOLL_THROW ed) (\<lambda>n ed. offset_loop k (off_t (addr + n)) ed)
         else offset_loop k addr ed)
      else (Inr addr, ed))"

definition address_offset :: "int \<Rightarrow> ed_buffer \<Rightarrow> int res" where
  "address_offset addr ed = offset_loop (length (input ed) + 1) addr ed"

definition line_address :: "'x regex_lib_scheme \<Rightarrow> int \<Rightarrow> ed_buffer \<Rightarrow> int res" where
  "line_address lib addr ed =
     (let c = cur (input ed) in
      if isdigit c then STRTOLL_THROW ed
      else if c = CHR ''$'' then (Inr (lines (state ed)), advance ed)
      else if c = CHR ''.'' then (Inr addr, advance ed)
      else if c = CHR ''/'' \<or> c = CHR ''?'' then
        andThen (check_address_bounds addr ed) (\<lambda>_ ed.
          andThen (get_compiled_regex lib c RE_SEARCH (set_dot addr ed)) (\<lambda>re ed.
            andThen (get_matching_node_address lib (Some re) (c = CHR ''/'') ed) (\<lambda>addr ed.
              (Inr addr, if cur (input ed) = c then advance ed else ed))))
      else if c = APOSTROPHE then
        get_marked_node_address (peek 1 (input ed)) (advance (advance ed))
      else (Inr addr, ed))"

text \<open>The address and whether one was found\<close>

definition next_address :: "'x regex_lib_scheme \<Rightarrow> int \<Rightarrow> ed_buffer \<Rightarrow> (int \<times> bool) res" where
  "next_address lib addr ed =
     (let ed = SKIP_WHITESPACE ed;
          input_prev = input ed
      in andThen (line_address lib addr ed) (\<lambda>addr ed.
           andThen (address_offset addr ed) (\<lambda>addr ed.
             (Inr (addr, length (input ed) \<noteq> length input_prev), ed))))"

text \<open>The variables \<open>first\<close>, \<open>second\<close>, \<open>dot\<close> of \<open>address_range\<close>.  After the first round, each
  round consumes a delimiter: fuel for the length of the input.\<close>

primrec range_loop :: "'x regex_lib_scheme \<Rightarrow> nat \<Rightarrow> bool \<Rightarrow> int \<times> int \<times> int \<Rightarrow> ed_buffer \<Rightarrow> (int \<times> int \<times> int) res" where
  "range_loop lib 0 have_dc v ed = (Inl FATAL, ed)"
| "range_loop lib (Suc k) have_dc v ed =
     (let (first, second, dt) = v;
          semicolon = (cur (input ed) = CHR '';'');
          (first, second, dt, ed) =
            (if have_dc then
               if addrs (region (exec ed)) \<noteq> 0
               then (second, second, if semicolon then second else dt, ed)
               else (if semicolon then dt else 1, lines (state ed), dt, set_addrs 2 ed)
             else (first, second, dt, ed));
          ed = (if have_dc then advance ed else ed)
      in andThen (next_address lib dt ed) (\<lambda>(addr, found) ed.
           let (second, ed) = (if found then (addr, set_addrs (addrs (region (exec ed)) + 1) ed) else (second, ed))
           in if IS_DELIMITER (cur (input ed)) then range_loop lib k True (first, second, dt) ed
              else (Inr (first, second, dt), ed)))"

text \<open>One-line rollover of addresses\<close>

definition rollover :: "int \<Rightarrow> int \<Rightarrow> int" where
  "rollover n addr = (if addr = -1 then n else if addr = n + 1 then 0 else addr)"

definition set_range :: "int \<Rightarrow> int \<Rightarrow> int \<Rightarrow> ed_buffer \<Rightarrow> int res" where
  "set_range first second dt ed =
     andThen (check_address_bounds first ed) (\<lambda>_ ed.
     andThen (check_address_bounds second ed) (\<lambda>_ ed.
     andThen (check_address_bounds dt ed) (\<lambda>_ ed.
       let ed = set_dot dt (set_region_end second (set_region_start first ed))
       in (Inr (addrs (region (exec ed))), ed))))"

definition address_range :: "'x regex_lib_scheme \<Rightarrow> ed_buffer \<Rightarrow> int res" where
  "address_range lib ed =
     (let ed = SKIP_WHITESPACE (set_addrs 0 ed);
          d = dot (state ed)
      in andThen (range_loop lib (length (input ed) + 2) (IS_DELIMITER (cur (input ed))) (d, d, d) ed) (\<lambda>(first, second, dt) ed.
           let (first, ed) = (if addrs (region (exec ed)) < 2 then (second, ed) else (first, set_addrs 2 ed))
           in if posix_or_traditional ed then set_range first second dt ed
              else set_range (rollover (lines (state ed)) first) (rollover (lines (state ed)) second) dt ed))"

section \<open>What parsing leaves alone\<close>

text \<open>Parsing moves the input and, for a search, the current line.\<close>

definition parsed :: "ed_buffer \<Rightarrow> node list \<Rightarrow> ed_buffer \<Rightarrow> bool" where
  "parsed ed ns ed' \<longleftrightarrow>
     buf_inv ed' ns \<and> disk_inv ed' \<and> sys_all_ok ed' \<and>
     (\<exists>d. state ed' = (state ed)\<lparr>dot := d\<rparr>) \<and> 0 \<le> dot (state ed') \<and> dot (state ed') \<le> lines (state ed') \<and>
     state1 ed' = state1 ed \<and> mutex ed' = mutex ed \<and>
     (\<exists>b off. core ed' = (core ed)\<lparr>seek_on_write := b, offset := off\<rparr>) \<and> f_data (disk ed') = f_data (disk ed) \<and>
     length (input ed') \<le> length (input ed) \<and> opt (exec ed') = opt (exec ed) \<and> global (exec ed') = global (exec ed)"

lemma parsed_trans: "parsed ed ns e \<Longrightarrow> parsed e ns e' \<Longrightarrow> parsed ed ns e'"
  by (auto simp: parsed_def) (rule exI, rule exI, rule refl)

lemma parsed_refl:
  assumes "buf_inv ed ns" "disk_inv ed" "sys_all_ok ed" "0 \<le> dot (state ed)" "dot (state ed) \<le> lines (state ed)"
  shows "parsed ed ns ed"
proof -
  have "state ed = (state ed)\<lparr>dot := dot (state ed)\<rparr>"
    "core ed = (core ed)\<lparr>seek_on_write := seek_on_write (core ed), offset := offset (core ed)\<rparr>" by simp_all
  with assms show ?thesis unfolding parsed_def by blast
qed

lemma parsed_text: "parsed ed ns ed' \<Longrightarrow> buffer_text ed' ns = buffer_text ed ns"
  by (auto simp: parsed_def buffer_text_def node_text_def)

lemma parsed_looked: "parsed ed ns e \<Longrightarrow> looked e ns e' \<Longrightarrow> parsed ed ns e'"
  by (auto simp: parsed_def looked_def) (rule exI, rule exI, rule refl)

lemma parsed_input: "parsed ed ns e \<Longrightarrow> length s \<le> length (input e) \<Longrightarrow> parsed ed ns (set_input s e)"
  by (simp add: parsed_def)

lemma parsed_exec:
  "parsed ed ns e \<Longrightarrow> opt (f (exec e)) = opt (exec e) \<Longrightarrow> global (f (exec e)) = global (exec e) \<Longrightarrow> parsed ed ns (exec_update f e)"
  by (simp add: parsed_def)

lemma parsed_throw: "parsed ed ns e \<Longrightarrow> parsed ed ns (snd (throw msg e))"
  by (simp add: throw_def parsed_exec)

lemma parsed_dot: "parsed ed ns e \<Longrightarrow> 0 \<le> d \<Longrightarrow> d \<le> lines (state ed) \<Longrightarrow> parsed ed ns (set_dot d e)"
  by (auto simp: parsed_def)

lemma parsed_re:
  "parsed ed ns e \<Longrightarrow> parsed ed ns (set_re_search r e)" "parsed ed ns e \<Longrightarrow> parsed ed ns (set_re_subst r e)"
  "parsed ed ns e \<Longrightarrow> parsed ed ns (statics_update (re_freed_update h) e)"
  "parsed ed ns e \<Longrightarrow> parsed ed ns (sys_n_update f e)"
  by (simp_all add: parsed_def)

lemma parsed_lines: "parsed ed ns e \<Longrightarrow> lines (state e) = lines (state ed)"
  by (auto simp: parsed_def)

lemma parsed_skip: "parsed ed ns e \<Longrightarrow> parsed ed ns (SKIP_WHITESPACE e)"
  by (simp add: SKIP_WHITESPACE_def parsed_input length_dropWhile_le)

lemma parsed_advance: "parsed ed ns e \<Longrightarrow> parsed ed ns (set_input (drop k (input e)) e)"
  by (simp add: parsed_input)

lemmas parsed_intros = parsed_input parsed_exec parsed_throw parsed_re parsed_skip parsed_advance

lemma strtoll_length: "strtoll s = (n, r, b) \<Longrightarrow> length r \<le> length s"
proof -
  assume "strtoll s = (n, r, b)"
  moreover have "length (dropWhile isspace s) \<le> length s" by (rule length_dropWhile_le)
  ultimately show ?thesis by (auto simp: strtoll_def Let_def split: if_splits)
qed

lemma parsed_strtoll: "parsed ed ns e \<Longrightarrow> parsed ed ns (snd (STRTOLL_THROW e))"
  by (auto simp: STRTOLL_THROW_def throw_def intro!: parsed_intros dest: strtoll_length split: prod.splits)

lemma parsed_check: "parsed ed ns e \<Longrightarrow> parsed ed ns (snd (check_address_bounds a e))"
  by (simp add: check_address_bounds_def parsed_throw)

lemma parsed_signed_offset: "parsed ed ns e \<Longrightarrow> parsed ed ns (snd (signed_offset e))"
  by (simp add: signed_offset_def parsed_strtoll)

lemma parsed_offset_loop: "parsed ed ns e \<Longrightarrow> parsed ed ns (snd (offset_loop k a e))"
proof (induction k arbitrary: a e)
  case (Suc k)
  show ?case
    by (auto simp: Let_def intro!: andThen_keeps [where I = "parsed ed ns"] Suc.IH parsed_strtoll parsed_signed_offset
        parsed_skip parsed_advance Suc.prems)
qed simp

lemma parsed_keep: "parsed ed ns e \<Longrightarrow> parsed ed ns (keep_regex ty re e)"
  by (simp add: parsed_def buf_inv_def keep_regex_def free_regex_def split: search_type.split option.split)

lemma parsed_regex: "parsed ed ns e \<Longrightarrow> parsed ed ns (snd (get_compiled_regex lib dc ty e))"
proof -
  have prev: "parsed ed ns (snd (previous_pattern c ty e'))" if "parsed ed ns e'" for e' c
    using that by (auto simp: previous_pattern_def Let_def intro!: parsed_re parsed_throw split: search_type.splits option.splits)
  have reg: "parsed ed ns (snd (regular_expression dc e'))" if "parsed ed ns e'" for e'
    using that re_scan_suffix [of dc "input e'"]
    by (auto simp: regular_expression_def Let_def intro!: parsed_input parsed_throw split: sum.splits)
  assume "parsed ed ns e"
  then show ?thesis
    by (auto simp: get_compiled_regex_def Let_def sys_call_def intro!: prev reg parsed_keep andThen_keeps [where I = "parsed ed ns"] parsed_intros
        split: sum.splits bool.splits)
qed

lemma parsed_matching: "parsed ed ns e \<Longrightarrow> parsed ed ns (snd (get_matching_node_address lib r dir e))"
proof (cases r)
  case (Some re)
  assume p: "parsed ed ns e"
  then have "search_result e ns (List.find (line_matches lib re (buffer_text e ns)) (search_order dir (dot (state e)) (lines (state e))))
      (get_matching_node_address lib (Some re) dir e)"
    by (intro get_matching_node_address_ok) (auto simp: parsed_def)
  with p Some show ?thesis
    by (auto simp: search_result_def intro!: parsed_throw intro: parsed_looked split: option.splits)
qed (simp add: get_matching_node_address_def)

lemma parsed_mark: "parsed ed ns e \<Longrightarrow> parsed ed ns (snd (get_marked_node_address c e))"
  by (auto simp: get_marked_node_address_def get_line_node_address_def Let_def intro!: parsed_throw split: option.splits)

lemma parsed_line_address: "parsed ed ns e \<Longrightarrow> parsed ed ns (snd (line_address lib a e))"
  by (auto simp: line_address_def Let_def check_address_bounds_def parsed_lines
      intro!: andThen_keeps [where I = "parsed ed ns"] parsed_strtoll parsed_regex parsed_matching parsed_mark
        parsed_advance parsed_dot parsed_throw dest: parsed_lines)

lemma parsed_next_address: "parsed ed ns e \<Longrightarrow> parsed ed ns (snd (next_address lib a e))"
  by (auto simp: next_address_def Let_def address_offset_def simp del: offset_loop.simps
      intro!: andThen_keeps [where I = "parsed ed ns"] parsed_line_address parsed_offset_loop parsed_skip)

lemma parsed_range_loop: "parsed ed ns e \<Longrightarrow> parsed ed ns (snd (range_loop lib k have_dc v e))"
proof (induction k arbitrary: have_dc v e)
  case (Suc k)
  show ?case
    by (cases v) (auto simp: Let_def intro!: andThen_keeps [where I = "parsed ed ns"] Suc.IH parsed_next_address
        parsed_input parsed_exec Suc.prems)
qed simp

lemma set_range_parsed: "parsed ed ns e \<Longrightarrow> parsed ed ns (snd (set_range f s d e))"
  unfolding set_range_def
  by (intro andThen_keeps [where I = "parsed ed ns"] parsed_check)
     (auto simp: check_address_bounds_def Let_def intro!: parsed_dot parsed_exec dest: parsed_lines split: if_splits)

lemma set_range_bounds:
  "set_range f s d e = (Inr n, e') \<Longrightarrow>
     0 \<le> region_start (region (exec e')) \<and> region_start (region (exec e')) \<le> lines (state e) \<and>
     0 \<le> region_end (region (exec e')) \<and> region_end (region (exec e')) \<le> lines (state e) \<and>
     n = addrs (region (exec e')) \<and> n = addrs (region (exec e))"
  by (auto simp: set_range_def check_address_bounds_def andThen_eq_Inr Let_def split: if_splits)

text \<open>A range is a range of the buffer, whatever the input.\<close>

lemma address_range_ok:
  assumes inv: "buf_inv ed ns" "disk_inv ed" "sys_all_ok ed" "0 \<le> dot (state ed)" "dot (state ed) \<le> lines (state ed)"
  shows "parsed ed ns (snd (address_range lib ed)) \<and>
    (\<forall>n ed'. address_range lib ed = (Inr n, ed') \<longrightarrow>
       0 \<le> region_start (region (exec ed')) \<and> region_start (region (exec ed')) \<le> lines (state ed) \<and>
       0 \<le> region_end (region (exec ed')) \<and> region_end (region (exec ed')) \<le> lines (state ed) \<and>
       n = addrs (region (exec ed')) \<and> n \<le> 2)"
proof -
  let ?e = "SKIP_WHITESPACE (set_addrs 0 ed)"
  define r where "r = range_loop lib (length (input ?e) + 2) (IS_DELIMITER (cur (input ?e))) (dot (state ?e), dot (state ?e), dot (state ?e)) ?e"
  have p: "parsed ed ns (snd r)"
    unfolding r_def by (intro parsed_range_loop parsed_skip parsed_exec parsed_refl assms) auto
  have eq: "address_range lib ed = andThen r (\<lambda>(first, second, dt) ed.
           let (first, ed) = (if addrs (region (exec ed)) < 2 then (second, ed) else (first, set_addrs 2 ed))
           in if posix_or_traditional ed then set_range first second dt ed
              else set_range (rollover (lines (state ed)) first) (rollover (lines (state ed)) second) dt ed)"
    unfolding address_range_def r_def Let_def by (rule refl)
  show ?thesis
  proof (cases "fst r")
    case (Inl x)
    then have "address_range lib ed = (Inl x, snd r)" unfolding eq by (rule andThen_fst(1))
    with p show ?thesis by simp
  next
    case (Inr v)
    obtain f s d where v: "v = (f, s, d)" by (cases v)
    define e where "e = (if addrs (region (exec (snd r))) < 2 then snd r else set_addrs 2 (snd r))"
    have e: "parsed ed ns e" "addrs (region (exec e)) \<le> 2" using p by (auto simp: e_def intro: parsed_exec)
    define f0 where "f0 = (if addrs (region (exec (snd r))) < 2 then s else f)"
    define f' s' where "f' = (if posix_or_traditional e then f0 else rollover (lines (state e)) f0)"
      and "s' = (if posix_or_traditional e then s else rollover (lines (state e)) s)"
    have "address_range lib ed = set_range f' s' d e"
      unfolding eq andThen_fst(2) [OF Inr] v prod.case f'_def s'_def e_def f0_def
      by (cases "addrs (region (exec (snd r))) < 2") simp_all
    then show ?thesis
      using set_range_parsed [OF e(1)] set_range_bounds [of f' s' d e] e parsed_lines [OF e(1)] by auto
  qed
qed

section \<open>The fuel is enough\<close>

lemma strtoll_consumes: "isdigit (cur s) \<Longrightarrow> strtoll s = (n, r, b) \<Longrightarrow> length r < length s"
proof -
  assume d: "isdigit (cur s)" and r: "strtoll s = (n, r, b)"
  obtain c t where s: "s = c # t" "isdigit c" using d by (cases s) (auto simp: ctype_defs)
  then have "\<not> isspace c" "c \<noteq> CHR ''-''" "c \<noteq> CHR ''+''" by (auto simp: ctype_defs)
  with r s show ?thesis by (auto simp: strtoll_def Let_def split: if_splits)
qed

lemma strtoll_throw_consumes: "isdigit (cur (input e)) \<Longrightarrow> length (input (snd (STRTOLL_THROW e))) < length (input e)"
  by (auto simp: STRTOLL_THROW_def throw_def dest: strtoll_consumes split: prod.splits)

lemma strtoll_throw_length: "length (input (snd (STRTOLL_THROW e))) \<le> length (input e)"
  by (auto simp: STRTOLL_THROW_def throw_def dest: strtoll_length split: prod.splits)

lemma ends_numbers [simp]:
  "ends (STRTOLL_THROW e)" "ends (signed_offset e)"
  "ends (check_address_bounds a e)"
  by (auto simp: STRTOLL_THROW_def signed_offset_def check_address_bounds_def split: prod.splits)

lemma cur_consume: "cur s = c \<Longrightarrow> c \<noteq> NUL \<Longrightarrow> length (drop (Suc 0) s) < length s"
  by (cases s) auto

lemma skip_length: "length (input (SKIP_WHITESPACE e)) \<le> length (input e)"
  by (simp add: SKIP_WHITESPACE_def length_dropWhile_le)

lemma signed_offset_length: "length (input (snd (signed_offset e))) \<le> length (input e)"
  by (simp add: signed_offset_def strtoll_throw_length)

lemma skip_consumes:
  "cur (input e) = CHR '' '' \<or> cur (input e) = CHARACTER_TABULATION \<Longrightarrow> length (input (SKIP_WHITESPACE e)) < length (input e)"
proof -
  assume c: "cur (input e) = CHR '' '' \<or> cur (input e) = CHARACTER_TABULATION"
  then obtain d t where s: "input e = d # t" "isspace d" "d \<noteq> LINE_FEED" by (cases "input e") (auto simp: ctype_defs)
  then show ?thesis using length_dropWhile_le [of "\<lambda>c. isspace c \<and> c \<noteq> LINE_FEED" t]
    by (simp add: SKIP_WHITESPACE_def less_Suc_eq_le)
qed

lemma offset_loop_fuel: "length (input e) < k \<Longrightarrow> ends (offset_loop k a e)"
proof (induction k arbitrary: a e)
  case (Suc k)
  have digit: "ends (andThen (STRTOLL_THROW e') (\<lambda>n ed. offset_loop k (off_t (a + n)) ed))"
    if "isdigit (cur (input e'))" "length (input e') \<le> length (input e)" for e'
    using that strtoll_throw_consumes [OF that(1)] Suc.prems by (intro ends_andThen Suc.IH) auto
  have sign: "ends (andThen (signed_offset (advance e)) (\<lambda>n ed. offset_loop k (off_t (g n)) ed))"
    if "cur (input e) \<noteq> NUL" for g :: "int \<Rightarrow> int"
  proof (intro ends_andThen Suc.IH)
    show "length (input (snd (signed_offset (advance e)))) < k"
      using cur_consume [OF refl that] signed_offset_length [of "advance e"] Suc.prems by simp
  qed simp
  show ?case
    using digit [of e] digit [of "SKIP_WHITESPACE e"] sign [of "\<lambda>n. a + n"] sign [of "\<lambda>n. a - n"] skip_length [of e]
      skip_consumes [of e] Suc.prems by (auto simp: Let_def simp del: One_nat_def intro: Suc.IH)
qed simp

lemma search_loop_fuel:
  "parsed ed ns e \<Longrightarrow> ends (get_matching_node_address lib r dir e)"
proof (cases r)
  case (Some re)
  assume p: "parsed ed ns e"
  then have "search_result e ns (List.find (line_matches lib re (buffer_text e ns)) (search_order dir (dot (state e)) (lines (state e))))
      (get_matching_node_address lib (Some re) dir e)"
    by (intro get_matching_node_address_ok) (auto simp: parsed_def)
  with Some show ?thesis by (auto simp: search_result_def ends_def throw_def split: option.splits)
qed (simp add: get_matching_node_address_def)

lemma regex_fuel: "ends (get_compiled_regex lib dc ty e)"
proof -
  have prev: "ends (previous_pattern c ty e')" for c e'
    by (auto simp: previous_pattern_def Let_def split: search_type.splits option.splits)
  have reg: "ends (regular_expression dc e')" for e'
    by (auto simp: regular_expression_def Let_def split: sum.splits)
  show ?thesis
    by (auto simp: get_compiled_regex_def Let_def intro!: prev reg ends_andThen split: sum.splits search_type.splits prod.splits bool.splits)
qed

lemma mark_fuel: "parsed ed ns e \<Longrightarrow> ends (get_marked_node_address c e)"
proof -
  assume p: "parsed ed ns e"
  then have b: "buf_inv e ns" by (simp add: parsed_def)
  have "ends (get_line_node_address q e)" for q
  proof (cases "q \<in> Some ` set (line_head # ns)")
    case True
    then obtain p where p: "q = Some p" "p \<in> set (line_head # ns)" by auto
    then obtain i where i: "i < length (line_head # ns)" "(line_head # ns) ! i = p" unfolding in_set_conv_nth by blast
    have "get_line_node_address (Some (node_at ns (int i))) e = (Inr (int i), e)"
      by (rule get_line_node_address_found [OF b]) (use i b in \<open>auto simp: buf_inv_def\<close>)
    with i p show ?thesis by simp
  next
    case False
    with get_line_node_address_not_found [OF b False] show ?thesis by simp
  qed
  then show ?thesis by (auto simp: get_marked_node_address_def)
qed

lemma next_address_fuel: "parsed ed ns e \<Longrightarrow> ends (next_address lib a e)"
proof -
  assume p: "parsed ed ns e"
  have "ends (line_address lib a (SKIP_WHITESPACE e))"
    using parsed_skip [OF p]
    by (auto simp: line_address_def Let_def check_address_bounds_def parsed_lines
        intro!: ends_andThen regex_fuel search_loop_fuel [where ed = ed and ns = ns] mark_fuel [where ed = ed and ns = ns]
          parsed_regex parsed_dot parsed_advance)
  then show ?thesis
    by (auto simp: next_address_def Let_def address_offset_def simp del: offset_loop.simps intro!: ends_andThen offset_loop_fuel)
qed

lemma range_loop_fuel:
  "parsed ed ns e \<Longrightarrow> (have_dc \<Longrightarrow> IS_DELIMITER (cur (input e))) \<Longrightarrow> length (input e) + (if have_dc then 0 else 1) < k \<Longrightarrow>
     ends (range_loop lib k have_dc v e)"
proof (induction k arbitrary: have_dc v e)
  case (Suc k)
  obtain f s d where v: "v = (f, s, d)" by (cases v)
  define e1 where "e1 = (if have_dc \<and> addrs (region (exec e)) = 0 then set_addrs 2 e else e)"
  define e2 where "e2 = (if have_dc then advance e1 else e1)"
  have e1: "parsed ed ns e1" "input e1 = input e" using Suc.prems(1) by (auto simp: e1_def intro: parsed_exec)
  have "have_dc \<Longrightarrow> 0 < length (input e)" using Suc.prems(2) by (cases "input e") (auto simp: IS_DELIMITER_def)
  then have e2: "parsed ed ns e2" "length (input e2) < k"
    using parsed_advance [OF e1(1), of 1] e1 Suc.prems(3) by (auto simp: e2_def simp del: length_greater_0_conv split: if_splits)
  have nx: "length (input (snd (next_address lib d' e2))) < k" for d'
    using parsed_next_address [OF parsed_refl, of e2 ns lib d'] e2 by (auto simp: parsed_def)
  have go: "ends (andThen (next_address lib d' e2) (\<lambda>(addr, found) ed.
           let (second, ed) = (if found then (addr, set_addrs (addrs (region (exec ed)) + 1) ed) else (s', ed))
           in if IS_DELIMITER (cur (input ed)) then range_loop lib k True (f', second, d') ed
              else (Inr (f', second, d'), ed)))" for f' s' d'
    using nx [of d'] parsed_next_address [OF e2(1), of lib d']
    by (auto simp: Let_def intro!: ends_andThen next_address_fuel [OF e2(1)] Suc.IH parsed_exec)
  show ?case
    using go unfolding e2_def e1_def
    by (cases have_dc; cases "addrs (region (exec e)) = 0") (simp_all add: v Let_def)
qed simp

lemma address_range_ends:
  assumes inv: "buf_inv ed ns" "disk_inv ed" "sys_all_ok ed" "0 \<le> dot (state ed)" "dot (state ed) \<le> lines (state ed)"
  shows "ends (address_range lib ed)"
proof -
  let ?e = "SKIP_WHITESPACE (set_addrs 0 ed)"
  have p: "parsed ed ns ?e" by (intro parsed_skip parsed_exec parsed_refl assms) auto
  have set: "ends (set_range f s d e)" for f s d e by (auto simp: set_range_def intro!: ends_andThen)
  have "ends (range_loop lib (length (input ?e) + 2) (IS_DELIMITER (cur (input ?e))) (dot (state ?e), dot (state ?e), dot (state ?e)) ?e)"
    by (rule range_loop_fuel [OF p]) auto
  then show ?thesis
    unfolding address_range_def Let_def by (rule ends_andThen) (auto intro!: set)
qed

section \<open>Reading back a range\<close>

text \<open>A character that ends an address\<close>

definition ends_address :: "char \<Rightarrow> bool" where
  "ends_address c \<longleftrightarrow> \<not> isdigit c \<and> c \<notin> {CHR ''+'', CHR ''-'', CHR ''^'', CHR '' '', CHARACTER_TABULATION}"

lemma strtoll_throw_decimal:
  assumes "int n \<le> LLONG_MAX" "\<not> isdigit (cur rest)" "input ed = decimal n @ rest"
  shows "STRTOLL_THROW ed = (Inr (int n), set_input rest ed)"
  using strtoll_decimal [OF assms(1,2)] assms(3) by (simp add: STRTOLL_THROW_def)

lemma offset_loop_stop: "ends_address (cur (input ed)) \<Longrightarrow> address_offset a ed = (Inr a, ed)"
  by (simp add: address_offset_def ends_address_def)

lemma decimal_cur: "isdigit (cur (decimal n @ rest)) \<and> \<not> isspace (cur (decimal n @ rest)) \<and> decimal n @ rest \<noteq> []"
proof -
  obtain d ds where "d < 10" "decimal n = digit d # ds" using decimal_hd by blast
  then show ?thesis using digit_props [of d] digit_not_space [of d] by simp
qed

lemma skip_none: "\<not> isspace (cur (input ed)) \<Longrightarrow> SKIP_WHITESPACE ed = ed"
  by (cases "input ed") (auto simp: SKIP_WHITESPACE_def)

lemma next_address_decimal:
  assumes "int n \<le> LLONG_MAX" "ends_address (cur rest)" "input ed = decimal n @ rest"
  shows "next_address lib a ed = (Inr (int n, True), set_input rest ed)"
proof -
  have c: "isdigit (cur (input ed))" "SKIP_WHITESPACE ed = ed" using decimal_cur [of n rest] assms(3) by (auto intro: skip_none)
  have "line_address lib a ed = (Inr (int n), set_input rest ed)"
    using strtoll_throw_decimal [OF assms(1) _ assms(3)] assms(2) c by (simp add: line_address_def Let_def ends_address_def)
  then show ?thesis
    using assms(2,3) c decimal_digits [of n] by (simp add: next_address_def offset_loop_stop)
qed

lemma range_round:
  assumes "addrs (region (exec e)) \<noteq> 0" "cur (input e) \<noteq> CHR '';''"
    and "next_address lib d (advance e) = (Inr (a, True), e')" "\<not> IS_DELIMITER (cur (input e'))"
  shows "range_loop lib (Suc k) True (f, s, d) e = (Inr (s, a, d), set_addrs (addrs (region (exec e')) + 1) e')"
  using assms by (simp add: Let_def)

lemma address_range_decimal:
  assumes "int n \<le> lines (state ed)" "int m \<le> lines (state ed)" "lines (state ed) \<le> LLONG_MAX"
    and "0 \<le> dot (state ed)" "dot (state ed) \<le> lines (state ed)"
    and "ends_address (cur rest)" "\<not> IS_DELIMITER (cur rest)" "c = CHR '','' \<or> c = CHR ''%''"
    and "input ed = decimal n @ c # decimal m @ rest"
  shows "\<exists>ed'. address_range lib ed = (Inr 2, ed') \<and> input ed' = rest \<and> state ed' = state ed \<and> core ed' = core ed \<and>
    region (exec ed') = \<lparr>region_start = int n, region_end = int m, addrs = 2\<rparr>"
proof -
  let ?d = "dot (state ed)" and ?e0 = "set_addrs 0 ed"
  have le: "int n \<le> LLONG_MAX" "int m \<le> LLONG_MAX" using assms by auto
  have s: "SKIP_WHITESPACE ?e0 = ?e0" using decimal_cur [of n] assms(9) by (intro skip_none) simp
  have dc: "\<not> IS_DELIMITER (cur (input ed))"
    using decimal_cur [of n "c # decimal m @ rest"] assms(9) by (auto simp: IS_DELIMITER_def ctype_defs)
  have c: "ends_address c" "IS_DELIMITER c" "c \<noteq> CHR '';''" using assms(8) by (auto simp: ends_address_def IS_DELIMITER_def ctype_defs)
  have n1: "next_address lib ?d ?e0 = (Inr (int n, True), set_input (c # decimal m @ rest) ?e0)"
    using next_address_decimal [OF le(1), of "c # decimal m @ rest" ?e0 lib ?d] c assms(9) by simp
  define e1 where "e1 = set_addrs 1 (set_input (c # decimal m @ rest) ?e0)"
  have n2: "next_address lib ?d (advance e1) = (Inr (int m, True), set_input rest (advance e1))"
    by (rule next_address_decimal [OF le(2) assms(6)]) (simp add: e1_def)
  have r1: "range_loop lib (Suc k) True (?d, int n, ?d) e1 = (Inr (int n, int m, ?d), set_addrs 2 (set_input rest (advance e1)))" for k
    using range_round [OF _ _ n2, of k ?d "int n"] assms(7) c by (simp add: e1_def)
  obtain k where k: "length (input ?e0) + 2 = Suc (Suc k)" by simp
  have r: "range_loop lib (length (input ?e0) + 2) False (?d, ?d, ?d) ?e0 = (Inr (int n, int m, ?d), set_addrs 2 (set_input rest (advance e1)))"
    unfolding k using n1 c r1 [of k] by (subst range_loop.simps(2)) (simp add: Let_def e1_def del: range_loop.simps)
  have ro: "rollover (lines (state ed)) (int n) = int n" "rollover (lines (state ed)) (int m) = int m"
    using assms by (auto simp: rollover_def)
  show ?thesis
    using s dc r ro assms(1-5)
    by (auto simp: address_range_def Let_def e1_def set_range_def check_address_bounds_def simp del: range_loop.simps)
qed

end
