(* ===== verification/Append.thy ===== *)
theory Append
  imports Line_Input Address
begin

text \<open>
  \<open>append_lines\<close> (\<open>cmds.c\<close>): lines put after an address from the standard input, from the
  argument of the command, or from the command list of a global command, to a line that is a
  single period or to the end of the input.
\<close>

section \<open>The code\<close>

text \<open>Commands are not read from a global command list: \<open>!ed->exec->global || ed->core->sp\<close>\<close>

definition reads_input :: "ed_buffer \<Rightarrow> bool" where
  "reads_input ed \<longleftrightarrow> global (exec ed) = {} \<or> sp (core ed) \<noteq> 0"

text \<open>The length of the first line of a memory, its newline included; \<open>None\<close> when no newline is
  found and the scan runs past the memory\<close>

definition line_length :: "string \<Rightarrow> nat option" where
  "line_length s = (if LINE_FEED \<in> set s then Some (length (takeWhile (\<lambda>c. c \<noteq> LINE_FEED) s) + 1) else None)"

text \<open>The argument of the command becomes the input, with the final period added.\<close>

definition append_argument :: "ed_buffer \<Rightarrow> unit res" where
  "append_argument ed =
     (case get_extended_line False True True ed of
        (Inl _, ed) \<Rightarrow>
          (Inl ERR, clearerr (std_in ed) (if feof (std_in ed) ed then set_err ''End-of-file unexpected'' ed else ed))
      | (Inr s, ed) \<Rightarrow>
          (Inr (), set_input (if NUL \<in> set s then cstr s
                              else s @ (if global (exec ed) = {} then [CHR ''.'', LINE_FEED] else [])) ed))"

text \<open>The next line of the input: its length, or \<open>None\<close> at the end of the input\<close>

definition append_input :: "bool \<Rightarrow> ed_buffer \<Rightarrow> nat option res" where
  "append_input have_arg ed =
     (if reads_input ed then
        if have_arg then
          (if cur (input ed) = NUL then (Inr None, ed)
           else case line_length (cstr (input ed)) of
                  None \<Rightarrow> (Inl FATAL, ed)
                | Some len \<Rightarrow> (Inr (Some len), inc_line_no ed))
        else
          (case get_stdin_line ed of
             (Inl _, ed) \<Rightarrow> (if feof (std_in ed) ed then Inr None else Inl ERR, clearerr (std_in ed) (set_input [] ed))
           | (Inr line, ed) \<Rightarrow>
               let ed = set_input line ed in
               if last line \<noteq> LINE_FEED
               then (Inl ERR, clearerr (std_in ed) (set_err ''End-of-file unexpected'' ed))
               else (Inr (Some (length line)), inc_line_no ed))
      else if cur (input ed) = NUL then (Inr None, ed)
      else case line_length (input ed) of
             None \<Rightarrow> (Inl FATAL, ed)
           | Some len \<Rightarrow> (Inr (Some len), ed))"

definition append_flags :: "int \<Rightarrow> ed_buffer \<Rightarrow> ed_buffer" where
  "append_flags after ed =
     (let ed = set_is_binary (is_binary (state ed) \<or> input_is_binary (state ed)) (spl1 ed)
      in if after = lines (state ed) then set_newline_appended False ed else ed)"

text \<open>The line put and recorded; the input is left at the line after it.\<close>

definition append_line :: "int \<Rightarrow> nat \<Rightarrow> nat option \<Rightarrow> ed_buffer \<Rightarrow> nat res" where
  "append_line after len up ed =
     (let ed = append_flags after ed
      in case put_buffer_line (input ed) len ed of
           (Inl _, ed) \<Rightarrow> (Inl ERR, spl0 (set_input [] ed))
         | (Inr rest, ed) \<Rightarrow>
             (let ed = set_input rest ed;
                  (lp, ed) = get_line_node (dot (state ed)) ed
              in andThen (APPEND_UNDO_NODE lp up (dot (state ed)) ed) (\<lambda>i ed.
                   (Inr i, spl0 (set_is_modified True (set_is_empty False ed))))))"

text \<open>Each round consumes a character of the input or of the standard input.\<close>

primrec append_loop :: "nat \<Rightarrow> bool \<Rightarrow> int \<Rightarrow> nat option \<Rightarrow> ed_buffer \<Rightarrow> unit res" where
  "append_loop 0 have_arg after up ed = (Inl FATAL, ed)"
| "append_loop (Suc k) have_arg after up ed =
     andThen (append_input have_arg ed) (\<lambda>n ed.
       case n of
         None \<Rightarrow> (Inr (), ed)
       | Some len \<Rightarrow>
           if cur (input ed) = CHR ''.'' \<and> peek 1 (input ed) = LINE_FEED
           then (Inr (), set_input (drop 1 (input ed)) ed)
           else andThen (append_line after len up ed) (\<lambda>i ed. append_loop k have_arg after (Some i) ed))"

definition append_lines :: "int \<Rightarrow> ed_buffer \<Rightarrow> unit res" where
  "append_lines after ed =
     (let have_arg = (cur (input ed) \<noteq> NUL)
      in andThen (if reads_input ed \<and> have_arg then append_argument ed else (Inr (), ed)) (\<lambda>_ ed.
           let ed = set_dot after (set_input_is_binary False ed)
           in append_loop (length (input ed) + line_fuel (std_in ed) ed + 1) have_arg after None ed))"

section \<open>One line\<close>

lemma typing_cong:
  assumes "core e' = core e" "state1 e' = state1 e" "statics e' = statics e" "streams e' = streams e" "sys_ok e' = sys_ok e"
    "lines (state e') = lines (state e)" "dot (state e') = dot (state e)"
  shows "typing e' ns0 A B ta tb new ts up = typing e ns0 A B ta tb new ts up"
  using adding_cong [of e' e] buffer_text_same [of e' e] assms
  by (simp add: typing_def disk_inv_def node_stored_def sys_all_ok_def)

lemma typing_flags [simp]:
  "typing (set_is_binary b ed) ns0 A B ta tb new ts up = typing ed ns0 A B ta tb new ts up"
  "typing (set_newline_appended b ed) ns0 A B ta tb new ts up = typing ed ns0 A B ta tb new ts up"
  "typing (set_is_empty b ed) ns0 A B ta tb new ts up = typing ed ns0 A B ta tb new ts up"
  "typing (set_is_modified b ed) ns0 A B ta tb new ts up = typing ed ns0 A B ta tb new ts up"
  "typing (set_input_is_binary b ed) ns0 A B ta tb new ts up = typing ed ns0 A B ta tb new ts up"
  "typing (input_update f ed) ns0 A B ta tb new ts up = typing ed ns0 A B ta tb new ts up"
  by (rule typing_cong; simp)+

text \<open>What putting a line keeps of the state that the loops look at\<close>

definition put_keeps :: "ed_buffer \<Rightarrow> ed_buffer \<Rightarrow> bool" where
  "put_keeps ed ed' \<longleftrightarrow>
     (\<forall>fp. fp \<noteq> core_fp (core ed) \<longrightarrow> streams ed' fp = streams ed fp) \<and> core_fp (core ed') = core_fp (core ed) \<and>
     std_in ed' = std_in ed \<and> sp (core ed') = sp (core ed) \<and> state1 ed' = state1 ed \<and> mutex ed' = mutex ed \<and>
     global_buffer (core ed') = global_buffer (core ed) \<and> global (exec ed') = global (exec ed) \<and>
     address (exec ed') = address (exec ed) \<and> display ed' = display ed \<and> std_out ed' = std_out ed"

lemma put_keeps_trans: "put_keeps a b \<Longrightarrow> put_keeps b c \<Longrightarrow> put_keeps a c"
  by (simp add: put_keeps_def)

lemma put_keeps_refl [simp]: "put_keeps ed ed"
  by (simp add: put_keeps_def)

lemma append_line_ok:
  assumes ty: "typing ed ns0 A B ta tb new ts up" and r: "room 1 (length t) ed" and inp: "input ed = t @ LINE_FEED # rest"
  shows "\<exists>i ed'. append_line after (Suc (length t)) up ed = (Inr i, ed') \<and>
     typing ed' ns0 A B ta tb (new @ [next_node (core ed)]) (ts @ [t]) (Some i) \<and> put_keeps ed ed' \<and>
     f_data (disk ed') = f_data (disk ed) @ t \<and> lines (state ed') = lines (state ed) + 1 \<and> input ed' = rest \<and>
     is_modified (state ed') \<and> \<not> is_empty (state ed')"
proof -
  define e0 where "e0 = append_flags after ed"
  have k0: "core e0 = core ed" "streams e0 = streams ed" "dot (state e0) = dot (state ed)" "lines (state e0) = lines (state ed)"
    "state1 e0 = state1 ed" "exec e0 = exec ed" "mutex e0 = mutex ed + 1" "input e0 = input ed" "std_in e0 = std_in ed" "std_out e0 = std_out ed"
    "statics e0 = statics ed" "sys_ok e0 = sys_ok ed" "display e0 = display ed"
    by (simp_all add: e0_def append_flags_def Let_def spl1_def)
  have ty0: "typing e0 ns0 A B ta tb new ts up" using ty typing_cong [of e0 ed] k0 by simp
  have r0: "room 1 (length t) e0" using r k0 by (simp add: room_def)
  show ?thesis
  proof (rule typing_put [OF ty0 r0, of "t @ LINE_FEED # rest"])
    fix lp ed1
    assume p: "put_buffer_line (t @ LINE_FEED # rest) (Suc (length t)) e0 = (Inr (drop (Suc (length t)) (t @ LINE_FEED # rest)), ed1)"
      "lp = next_node (core e0)" "buf_inv ed1 (A @ new @ lp # B)" "disk_inv ed1" "sys_all_ok ed1"
      "state ed1 = (state e0)\<lparr>dot := dot (state e0) + 1, lines := lines (state e0) + 1\<rparr>"
      "f_data (disk ed1) = f_data (disk e0) @ take (length t) (t @ LINE_FEED # rest)"
      "state1 ed1 = state1 e0" "exec ed1 = exec e0" "mutex ed1 = mutex e0" "input ed1 = input e0"
      "core ed1 = (core e0)\<lparr>nodes := put_heap lp (length t) (int (length (f_data (disk e0))))
          (last (line_head # A @ new)) (nodes (core e0)), next_node := Suc lp, seek_on_write := False,
        offset := int (length (f_data (disk e0)) + length t)\<rparr>"
      "buffer_text ed1 (A @ new @ lp # B) = ta @ ts @ take (length t) (t @ LINE_FEED # rest) # tb"
    let ?d = "dot (state ed1)"
    define e where "e = cache_node lp ?d (set_input rest ed1)"
    have d: "?d = int (length (A @ new @ [lp]))" using p(6) k0 ty by (simp add: typing_def)
    have at: "node_at (A @ new @ lp # B) ?d = lp"
      unfolding d using node_at_segments(1) [of "A @ new @ lp # B" "A @ new @ [lp]" "[]" B] by simp
    have b: "buf_inv (set_input rest ed1) (A @ new @ lp # B)" using p(3) by simp
    have dl: "0 \<le> ?d" "?d \<le> lines (state (set_input rest ed1))" using d p(3) by (simp_all add: buf_inv_def)
    have g: "get_line_node ?d (set_input rest ed1) = (lp, e)"
      using get_line_node_eq [OF b dl] at by (simp add: e_def)
    have eb: "buf_inv e (A @ new @ lp # B)" using buf_inv_cache_node [OF b dl] at by (simp add: e_def)
    have se: "state e = state ed1" by (simp add: e_def cache_node_def)
    have same: "same_buffer ed1 e (A @ new @ lp # B)"
      using eb p by (simp add: same_buffer_def e_def cache_node_def)
    have f1: "disk_frame e0 ed1" using disk_frame_put_buffer_line [of e0 "t @ LINE_FEED # rest" "Suc (length t)"] p(1) by simp
    show ?thesis
    proof (rule typing_undo [OF ty0 p(2), where edp = ed1 and e = e and m = "length t" and t = t])
      fix i e2 q
      assume u: "APPEND_UNDO_NODE lp up ?d e = (Inr i, e2)"
        "typing e2 ns0 A B ta tb (new @ [lp]) (ts @ [t]) (Some i)"
        "core e2 = (core e)\<lparr>undo_queue := q\<rparr>" "state e2 = state e" "state1 e2 = state1 e" "streams e2 = streams e"
        "exec e2 = exec e" "mutex e2 = mutex e" "input e2 = input e" "sys_all_ok e2"
      define e3 where "e3 = spl0 (set_is_modified True (set_is_empty False e2))"
      have de: "disk_frame e e2" using disk_frame_APPEND [of e lp up ?d] u(1) by simp
      have "append_line after (Suc (length t)) up ed = (Inr i, e3)"
        unfolding append_line_def Let_def
        using p(1) g u(1) inp k0(8) se by (simp add: e0_def e3_def)
      moreover have "typing e3 ns0 A B ta tb (new @ [lp]) (ts @ [t]) (Some i)" using u(2) typing_cong [of e3 e2] by (simp add: e3_def)
      moreover have "put_keeps ed e3"
        using f1 de u p k0 by (auto simp: put_keeps_def disk_frame_def e3_def spl0_def e_def cache_node_def)
      moreover have "f_data (disk e3) = f_data (disk ed) @ t" "lines (state e3) = lines (state ed) + 1" "input e3 = rest"
        "is_modified (state e3)" "\<not> is_empty (state e3)"
        using u p k0 by (simp_all add: e3_def spl0_def e_def cache_node_def)
      ultimately show ?thesis using p(2) k0(1) by auto
    qed (use p same in simp_all)
  qed simp
qed

section \<open>The lines of a source\<close>

text \<open>What taking a line from the input leaves alone\<close>

definition source_frame :: "ed_buffer \<Rightarrow> ed_buffer \<Rightarrow> bool" where
  "source_frame ed e \<longleftrightarrow>
     core e = core ed \<and> state1 e = state1 ed \<and> statics e = statics ed \<and> sys_ok e = sys_ok ed \<and>
     dot (state e) = dot (state ed) \<and> lines (state e) = lines (state ed) \<and> mutex e = mutex ed \<and> std_in e = std_in ed \<and>
     global (exec e) = global (exec ed) \<and> address (exec e) = address (exec ed) \<and> display e = display ed \<and> std_out e = std_out ed \<and> is_modified (state e) = is_modified (state ed) \<and>
     is_empty (state e) = is_empty (state ed) \<and> streams e (core_fp (core ed)) = disk ed \<and> (\<forall>fp. fp \<noteq> std_in ed \<longrightarrow> streams e fp = streams ed fp)"

definition append_frame :: "ed_buffer \<Rightarrow> ed_buffer \<Rightarrow> bool" where
  "append_frame ed ed' \<longleftrightarrow>
     core_fp (core ed') = core_fp (core ed) \<and> std_in ed' = std_in ed \<and> sp (core ed') = sp (core ed) \<and> state1 ed' = state1 ed \<and>
     mutex ed' = mutex ed \<and> global_buffer (core ed') = global_buffer (core ed) \<and> global (exec ed') = global (exec ed) \<and>
     address (exec ed') = address (exec ed) \<and> display ed' = display ed \<and> std_out ed' = std_out ed \<and> (\<forall>fp. fp \<noteq> std_in ed \<longrightarrow> fp \<noteq> core_fp (core ed) \<longrightarrow> streams ed' fp = streams ed fp)"

lemma append_frame_trans: "append_frame a b \<Longrightarrow> append_frame b c \<Longrightarrow> append_frame a c"
  by (auto simp: append_frame_def)

lemma append_frame_source: "source_frame a b \<Longrightarrow> append_frame a b"
  by (auto simp: append_frame_def source_frame_def)

lemma append_frame_put: "put_keeps a b \<Longrightarrow> append_frame a b"
  by (auto simp: append_frame_def put_keeps_def)

lemma append_frame_input: "append_frame a b \<Longrightarrow> append_frame a (set_input s b)"
  by (simp add: append_frame_def)

lemma typing_source:
  assumes "source_frame ed e"
  shows "typing e ns0 A B ta tb new ts up = typing ed ns0 A B ta tb new ts up"
proof -
  have "adding e ns0 A B new up = adding ed ns0 A B new up" by (rule adding_cong) (use assms in \<open>simp_all add: source_frame_def\<close>)
  moreover have "buffer_text e = buffer_text ed" by (rule buffer_text_same) (use assms in \<open>simp_all add: source_frame_def\<close>)
  ultimately show ?thesis
    using assms by (simp add: typing_def source_frame_def disk_inv_def node_stored_def sys_all_ok_def)
qed

text \<open>
  A source of lines: where \<open>src ed us\<close> holds, the next lines that \<open>append_input\<close> gives are \<open>us\<close>,
  and \<open>tail\<close> is what the input is left at after the last of them.
\<close>

locale line_source =
  fixes have_arg :: bool and src :: "ed_buffer \<Rightarrow> string list \<Rightarrow> bool" and tail :: string
  assumes next_line: "src ed (t # us) \<Longrightarrow> sys_all_ok ed \<Longrightarrow>
     \<exists>e r. append_input have_arg ed = (Inr (Some (Suc (length t))), e) \<and> input e = t @ LINE_FEED # r \<and> source_frame ed e \<and>
       (us = [] \<longrightarrow> r = tail) \<and> LINE_FEED \<notin> set t \<and>
       (\<forall>e'. put_keeps e e' \<longrightarrow> sys_all_ok e' \<longrightarrow> input e' = r \<longrightarrow> src e' us)"

context line_source begin

lemma append_loop_ok:
  "typing ed ns0 A B ta tb new ts up \<Longrightarrow> src ed (us @ [''.'']) \<Longrightarrow> ''.'' \<notin> set us \<Longrightarrow>
   room (length us) (total_length us) ed \<Longrightarrow> length us < k \<Longrightarrow>
     \<exists>new' up' ed'. append_loop k have_arg after up ed = (Inr (), ed') \<and>
       typing ed' ns0 A B ta tb (new @ new') (ts @ us) up' \<and> append_frame ed ed' \<and> input ed' = LINE_FEED # tail \<and>
       src (set_input tail ed') [] \<and>
       is_modified (state ed') = (is_modified (state ed) \<or> us \<noteq> []) \<and> is_empty (state ed') = (is_empty (state ed) \<and> us = [])"
proof (induction us arbitrary: ed new ts up k)
  case Nil
  then obtain k' where k: "k = Suc k'" by (cases k) auto
  have ok: "sys_all_ok ed" using Nil.prems(1) by (simp add: typing_def)
  obtain e where e: "append_input have_arg ed = (Inr (Some (Suc 1)), e)" "input e = ''.'' @ LINE_FEED # tail" "source_frame ed e"
    "\<forall>e'. put_keeps e e' \<longrightarrow> sys_all_ok e' \<longrightarrow> input e' = tail \<longrightarrow> src e' []"
    using next_line [of ed "''.''" "[]"] Nil.prems(2) ok by auto
  have "sys_all_ok e" using ok e(3) by (simp add: source_frame_def sys_all_ok_def)
  then have s: "src (set_input tail e) []" using e(4) by (simp add: put_keeps_def sys_all_ok_def)
  have "append_loop k have_arg after up ed = (Inr (), set_input (LINE_FEED # tail) e)"
    using e by (simp add: k)
  moreover have "typing (set_input (LINE_FEED # tail) e) ns0 A B ta tb (new @ []) (ts @ []) up"
    using Nil.prems(1) typing_source [OF e(3)] by simp
  moreover have "append_frame ed (set_input (LINE_FEED # tail) e)"
    using e(3) by (intro append_frame_input append_frame_source)
  ultimately show ?case using e(3) s
    by (intro exI [of _ "[]"] exI [of _ up] exI [of _ "set_input (LINE_FEED # tail) e"]) (simp add: source_frame_def)
next
  case (Cons u us)
  then obtain k' where k: "k = Suc k'" "length us < k'" by (cases k) auto
  have ok: "sys_all_ok ed" using Cons.prems(1) by (simp add: typing_def)
  obtain e r where e: "append_input have_arg ed = (Inr (Some (Suc (length u))), e)" "input e = u @ LINE_FEED # r" "source_frame ed e"
    "LINE_FEED \<notin> set u" "\<forall>e'. put_keeps e e' \<longrightarrow> sys_all_ok e' \<longrightarrow> input e' = r \<longrightarrow> src e' (us @ [''.''])"
    using next_line [of ed u "us @ [''.'']"] Cons.prems(2) ok by auto
  have te: "typing e ns0 A B ta tb new ts up" using Cons.prems(1) typing_source [OF e(3)] by simp
  have re: "room 1 (length u) e" using Cons.prems(4) e(3) by (auto simp: room_def source_frame_def)
  obtain i e' where p: "append_line after (Suc (length u)) up e = (Inr i, e')"
    "typing e' ns0 A B ta tb (new @ [next_node (core e)]) (ts @ [u]) (Some i)" "put_keeps e e'"
    "f_data (disk e') = f_data (disk e) @ u" "lines (state e') = lines (state e) + 1" "input e' = r"
    "is_modified (state e')" "\<not> is_empty (state e')"
    using append_line_ok [OF te re e(2), of after] by blast
  have nodot: "\<not> (cur (input e) = CHR ''.'' \<and> peek 1 (input e) = LINE_FEED)"
  proof
    assume d: "cur (input e) = CHR ''.'' \<and> peek 1 (input e) = LINE_FEED"
    then obtain u' where u: "u = CHR ''.'' # u'" using e(2) by (cases u) auto
    with d e(2,4) have "u' = []" by (cases u') auto
    with u Cons.prems(3) show False by simp
  qed
  have ok': "sys_all_ok e'" using p(2) by (simp add: typing_def)
  then have s': "src e' (us @ [''.''])" using e(5) p(3,6) by blast
  have r': "room (length us) (total_length us) e'"
    using Cons.prems(4) p(4,5) e(3) by (simp add: room_def source_frame_def)
  obtain new' up' ed' where q: "append_loop k' have_arg after (Some i) e' = (Inr (), ed')"
    "typing ed' ns0 A B ta tb ((new @ [next_node (core e)]) @ new') ((ts @ [u]) @ us) up'" "append_frame e' ed'"
    "input ed' = LINE_FEED # tail" "is_modified (state ed') = (is_modified (state e') \<or> us \<noteq> [])"
    "is_empty (state ed') = (is_empty (state e') \<and> us = [])" "src (set_input tail ed') []"
    using Cons.IH [OF p(2) s' _ r' k(2)] Cons.prems(3) by fastforce
  have "append_loop k have_arg after up ed = (Inr (), ed')"
    using e(1) nodot p(1) q(1) by (auto simp: k)
  moreover have "append_frame ed ed'"
    by (rule append_frame_trans [OF append_frame_source [OF e(3)] append_frame_trans [OF append_frame_put [OF p(3)] q(3)]])
  ultimately show ?case using q(2,4,5,6,7) p(7,8) by (intro exI [of _ "next_node (core e) # new'"] exI [of _ up'] exI [of _ ed']) simp
qed

end

section \<open>The input in memory\<close>

definition memory_source :: "bool \<Rightarrow> string \<Rightarrow> ed_buffer \<Rightarrow> string list \<Rightarrow> bool" where
  "memory_source h rest ed us \<longleftrightarrow>
     (reads_input ed \<longrightarrow> h) \<and> input ed = bytes_of us @ rest \<and> (\<forall>t\<in>set us. LINE_FEED \<notin> set t \<and> NUL \<notin> set t)"

lemma line_length_line: "LINE_FEED \<notin> set t \<Longrightarrow> line_length (t @ LINE_FEED # r) = Some (Suc (length t))"
proof -
  assume "LINE_FEED \<notin> set t"
  then have "takeWhile (\<lambda>c. c \<noteq> LINE_FEED) (t @ LINE_FEED # r) = t" by (induction t) auto
  then show ?thesis by (simp add: line_length_def)
qed

lemma cstr_line: "NUL \<notin> set t \<Longrightarrow> cstr (t @ LINE_FEED # r) = t @ LINE_FEED # cstr r"
  by (induction t) (auto simp: cstr_def)

lemma cur_line: "NUL \<notin> set t \<Longrightarrow> cur (t @ LINE_FEED # r) \<noteq> NUL"
  by (cases t) auto

interpretation memory: line_source h "memory_source h rest" rest for h rest
proof unfold_locales
  fix ed t us
  assume s: "memory_source h rest ed (t # us)" and ok: "sys_all_ok ed"
  have inp: "input ed = t @ LINE_FEED # bytes_of us @ rest" and t: "LINE_FEED \<notin> set t" "NUL \<notin> set t"
    using s by (simp_all add: memory_source_def)
  define e where "e = (if reads_input ed then inc_line_no ed else ed)"
  have "append_input h ed = (Inr (Some (Suc (length t))), e)"
    using s inp t by (auto simp: append_input_def e_def memory_source_def cur_line cstr_line line_length_line)
  moreover have "source_frame ed e" "input e = input ed" by (simp_all add: e_def source_frame_def)
  moreover have "memory_source h rest e' us" if "put_keeps e e'" "input e' = bytes_of us @ rest" for e'
    using that s by (auto simp: memory_source_def put_keeps_def reads_input_def e_def split: if_splits)
  ultimately show "\<exists>e r. append_input h ed = (Inr (Some (Suc (length t))), e) \<and> input e = t @ LINE_FEED # r \<and> source_frame ed e \<and>
       (us = [] \<longrightarrow> r = rest) \<and> LINE_FEED \<notin> set t \<and>
       (\<forall>e'. put_keeps e e' \<longrightarrow> sys_all_ok e' \<longrightarrow> input e' = r \<longrightarrow> memory_source h rest e' us)"
    using inp t by (intro exI [of _ e] exI [of _ "bytes_of us @ rest"]) auto
qed

section \<open>The standard input\<close>

definition stdin_source :: "string \<Rightarrow> ed_buffer \<Rightarrow> string list \<Rightarrow> bool" where
  "stdin_source rest ed us \<longleftrightarrow>
     reads_input ed \<and> std_in ed \<noteq> core_fp (core ed) \<and> \<not> f_eof (streams ed (std_in ed)) \<and>
     rest_of (streams ed (std_in ed)) = bytes_of us @ rest \<and>
     (\<forall>t\<in>set us. LINE_FEED \<notin> set t \<and> int (length t) < SIZE_MAX - 3)"

interpretation stdin: line_source False "stdin_source rest" "[]" for rest
proof unfold_locales
  fix ed t us
  assume s: "stdin_source rest ed (t # us)" and ok: "sys_all_ok ed"
  let ?fp = "std_in ed"
  obtain e where e: "get_stream_line ?fp ed = (Inr (t @ [LINE_FEED]), e)" "read_frame ?fp ed e"
    "rest_of (streams e ?fp) = bytes_of us @ rest" "\<not> f_eof (streams e ?fp)"
    using get_stream_line_newline [of t ed ?fp "bytes_of us @ rest"] ok s by (auto simp: stdin_source_def)
  define e1 where "e1 = inc_line_no (set_input (t @ [LINE_FEED]) e)"
  have "append_input False ed = (Inr (Some (Suc (length t))), e1)"
    using s e(1) by (simp add: append_input_def stdin_source_def get_stdin_line_def e1_def)
  moreover have f: "source_frame ed e1"
    using e(2) s read_frame_state [OF e(2)] by (auto simp: source_frame_def read_frame_def stdin_source_def e1_def)
  moreover have "stdin_source rest e' us" if "put_keeps e1 e'" for e'
    using that s e f by (auto simp: stdin_source_def put_keeps_def reads_input_def source_frame_def e1_def read_frame_def)
  ultimately show "\<exists>e r. append_input False ed = (Inr (Some (Suc (length t))), e) \<and> input e = t @ LINE_FEED # r \<and> source_frame ed e \<and>
       (us = [] \<longrightarrow> r = []) \<and> LINE_FEED \<notin> set t \<and>
       (\<forall>e'. put_keeps e e' \<longrightarrow> sys_all_ok e' \<longrightarrow> input e' = r \<longrightarrow> stdin_source rest e' us)"
    using s by (intro exI [of _ e1] exI [of _ "[]"]) (auto simp: e1_def stdin_source_def)
qed

section \<open>The command\<close>

text \<open>What both uses of the loop give\<close>

definition appended :: "ed_buffer \<Rightarrow> node list \<Rightarrow> node list \<Rightarrow> int \<Rightarrow> string list \<Rightarrow> string \<Rightarrow> ed_buffer \<Rightarrow> bool" where
  "appended ed ns0 ns after us rest ed' \<longleftrightarrow>
     (\<exists>ns'. buf_inv ed' ns' \<and> undo_inv ed' ns0 ns' \<and> disk_inv ed' \<and>
        buffer_text ed' ns' = insert_after after us (buffer_text ed ns)) \<and>
     buffer_text ed' ns = buffer_text ed ns \<and> sys_all_ok ed' \<and>
     dot (state ed') = after + int (length us) \<and> input ed' = LINE_FEED # rest \<and> append_frame ed ed' \<and>
     is_modified (state ed') = (is_modified (state ed) \<or> us \<noteq> [])"

lemma appended_loop:
  assumes inv: "buf_inv ed ns" "undo_inv ed ns0 ns" "disk_inv ed" "sys_all_ok ed" "0 \<le> after" "after \<le> lines (state ed)"
    and e: "e = set_dot after (set_input_is_binary False ed)"
    and loop: "\<And>A B ta tb. typing e ns0 A B ta tb [] [] None \<Longrightarrow>
      \<exists>new' up' ed'. append_loop k h after None e = (Inr (), ed') \<and> typing ed' ns0 A B ta tb ([] @ new') ([] @ us) up' \<and>
        append_frame e ed' \<and> input ed' = LINE_FEED # rest \<and> src (set_input rest ed') [] \<and>
        is_modified (state ed') = (is_modified (state e) \<or> us \<noteq> []) \<and> is_empty (state ed') = (is_empty (state e) \<and> us = [])"
  shows "\<exists>ed'. append_loop k h after None e = (Inr (), ed') \<and> appended ed ns0 ns after us rest ed' \<and> src (set_input rest ed') []"
proof -
  have ie: "buf_inv e ns" "undo_inv e ns0 ns" "disk_inv e" "sys_all_ok e" "lines (state e) = lines (state ed)" "dot (state e) = after"
    using inv by (simp_all add: e buf_inv_def undo_inv_def disk_inv_def node_stored_def)
  have bt: "buffer_text e = buffer_text ed" by (rule buffer_text_same) (simp_all add: e)
  have ty: "typing e ns0 (take (nat after) ns) (drop (nat after) ns)
     (take (nat after) (buffer_text ed ns)) (drop (nat after) (buffer_text ed ns)) [] [] None"
    using typing_start [OF ie(1-4), of after] inv(5,6) ie(5,6) bt by simp
  obtain new' up' ed' where r: "append_loop k h after None e = (Inr (), ed')"
    "typing ed' ns0 (take (nat after) ns) (drop (nat after) ns)
       (take (nat after) (buffer_text ed ns)) (drop (nat after) (buffer_text ed ns)) new' us up'"
    "append_frame e ed'" "input ed' = LINE_FEED # rest" "is_modified (state ed') = (is_modified (state e) \<or> us \<noteq> [])"
    "src (set_input rest ed') []"
    using loop [OF ty] by auto
  note t = typing_result [OF r(2)]
  have len: "length (take (nat after) ns) = nat after" using inv by (simp add: buf_inv_def)
  have new: "length new' = length us" using r(2) by (metis length_map typing_def buffer_text_def)
  have "appended ed ns0 ns after us rest ed'"
    unfolding appended_def
  proof (intro conjI exI)
    show "buffer_text ed' (take (nat after) ns @ new' @ drop (nat after) ns) = insert_after after us (buffer_text ed ns)"
      using t(4) by (simp add: insert_after_def)
    show "dot (state ed') = after + int (length us)" using t(5) len new inv(5) by simp
    have "map (node_text ed') (take (nat after) ns) @ map (node_text ed') new' @ map (node_text ed') (drop (nat after) ns)
       = take (nat after) (buffer_text ed ns) @ us @ drop (nat after) (buffer_text ed ns)"
      using t(4) by (simp add: buffer_text_def)
    then have "map (node_text ed') (take (nat after) ns) @ map (node_text ed') (drop (nat after) ns) = buffer_text ed ns"
      using new by (simp add: buffer_text_def)
    then show "buffer_text ed' ns = buffer_text ed ns" by (simp add: buffer_text_def flip: map_append)
  qed (use t r e in \<open>simp_all add: append_frame_def typing_def\<close>)
  with r(1,6) show ?thesis by blast
qed

text \<open>In a global command list: the lines up to a period; the rest of the list is left.\<close>

lemma append_lines_global:
  assumes inv: "buf_inv ed ns" "undo_inv ed ns0 ns" "disk_inv ed" "sys_all_ok ed" "0 \<le> after" "after \<le> lines (state ed)"
    and glob: "\<not> reads_input ed"
    and inp: "input ed = bytes_of (us @ [''.'']) @ rest" "\<forall>t\<in>set us. LINE_FEED \<notin> set t \<and> NUL \<notin> set t \<and> t \<noteq> ''.''"
    and r: "room (length us) (total_length us) ed"
  shows "\<exists>ed'. append_lines after ed = (Inr (), ed') \<and> appended ed ns0 ns after us rest ed'"
proof -
  define e where "e = set_dot after (set_input_is_binary False ed)"
  let ?h = "cur (input ed) \<noteq> NUL" and ?k = "length (input e) + line_fuel (std_in e) e + 1"
  have s: "memory_source ?h rest e (us @ [''.''])"
    using glob inp by (auto simp: memory_source_def e_def reads_input_def)
  have k: "length us < ?k" using inp(1) by (simp add: e_def length_bytes_of)
  have "room (length us) (total_length us) e" using r by (simp add: room_def e_def)
  from appended_loop [where src = "memory_source ?h rest", OF inv e_def memory.append_loop_ok [OF _ s _ this k]] inp(2)
  obtain ed' where "append_loop ?k ?h after None e = (Inr (), ed')" "appended ed ns0 ns after us rest ed'" by blast
  moreover have "append_lines after ed = append_loop ?k ?h after None e"
    using glob by (simp add: append_lines_def Let_def e_def del: append_loop.simps)
  ultimately show ?thesis by simp
qed

text \<open>From the standard input, when the command has no argument\<close>

lemma append_lines_stdin:
  assumes inv: "buf_inv ed ns" "undo_inv ed ns0 ns" "disk_inv ed" "sys_all_ok ed" "0 \<le> after" "after \<le> lines (state ed)"
    and inp: "input ed = []" "stdin_source rest ed (us @ [''.''])" "''.'' \<notin> set us"
    and r: "room (length us) (total_length us) ed"
  shows "\<exists>ed'. append_lines after ed = (Inr (), ed') \<and> appended ed ns0 ns after us [] ed' \<and> stdin_source rest ed' []"
proof -
  define e where "e = set_dot after (set_input_is_binary False ed)"
  let ?k = "length (input e) + line_fuel (std_in e) e + 1"
  have s: "stdin_source rest e (us @ [''.''])"
    using inp by (auto simp: stdin_source_def e_def reads_input_def)
  have "length us \<le> length (bytes_of us)" by (simp add: length_bytes_of)
  then have k: "length us < ?k"
    using line_fuel_rest [of e "std_in e" "bytes_of us"] s by (auto simp: stdin_source_def)
  have "room (length us) (total_length us) e" using r by (simp add: room_def e_def)
  from appended_loop [where src = "stdin_source rest", OF inv e_def stdin.append_loop_ok [OF _ s inp(3) this k]]
  obtain ed' where "append_loop ?k False after None e = (Inr (), ed')" "appended ed ns0 ns after us [] ed'"
    "stdin_source rest (set_input [] ed') []" by blast
  moreover have "append_lines after ed = append_loop ?k False after None e"
    using inp(1) by (simp add: append_lines_def Let_def e_def del: append_loop.simps)
  ultimately show ?thesis by (auto simp: stdin_source_def reads_input_def)
qed

end
