(* ===== verification/Line_Output.thy ===== *)
theory Line_Output
  imports Append
begin

text \<open>
  Lines written to a stream (\<open>write_stream\<close>, \<open>put_stream_line\<close>), and what is read back from it.
\<close>

section \<open>One line\<close>

lemma stream_write_at_end:
  "f_pos f = length (f_data f) \<Longrightarrow> stream_write s f = f\<lparr>f_data := f_data f @ s, f_pos := f_pos f + length s\<rparr>"
  by (simp add: stream_write_def)

lemma put_stream_line_ok:
  assumes "sys_all_ok ed" "f_pos (streams ed fp) = length (f_data (streams ed fp))"
  shows "put_stream_line fp s ed = (Inr (),
     upd_stream fp (\<lambda>f. f\<lparr>f_data := f_data f @ s, f_pos := f_pos f + length s\<rparr>) (sys_n_update (\<lambda>n. n + length s) ed))"
  using assms
proof (induction s arbitrary: ed)
  case Nil
  then show ?case by (cases ed) (simp add: upd_stream_def fun_upd_idem)
next
  case (Cons c s)
  let ?e = "upd_stream fp (stream_write [c]) (sys_n_update Suc ed)"
  have e: "sys_all_ok ?e" "f_pos (streams ?e fp) = length (f_data (streams ?e fp))"
    using Cons.prems by (simp_all add: stream_write_at_end)
  have "put_stream_line fp (c # s) ed = put_stream_line fp s ?e" using Cons.prems by simp
  also have "\<dots> = (Inr (), upd_stream fp (\<lambda>f. f\<lparr>f_data := f_data f @ s, f_pos := f_pos f + length s\<rparr>) (sys_n_update (\<lambda>n. n + length s) ?e))"
    by (rule Cons.IH [OF e])
  also have "\<dots> = (Inr (), upd_stream fp (\<lambda>f. f\<lparr>f_data := f_data f @ c # s, f_pos := f_pos f + length (c # s)\<rparr>)
      (sys_n_update (\<lambda>n. n + length (c # s)) ed))"
    using Cons.prems by (cases ed) (simp add: upd_stream_def stream_write_at_end fun_eq_iff)
  finally show ?case .
qed

section \<open>A range of lines\<close>

text \<open>The bytes written: the last line without its newline, when the buffer is binary and the newline
  of its last line was added by the editor\<close>

definition written :: "ed_state \<Rightarrow> string list \<Rightarrow> string" where
  "written s us = (if us \<noteq> [] \<and> is_binary s \<and> newline_appended s then bytes_of (butlast us) @ last us else bytes_of us)"

lemma written_Cons: "us \<noteq> [] \<Longrightarrow> written s (u # us) = u @ LINE_FEED # written s us"
  by (simp add: written_def)

definition wrote :: "stream_id \<Rightarrow> string \<Rightarrow> ed_buffer \<Rightarrow> node list \<Rightarrow> ed_buffer \<Rightarrow> bool" where
  "wrote fp s ed ns ed' \<longleftrightarrow>
     buf_inv ed' ns \<and> disk_inv ed' \<and> sys_all_ok ed' \<and> state ed' = state ed \<and> state1 ed' = state1 ed \<and> mutex ed' = mutex ed \<and>
     exec ed' = exec ed \<and> input ed' = input ed \<and> statics ed' = statics ed \<and> std_in ed' = std_in ed \<and>
     (\<exists>b off. core ed' = (core ed)\<lparr>seek_on_write := b, offset := off\<rparr>) \<and> f_data (disk ed') = f_data (disk ed) \<and>
     streams ed' fp = (streams ed fp)\<lparr>f_data := f_data (streams ed fp) @ s, f_pos := f_pos (streams ed fp) + length s\<rparr> \<and>
     (\<forall>x. x \<noteq> fp \<longrightarrow> x \<noteq> core_fp (core ed) \<longrightarrow> streams ed' x = streams ed x)"

lemma wrote_trans:
  assumes "wrote fp s a ns b" "wrote fp t b ns c"
  shows "wrote fp (s @ t) a ns c"
proof -
  obtain x off where "core b = (core a)\<lparr>seek_on_write := x, offset := off\<rparr>" using assms(1) by (auto simp: wrote_def)
  moreover obtain x' off' where "core c = (core b)\<lparr>seek_on_write := x', offset := off'\<rparr>" using assms(2) by (auto simp: wrote_def)
  ultimately have "\<exists>b off. core c = (core a)\<lparr>seek_on_write := b, offset := off\<rparr>" "core_fp (core b) = core_fp (core a)" by auto
  with assms show ?thesis by (simp add: wrote_def)
qed

lemma wrote_refl: "buf_inv ed ns \<Longrightarrow> disk_inv ed \<Longrightarrow> sys_all_ok ed \<Longrightarrow> wrote fp [] ed ns ed"
  by (auto simp: wrote_def intro!: exI [of _ "seek_on_write (core ed)"] exI [of _ "offset (core ed)"])

text \<open>Reading a line of the buffer and writing a text to another stream\<close>

lemma read_write:
  assumes inv: "buf_inv ed ns" "disk_inv ed" "sys_all_ok ed" and p: "p \<in> set ns"
    and fp: "fp \<noteq> core_fp (core ed)" "f_pos (streams ed fp) = length (f_data (streams ed fp))"
  obtains e ed' where "get_buffer_line p ed = (Inr (node_text ed p), e)" "put_stream_line fp s e = (Inr (), ed')"
    "wrote fp s ed ns ed'" "nodes (core e) = nodes (core ed)" "state e = state ed"
    "ln_len (nodes (core ed) p) = length (node_text ed p)"
proof -
  have p0: "0 < p" "p < next_node (core ed)"
    using inv(1) p by (auto simp: buf_inv_def ring_def line_head_def intro: gr0I)
  have "node_stored ed p" using inv(2) p0 by (simp add: disk_inv_def)
  then have len: "ln_len (nodes (core ed) p) = length (node_text ed p)"
    using p0 by (auto simp: node_stored_def node_text_def line_head_def)
  show ?thesis
  proof (rule get_buffer_line_text [OF inv(2) p0 inv(3)])
    fix e
    assume g: "get_buffer_line p ed = (Inr (node_text ed p), e)" "disk_inv e" "f_data (disk e) = f_data (disk ed)"
      "state e = state ed" "statics e = statics ed" "sys_all_ok e" "state1 e = state1 ed" "mutex e = mutex ed"
      "exec e = exec ed" "input e = input ed"
      "core e = (core ed)\<lparr>seek_on_write := True, offset := ln_seek (nodes (core ed) p) + int (ln_len (nodes (core ed) p))\<rparr>"
    have f: "disk_frame ed e" using disk_frame_get_buffer_line [of ed p] g(1) by simp
    then have st: "streams e fp = streams ed fp" "\<And>x. x \<noteq> core_fp (core ed) \<Longrightarrow> streams e x = streams ed x" "std_in e = std_in ed"
      using fp(1) by (simp_all add: disk_frame_def)
    define ed' where "ed' = upd_stream fp (\<lambda>f. f\<lparr>f_data := f_data f @ s, f_pos := f_pos f + length s\<rparr>) (sys_n_update (\<lambda>n. n + length s) e)"
    have w: "put_stream_line fp s e = (Inr (), ed')"
      unfolding ed'_def by (rule put_stream_line_ok) (use g(6) fp st in simp_all)
    have "buf_inv ed' ns" using inv(1) g by (simp add: buf_inv_def ed'_def)
    moreover have "disk_inv ed'" using g(2,11) fp(1) by (simp add: disk_inv_def node_stored_def ed'_def)
    ultimately have "wrote fp s ed ns ed'"
      using g fp(1) st by (auto simp: wrote_def ed'_def sys_all_ok_def upd_stream_def)
    then show ?thesis using that [OF g(1) w] g(4,11) len by simp
  qed
qed

lemma wrote_text: "wrote fp s ed ns ed' \<Longrightarrow> node_text ed' = node_text ed"
  by (rule ext) (auto simp: wrote_def node_text_def)

lemma wrote_end:
  "wrote fp s ed ns ed' \<Longrightarrow> fp \<noteq> core_fp (core ed) \<Longrightarrow> f_pos (streams ed fp) = length (f_data (streams ed fp)) \<Longrightarrow>
     fp \<noteq> core_fp (core ed') \<and> f_pos (streams ed' fp) = length (f_data (streams ed' fp))"
  by (auto simp: wrote_def)

lemma write_loop_ok:
  assumes "buf_inv ed ns" "disk_inv ed" "sys_all_ok ed" "fp \<noteq> core_fp (core ed)"
    "f_pos (streams ed fp) = length (f_data (streams ed fp))" "i + n \<le> length ns" "n \<noteq> 0 \<Longrightarrow> lp = ns ! i" "0 \<le> sz"
    "sz + int (length (bytes_of (map (node_text ed) (take n (drop i ns))))) < OFF_T_MAX"
  shows "\<exists>ed'. write_loop n fp lp sz ed = (Inr (sz + int (length (written (state ed) (map (node_text ed) (take n (drop i ns)))))), ed') \<and>
     wrote fp (written (state ed) (map (node_text ed) (take n (drop i ns)))) ed ns ed'"
  using assms
proof (induction n arbitrary: ed i lp sz)
  case 0
  then show ?case using wrote_refl by (auto simp: written_def)
next
  case (Suc n)
  let ?p = "ns ! i" and ?nl = "if n = 0 \<and> is_binary (state ed) \<and> newline_appended (state ed) then [] else [LINE_FEED]"
  let ?rest = "map (node_text ed) (take n (drop (Suc i) ns))"
  have i: "i < length ns" using Suc.prems(6) by simp
  then have drop: "take (Suc n) (drop i ns) = ?p # take n (drop (Suc i) ns)" by (simp add: Cons_nth_drop_Suc [symmetric])
  have "?p \<in> set ns" using i by simp
  from read_write [OF Suc.prems(1-3) this Suc.prems(4,5), of "node_text ed ?p @ ?nl"]
  obtain e ed1 where r: "get_buffer_line ?p ed = (Inr (node_text ed ?p), e)" "put_stream_line fp (node_text ed ?p @ ?nl) e = (Inr (), ed1)"
    "wrote fp (node_text ed ?p @ ?nl) ed ns ed1" "nodes (core e) = nodes (core ed)" "state e = state ed"
    "ln_len (nodes (core ed) ?p) = length (node_text ed ?p)" by blast
  have k: "state ed1 = state ed" "nodes (core ed1) = nodes (core ed)" "buf_inv ed1 ns" "disk_inv ed1" "sys_all_ok ed1"
    using r(3) by (auto simp: wrote_def)
  have tx: "node_text ed1 = node_text ed" by (rule wrote_text [OF r(3)])
  have "q_forw (nodes (core ed1) ?p) = ns ! Suc i" if "n \<noteq> 0"
    using ring_forw [of "nodes (core ed)" ns "Suc i"] Suc.prems(1,6) k(2) that by (simp add: buf_inv_def)
  note IH = Suc.IH [OF k(3-5) _ _ _ this, of "sz + int (length (node_text ed ?p @ ?nl))"]
  have sz: "sz + int (length (node_text ed ?p) + length ?nl) < OFF_T_MAX" using Suc.prems(9) by (simp add: drop)
  have guard: "\<not> u64 (OFF_T_MAX - int (length (node_text ed ?p)) - int (length ?nl)) \<le> u64 sz"
  proof -
    have "u64 (OFF_T_MAX - int (length (node_text ed ?p)) - int (length ?nl)) = OFF_T_MAX - int (length (node_text ed ?p)) - int (length ?nl)"
      by (rule u64_id) (use sz Suc.prems(8) in \<open>simp_all add: OFF_T_MAX_def\<close>)
    moreover have "u64 sz = sz" by (rule u64_id) (use sz Suc.prems(8) in \<open>simp_all add: OFF_T_MAX_def\<close>)
    ultimately show ?thesis using sz by simp
  qed
  have bound: "sz + int (length (node_text ed ?p @ ?nl)) + int (length (bytes_of ?rest)) < OFF_T_MAX"
    using Suc.prems(9) by (simp add: drop split: if_splits)
  obtain ed' where q: "write_loop n fp (q_forw (nodes (core ed1) ?p)) (sz + int (length (node_text ed ?p @ ?nl))) ed1
      = (Inr (sz + int (length (node_text ed ?p @ ?nl)) + int (length (written (state ed) ?rest))), ed')"
    "wrote fp (written (state ed) ?rest) ed1 ns ed'"
    using IH wrote_end [OF r(3) Suc.prems(4,5)] Suc.prems(6,8) bound unfolding tx k(1) by fastforce
  have "write_loop (Suc n) fp lp sz ed = write_loop n fp (q_forw (nodes (core ed1) ?p)) (sz + int (length (node_text ed ?p @ ?nl))) ed1"
  proof (cases "n = 0 \<and> is_binary (state ed) \<and> newline_appended (state ed)")
    case True
    then show ?thesis using r guard Suc.prems(7) by simp
  next
    case False
    then have "?nl = [LINE_FEED]" by (simp only: if_False)
    with False r guard Suc.prems(7) show ?thesis by (simp add: Let_def del: de_Morgan_conj)
  qed
  moreover have "written (state ed) (map (node_text ed) (take (Suc n) (drop i ns))) = (node_text ed ?p @ ?nl) @ written (state ed) ?rest"
    unfolding drop using Suc.prems(6) by (cases "n = 0") (simp_all add: written_Cons, simp add: written_def)
  ultimately show ?case using q(1) wrote_trans [OF r(3) q(2)] by (intro exI [of _ ed']) simp
qed

lemma write_stream_ok:
  assumes inv: "buf_inv ed ns" "disk_inv ed" "sys_all_ok ed"
    and fp: "fp \<noteq> core_fp (core ed)" "f_pos (streams ed fp) = length (f_data (streams ed fp))"
    and range: "1 \<le> from" "from \<le> to" "to \<le> lines (state ed)"
    and fits: "int (length (bytes_of (segment from to (buffer_text ed ns)))) < OFF_T_MAX"
  shows "\<exists>ed'. write_stream fp (node_at ns from) (to - from + 1) ed
       = (Inr (int (length (written (state ed) (segment from to (buffer_text ed ns))))), ed') \<and>
     wrote fp (written (state ed) (segment from to (buffer_text ed ns))) ed ns ed'"
proof -
  define i n where "i = nat (from - 1)" and "n = nat (to - from + 1)"
  have idx: "i + n \<le> length ns" using range inv(1) by (simp add: i_def n_def buf_inv_def)
  have at: "node_at ns from = ns ! i" if "n \<noteq> 0" using range by (simp add: i_def nat_diff_distrib nth_Cons' nat_eq_iff)
  have seg: "map (node_text ed) (take n (drop i ns)) = segment from to (buffer_text ed ns)"
    by (simp add: segment_def buffer_text_def take_map drop_map i_def n_def)
  show ?thesis
    using write_loop_ok [OF inv fp idx at, of 0] fits by (simp add: write_stream_def n_def [symmetric] seg)
qed

text \<open>The text of a buffer that is not binary is read back.\<close>

lemma written_text: "\<not> (is_binary s \<and> newline_appended s) \<Longrightarrow> written s us = bytes_of us"
  by (auto simp: written_def)

end
