(* ===== verification/Registers.thy ===== *)
theory Registers
  imports Line_Output
begin

text \<open>
  Registers and the stack of macro frames (\<open>register.c\<close>).  A register is a temporary file; a
  macro is a register whose text is appended to the script buffer, to which the standard input is
  redirected.  An index outside the array of registers is undefined behaviour, which the
  model makes \<open>FATAL\<close>; the code does not check it.

  The parameter \<open>seekable\<close> of \<open>init_stdio\<close> says whether the nominal standard input is a file that is
  not a terminal.
\<close>

section \<open>Files of registers\<close>

definition to_int :: "int \<Rightarrow> int" where
  "to_int n = (n + 2 ^ 31) mod 2 ^ 32 - 2 ^ 31"

definition register_fp :: "int \<Rightarrow> ed_buffer \<Rightarrow> stream_id option res" where
  "register_fp idx ed =
     (if 0 \<le> to_int idx \<and> to_int idx < REGBUF_MAX then (Inr (reg_fp (regbuf (core ed)) (to_int idx)), ed)
      else (Inl FATAL, ed))"

definition set_register_fp :: "int \<Rightarrow> stream_id option \<Rightarrow> ed_buffer \<Rightarrow> ed_buffer" where
  "set_register_fp idx fp = core_update (regbuf_update (reg_fp_update (\<lambda>r. r(to_int idx := fp))))"

definition seek_or_error :: "stream_id \<Rightarrow> (ed_stream \<Rightarrow> nat) \<Rightarrow> ed_buffer \<Rightarrow> unit res" where
  "seek_or_error fp pos ed =
     (case fseek fp pos ed of
        (False, ed) \<Rightarrow> (Inl ERR, clearerr fp (set_err ''File seek error'' ed))
      | (True, ed) \<Rightarrow> (Inr (), ed))"

abbreviation stream_start :: "ed_stream \<Rightarrow> nat" where "stream_start \<equiv> \<lambda>_. 0"
abbreviation stream_end :: "ed_stream \<Rightarrow> nat" where "stream_end \<equiv> \<lambda>f. length (f_data f)"

text \<open>\<open>ftruncate\<close>\<close>

definition truncate_stream :: "nat \<Rightarrow> ed_stream \<Rightarrow> ed_stream" where
  "truncate_stream n = f_data_update (\<lambda>d. take n d @ replicate (n - length d) NUL)"

definition init_register_buffer :: "int \<Rightarrow> ed_buffer \<Rightarrow> stream_id res" where
  "init_register_buffer idx ed =
     andThen (create_disk_buffer ed) (\<lambda>fp ed. (Inr fp, set_register_fp idx (Some fp) ed))"

definition reset_register_buffer :: "int \<Rightarrow> ed_buffer \<Rightarrow> unit res" where
  "reset_register_buffer idx ed =
     andThen (register_fp idx ed) (\<lambda>fp ed.
       case fp of
         None \<Rightarrow> (Inr (), ed)
       | Some fp \<Rightarrow>
           andThen (seek_or_error fp stream_start ed) (\<lambda>_ ed.
             case sys_call ed of
               (False, ed) \<Rightarrow> throw ''File truncate error'' ed
             | (True, ed) \<Rightarrow> (Inr (), upd_stream fp (truncate_stream 0) ed)))"

section \<open>Lines and registers\<close>

definition append_from_register :: "int \<Rightarrow> ed_buffer \<Rightarrow> unit res" where
  "append_from_register addr ed =
     andThen (register_fp (read_idx (regbuf (core ed))) ed) (\<lambda>fp ed.
       case fp of
         None \<Rightarrow> (Inr (), ed)
       | Some fp \<Rightarrow>
           andThen (seek_or_error fp stream_start ed) (\<lambda>_ ed.
             andThen (read_stream fp addr ed) (\<lambda>size ed.
               (Inr (), if size \<noteq> 0 then set_is_modified True ed else ed))))"

text \<open>
  The register is positioned at its end or emptied.  When emptying it fails, the functions below
  return \<open>status = f () < 0\<close>, that is 1, which their callers do not take for an error: \<open>None\<close>.
\<close>

definition prepare_register :: "bool \<Rightarrow> int \<Rightarrow> stream_id \<Rightarrow> ed_buffer \<Rightarrow> unit option res" where
  "prepare_register app idx fp ed =
     (if app then andThen (seek_or_error fp stream_end ed) (\<lambda>_ ed. (Inr (Some ()), ed))
      else case reset_register_buffer idx ed of
             (Inl FATAL, ed) \<Rightarrow> (Inl FATAL, ed)
           | (Inl _, ed) \<Rightarrow> (Inr None, ed)
           | (Inr _, ed) \<Rightarrow> (Inr (Some ()), ed))"

definition register_for_writing :: "int \<Rightarrow> stream_id option \<Rightarrow> ed_buffer \<Rightarrow> stream_id res" where
  "register_for_writing idx fp ed = (case fp of Some fp \<Rightarrow> (Inr fp, ed) | None \<Rightarrow> init_register_buffer idx ed)"

definition append_to_register :: "int \<Rightarrow> int \<Rightarrow> bool \<Rightarrow> ed_buffer \<Rightarrow> unit res" where
  "append_to_register from to app ed =
     (let idx = write_idx (regbuf (core ed)) in
      andThen (register_fp idx ed) (\<lambda>fp ed.
        let (lp, ed) = get_line_node from ed;
            n = (if from \<noteq> 0 then to - from + 1 else 0)
        in if n = 0 then (if \<not> app then reset_register_buffer idx ed else (Inr (), ed))
           else
             andThen (register_for_writing idx fp ed) (\<lambda>fp ed.
               andThen (prepare_register app idx fp ed) (\<lambda>ok ed.
                 if ok = None then (Inr (), ed)
                 else andThen (write_stream fp lp n ed) (\<lambda>_ ed. (Inr (), ed))))))"

section \<open>From register to register\<close>

definition inter_register_copy :: "bool \<Rightarrow> ed_buffer \<Rightarrow> unit res" where
  "inter_register_copy app ed =
     (let ri = read_idx (regbuf (core ed)); wi = write_idx (regbuf (core ed)) in
      andThen (register_fp ri ed) (\<lambda>rfp ed.
      andThen (register_fp wi ed) (\<lambda>wfp ed.
        if to_int ri = to_int wi then
          (if rfp \<noteq> None \<and> app then throw ''Cannot append register to itself'' ed else (Inr (), ed))
        else case rfp of
          None \<Rightarrow> if \<not> app then reset_register_buffer wi ed else (Inr (), ed)
        | Some rfp \<Rightarrow>
            andThen (register_for_writing wi wfp ed) (\<lambda>wfp ed.
            andThen (seek_or_error rfp stream_start ed) (\<lambda>_ ed.
            andThen (prepare_register app wi wfp ed) (\<lambda>ok ed.
              if ok = None then (Inr (), ed)
              else andThen (append_stream wfp rfp ed) (\<lambda>_ ed. (Inr (), ed))))))))"

definition inter_register_move :: "bool \<Rightarrow> ed_buffer \<Rightarrow> unit res" where
  "inter_register_move app ed =
     (let ri = read_idx (regbuf (core ed)); wi = write_idx (regbuf (core ed)) in
      andThen (register_fp ri ed) (\<lambda>rfp ed.
      andThen (register_fp wi ed) (\<lambda>wfp ed.
        if to_int ri = to_int wi then (Inr (), ed)
        else case (rfp, wfp) of
          (None, _) \<Rightarrow> if \<not> app then reset_register_buffer wi ed else (Inr (), ed)
        | (Some r, None) \<Rightarrow> (Inr (), spl0 (set_register_fp ri None (set_register_fp wi (Some r) (spl1 ed))))
        | (Some r, Some w) \<Rightarrow>
            andThen (seek_or_error r stream_start ed) (\<lambda>_ ed.
            andThen (if app then seek_or_error w stream_end ed else reset_register_buffer wi ed) (\<lambda>_ ed.
            andThen (append_stream w r ed) (\<lambda>_ ed.
              reset_register_buffer ri ed))))))"

section \<open>The stack of macros\<close>

abbreviation set_std_in :: "stream_id \<Rightarrow> ed_buffer \<Rightarrow> ed_buffer" where
  "set_std_in fp \<equiv> std_in_update (\<lambda>_. fp)"

definition init_script_buffer :: "ed_buffer \<Rightarrow> unit res" where
  "init_script_buffer ed =
     andThen (create_disk_buffer ed) (\<lambda>fp ed. (Inr (), exec_update (exec_fp_update (\<lambda>_. Some fp)) ed))"

text \<open>The script buffer and its path name are set together; the script is reopened at its start.\<close>

definition init_stdio :: "bool \<Rightarrow> ed_buffer \<Rightarrow> unit res" where
  "init_stdio seekable ed =
     andThen
       (case exec_fp (exec ed) of
          None \<Rightarrow> (Inr (), ed)
        | Some fp \<Rightarrow>
            if \<not> (FSCRIPT \<in> opt (exec ed) \<and> sp (core ed) = 0) then (Inr (), set_std_in fp ed)
            else case sys_call ed of
                   (False, ed) \<Rightarrow> (Inl FATAL, set_err ''File open error'' ed)
                 | (True, ed) \<Rightarrow>
                     (Inr (), upd_stream (std_in ed) (\<lambda>_. \<lparr>f_data = f_data (streams ed fp), f_pos = 0, f_eof = False\<rparr>) ed))
       (\<lambda>_ ed. (Inr (), if seekable \<and> MASK_EXIT_ON_ERROR \<notin> opt (exec ed)
                        then exec_update (opt_update (insert EXIT_ON_ERROR)) ed else ed))"

definition push_stack_frame :: "ed_buffer \<Rightarrow> unit res" where
  "push_stack_frame ed =
     (case sys_call (spl1 ed) of
        (False, ed) \<Rightarrow> (Inl ERR, spl0 (set_err ''Memory exhausted'' ed))
      | (True, ed) \<Rightarrow>
          (let put = (\<lambda>addr size ed.
                 spl0 (core_update (\<lambda>c. c\<lparr>stack_frame := (stack_frame c)
                   (sp c := \<lparr>sf_fp = std_in ed, sf_size = size, sf_addr = addr\<rparr>), sp := sp c + 1\<rparr>) ed))
           in if sp (core ed) \<noteq> 0 \<or> FSCRIPT \<in> opt (exec ed) then
                case exec_fp (exec ed) of
                  None \<Rightarrow> (Inl FATAL, ed)
                | Some fp \<Rightarrow>
                    (case sys_call ed of
                       (False, ed) \<Rightarrow> (Inl ERR, spl0 (set_err ''File seek error'' ed))
                     | (True, ed) \<Rightarrow>
                         (let addr = f_pos (streams ed fp) in
                          case fseek fp stream_end ed of
                            (False, ed) \<Rightarrow> (Inl ERR, spl0 (set_err ''File seek error'' ed))
                          | (True, ed) \<Rightarrow>
                              (case sys_call ed of
                                 (False, ed) \<Rightarrow> (Inl ERR, spl0 (set_err ''File seek error'' ed))
                               | (True, ed) \<Rightarrow> (Inr (), put addr (f_pos (streams ed fp)) ed))))
              else (Inr (), put 0 0 ed)))"

text \<open>The end of \<open>pop_stack_frame\<close> and \<open>unwind_stack_frame\<close>: the script buffer as a frame saved it\<close>

definition restore_script :: "ed_stack_frame \<Rightarrow> ed_buffer \<Rightarrow> unit res" where
  "restore_script f ed =
     (let ed = set_std_in (sf_fp f) ed in
      case exec_fp (exec ed) of
        None \<Rightarrow> (Inl FATAL, ed)
      | Some fp \<Rightarrow>
          (case fseek fp f_pos ed of
             (False, ed) \<Rightarrow> (Inr (), ed)
           | (True, ed) \<Rightarrow>
               (case sys_call ed of
                  (False, ed) \<Rightarrow> throw ''File seek error'' ed
                | (True, ed) \<Rightarrow>
                    (case fseek fp (\<lambda>_. sf_addr f) (upd_stream fp (truncate_stream (sf_size f)) ed) of
                       (False, ed) \<Rightarrow> throw ''File seek error'' ed
                     | (True, ed) \<Rightarrow> (Inr (), ed)))))"

definition pop_stack_frame :: "ed_buffer \<Rightarrow> unit res" where
  "pop_stack_frame ed =
     (let ed = core_update (sp_update (\<lambda>n. n - 1)) (spl1 ed) in
      case restore_script (stack_frame (core ed) (sp (core ed))) ed of
        (Inl e, ed) \<Rightarrow> (Inl e, spl0 ed)
      | (Inr _, ed) \<Rightarrow> (Inr (), spl0 ed))"

text \<open>The status given is returned unless restoring fails.\<close>

definition unwind_stack_frame :: "ed_command_error \<Rightarrow> ed_buffer \<Rightarrow> ed_command_error \<times> ed_buffer" where
  "unwind_stack_frame status ed =
     (if sp (core ed) = 0 then (status, ed)
      else
        let ed = core_update (sp_update (\<lambda>n. n - 1)) (spl1 ed) in
        case restore_script (stack_frame (core ed) 0) ed of
          (Inl e, ed) \<Rightarrow> (e, spl0 ed)
        | (Inr _, ed) \<Rightarrow> (status, spl0 (core_update (sp_update (\<lambda>_. 0)) ed)))"

definition script_from_register :: "bool \<Rightarrow> ed_buffer \<Rightarrow> unit res" where
  "script_from_register seekable ed =
     (let idx = read_idx (regbuf (core ed)) in
      andThen (register_fp idx ed) (\<lambda>rfp ed.
        if STACK_FRAMES_MAX \<le> sp (core ed) then throw ''Exceeded maximum stack frame depth'' ed
        else
          andThen (push_stack_frame ed) (\<lambda>_ ed.
          andThen (case rfp of
                     None \<Rightarrow> init_register_buffer idx ed
                   | Some fp \<Rightarrow> andThen (seek_or_error fp stream_start ed) (\<lambda>_ ed. (Inr fp, ed))) (\<lambda>rfp ed.
          andThen (if exec_fp (exec ed) = None then init_script_buffer ed else (Inr (), ed)) (\<lambda>_ ed.
            case exec_fp (exec ed) of
              None \<Rightarrow> (Inl FATAL, ed)
            | Some fp \<Rightarrow> andThen (append_stream fp rfp ed) (\<lambda>_ ed. init_stdio seekable ed))))))"

section \<open>Calls on other streams\<close>

text \<open>What a call on a stream other than the buffer file leaves alone\<close>

definition file_frame :: "ed_buffer \<Rightarrow> ed_buffer \<Rightarrow> bool" where
  "file_frame ed e \<longleftrightarrow>
     core e = core ed \<and> state e = state ed \<and> state1 e = state1 ed \<and> statics e = statics ed \<and> sys_ok e = sys_ok ed \<and>
     streams e (core_fp (core ed)) = disk ed \<and> std_in e = std_in ed \<and> exec e = exec ed \<and> mutex e = mutex ed \<and> input e = input ed"

lemma file_frame_inv:
  assumes "file_frame ed e"
  shows "buf_inv e ns = buf_inv ed ns" "undo_inv e ns0 ns = undo_inv ed ns0 ns" "disk_inv e = disk_inv ed"
    "sys_all_ok e = sys_all_ok ed" "buffer_text e = buffer_text ed"
  using assms buffer_text_same [of e ed]
  by (simp_all add: file_frame_def buf_inv_def undo_inv_def disk_inv_def node_stored_def sys_all_ok_def)

lemma file_frame_trans: "file_frame a b \<Longrightarrow> file_frame b c \<Longrightarrow> file_frame a c"
  by (simp add: file_frame_def)

lemma file_frame_refl [simp]: "file_frame ed ed"
  by (simp add: file_frame_def)

lemma file_frame_upd: "fp \<noteq> core_fp (core ed) \<Longrightarrow> file_frame ed (upd_stream fp f (sys_n_update Suc ed))"
  by (simp add: file_frame_def upd_stream_def)

lemma seek_ok:
  assumes "sys_all_ok ed" "fp \<noteq> core_fp (core ed)"
  obtains e where "seek_or_error fp pos ed = (Inr (), e)" "file_frame ed e"
    "streams e fp = (streams ed fp)\<lparr>f_pos := pos (streams ed fp), f_eof := False\<rparr>"
  using that [of "upd_stream fp (\<lambda>f. f\<lparr>f_pos := pos f, f_eof := False\<rparr>) (sys_n_update Suc ed)"] assms file_frame_upd [of fp ed]
  by (simp add: seek_or_error_def fseek_def)

lemma truncate_0 [simp]: "truncate_stream 0 f = f\<lparr>f_data := []\<rparr>"
  by (simp add: truncate_stream_def)

lemma reset_register_ok:
  assumes "sys_all_ok ed" "fp \<noteq> core_fp (core ed)" "register_fp idx ed = (Inr (Some fp), ed)"
  obtains e where "reset_register_buffer idx ed = (Inr (), e)" "file_frame ed e"
    "streams e fp = \<lparr>f_data = [], f_pos = 0, f_eof = False\<rparr>"
proof -
  obtain e where e: "seek_or_error fp stream_start ed = (Inr (), e)" "file_frame ed e"
    "streams e fp = (streams ed fp)\<lparr>f_pos := 0, f_eof := False\<rparr>"
    using seek_ok [OF assms(1,2), of stream_start] by blast
  have ok: "sys_all_ok e" "fp \<noteq> core_fp (core e)" using assms(1,2) file_frame_inv(4) [OF e(2)] e(2) by (simp_all add: file_frame_def)
  show ?thesis
    using that [of "upd_stream fp (truncate_stream 0) (sys_n_update Suc e)"] assms(3) e ok
      file_frame_trans [OF e(2) file_frame_upd [OF ok(2)]]
    by (simp add: reset_register_buffer_def)
qed

section \<open>A register holds the lines stored in it\<close>

definition has_register :: "ed_buffer \<Rightarrow> int \<Rightarrow> stream_id \<Rightarrow> bool" where
  "has_register ed idx fp \<longleftrightarrow> 0 \<le> idx \<and> idx < REGBUF_MAX \<and> reg_fp (regbuf (core ed)) idx = Some fp \<and> fp \<noteq> core_fp (core ed)"

lemma has_register_fp: "has_register ed idx fp \<Longrightarrow> register_fp idx ed = (Inr (Some fp), ed)"
  by (simp add: has_register_def register_fp_def to_int_def REGBUF_MAX_def)

lemma append_to_register_ok:
  assumes inv: "buf_inv ed ns" "undo_inv ed ns0 ns" "disk_inv ed" "sys_all_ok ed"
    and reg: "has_register ed (write_idx (regbuf (core ed))) fp"
    and range: "1 \<le> from" "from \<le> to" "to \<le> lines (state ed)"
    and fits: "int (length (bytes_of (segment from to (buffer_text ed ns)))) < OFF_T_MAX"
  shows "\<exists>ed'. append_to_register from to False ed = (Inr (), ed') \<and>
     f_data (streams ed' fp) = written (state ed) (segment from to (buffer_text ed ns)) \<and>
     buf_inv ed' ns \<and> undo_inv ed' ns0 ns \<and> disk_inv ed' \<and> sys_all_ok ed' \<and> buffer_text ed' ns = buffer_text ed ns \<and>
     state ed' = state ed \<and> regbuf (core ed') = regbuf (core ed) \<and> core_fp (core ed') = core_fp (core ed) \<and>
     f_data (disk ed') = f_data (disk ed) \<and> std_in ed' = std_in ed"
proof -
  let ?idx = "write_idx (regbuf (core ed))" and ?c = "cache_node (node_at ns from) from ed"
  have bounds: "0 \<le> from" "from \<le> lines (state ed)" using range by auto
  have g: "get_line_node from ed = (node_at ns from, ?c)" by (rule get_line_node_eq [OF inv(1) bounds])
  have c: "buf_inv ?c ns" "undo_inv ?c ns0 ns" "disk_inv ?c" "sys_all_ok ?c" "buffer_text ?c = buffer_text ed" "core ?c = core ed" "state ?c = state ed"
    "disk ?c = disk ed" "std_in ?c = std_in ed"
    using inv buf_inv_cache_node [OF inv(1) bounds] buffer_text_same [of ?c ed]
    by (simp_all add: cache_node_def undo_inv_def disk_inv_def node_stored_def sys_all_ok_def)
  have regc: "has_register ?c ?idx fp" using reg c(6) by (simp add: has_register_def)
  have fp: "fp \<noteq> core_fp (core ?c)" using regc by (simp add: has_register_def)
  obtain e where e: "reset_register_buffer ?idx ?c = (Inr (), e)" "file_frame ?c e" "streams e fp = \<lparr>f_data = [], f_pos = 0, f_eof = False\<rparr>"
    by (rule reset_register_ok [OF c(4) fp has_register_fp [OF regc]])
  note fi = file_frame_inv [OF e(2)]
  have ce: "core e = core ed" "state e = state ed" using e(2) c by (simp_all add: file_frame_def)
  obtain ed' where w: "write_stream fp (node_at ns from) (to - from + 1) e = (Inr (int (length (written (state ed) (segment from to (buffer_text ed ns))))), ed')"
    "wrote fp (written (state ed) (segment from to (buffer_text ed ns))) e ns ed'"
    using write_stream_ok [of e ns fp "from" to] fi c e(3) fp range fits ce by auto
  have "append_to_register from to False ed = (Inr (), ed')"
    using g e(1) w(1) has_register_fp [OF reg] range
    by (simp add: append_to_register_def prepare_register_def register_for_writing_def)
  moreover have "buffer_text ed' = buffer_text e" using wrote_text [OF w(2)] by (simp add: buffer_text_def fun_eq_iff)
  then have "buffer_text ed' ns = buffer_text ed ns" using fi(5) c(5) by simp
  moreover have "undo_inv e ns0 ns" using fi(2) c(2) by simp
  then have "undo_inv ed' ns0 ns" using w(2) by (auto simp: wrote_def undo_inv_def)
  ultimately show ?thesis using w(2) e(3) ce c e(2) by (auto simp: wrote_def file_frame_def)
qed

lemma SIZE_MAX_3: "3 < SIZE_MAX"
  by (simp add: SIZE_MAX_def)

lemma append_from_register_ok:
  assumes inv: "buf_inv ed ns" "undo_inv ed ns0 ns" "disk_inv ed" "sys_all_ok ed"
    and reg: "has_register ed (read_idx (regbuf (core ed))) fp" "fp \<noteq> std_in ed"
    and data: "f_data (streams ed fp) = bytes_of us" "\<forall>t\<in>set us. LINE_FEED \<notin> set t \<and> int (length t) < SIZE_MAX - 3"
    and addr: "0 \<le> addr" "addr \<le> lines (state ed)"
    and r: "room (length us) (total_length us) ed"
  shows "\<exists>ed' ns'. append_from_register addr ed = (Inr (), ed') \<and> buf_inv ed' ns' \<and> undo_inv ed' ns0 ns' \<and> disk_inv ed' \<and>
     buffer_text ed' ns' = insert_after addr us (buffer_text ed ns) \<and> dot (state ed') = addr + int (length us)"
proof -
  have fp: "fp \<noteq> core_fp (core ed)" using reg(1) by (simp add: has_register_def)
  obtain e where e: "seek_or_error fp stream_start ed = (Inr (), e)" "file_frame ed e" "streams e fp = (streams ed fp)\<lparr>f_pos := 0, f_eof := False\<rparr>"
    using seek_ok [OF inv(4) fp, of stream_start] by blast
  note fi = file_frame_inv [OF e(2)]
  have ce: "core e = core ed" "state e = state ed" "std_in e = std_in ed" "disk e = disk ed" using e(2) by (simp_all add: file_frame_def)
  obtain ed' ns' where q: "read_stream fp addr e = (Inr (read_size (addr = lines (state e)) (state e) us []), ed')"
     "buf_inv ed' ns'" "undo_inv ed' ns0 ns'" "disk_inv ed'"
     "buffer_text ed' ns' = insert_after addr us (buffer_text ed ns)" "dot (state ed') = addr + int (length us)"
    using read_stream_ok [of e ns ns0 addr fp us "[]"] SIZE_MAX_3 inv fi ce fp reg(2) data addr r e(3) by (auto simp: rest_of_def room_def)
  define ed'' where "ed'' = (if read_size (addr = lines (state e)) (state e) us [] \<noteq> 0 then set_is_modified True ed' else ed')"
  have "append_from_register addr ed = (Inr (), ed'')"
    using e(1) q(1) has_register_fp [OF reg(1)] by (simp add: append_from_register_def ed''_def)
  moreover have "buf_inv ed'' ns'" "undo_inv ed'' ns0 ns'" "disk_inv ed''" "dot (state ed'') = dot (state ed')"
    using q by (simp_all add: ed''_def undo_inv_def)
  moreover have "buffer_text ed'' = buffer_text ed'" by (rule buffer_text_same) (simp_all add: ed''_def)
  ultimately show ?thesis using q(5,6) by auto
qed

text \<open>Storing lines in a register and reading the register: a copy of the lines.\<close>

lemma register_roundtrip:
  assumes inv: "buf_inv ed ns" "undo_inv ed ns0 ns" "disk_inv ed" "sys_all_ok ed"
    and reg: "has_register ed idx fp" "write_idx (regbuf (core ed)) = idx" "read_idx (regbuf (core ed)) = idx" "fp \<noteq> std_in ed"
    and range: "1 \<le> from" "from \<le> to" "to \<le> lines (state ed)" "0 \<le> addr" "addr \<le> lines (state ed)"
    and plain: "\<not> (is_binary (state ed) \<and> newline_appended (state ed))"
    and sizes: "\<forall>t\<in>set (segment from to (buffer_text ed ns)). LINE_FEED \<notin> set t \<and> int (length t) < SIZE_MAX - 3"
      "int (length (bytes_of (segment from to (buffer_text ed ns)))) < OFF_T_MAX"
      "room (length (segment from to (buffer_text ed ns))) (total_length (segment from to (buffer_text ed ns))) ed"
  shows "\<exists>ed1 ed' ns'. append_to_register from to False ed = (Inr (), ed1) \<and> append_from_register addr ed1 = (Inr (), ed') \<and>
     buf_inv ed' ns' \<and> undo_inv ed' ns0 ns' \<and> disk_inv ed' \<and>
     buffer_text ed' ns' = insert_after addr (segment from to (buffer_text ed ns)) (buffer_text ed ns)"
proof -
  let ?seg = "segment from to (buffer_text ed ns)"
  obtain e where a: "append_to_register from to False ed = (Inr (), e)" "f_data (streams e fp) = written (state ed) ?seg"
    "buf_inv e ns" "undo_inv e ns0 ns" "disk_inv e" "sys_all_ok e" "buffer_text e ns = buffer_text ed ns" "state e = state ed"
    "regbuf (core e) = regbuf (core ed)" "core_fp (core e) = core_fp (core ed)" "f_data (disk e) = f_data (disk ed)" "std_in e = std_in ed"
    using append_to_register_ok [OF inv, of fp "from" to] reg range sizes(2) by auto
  have h: "has_register e (read_idx (regbuf (core e))) fp" using reg a(9,10) by (simp add: has_register_def)
  have r: "room (length ?seg) (total_length ?seg) e" using sizes(3) a(8,11) by (simp add: room_def)
  show ?thesis
    using append_from_register_ok [OF a(3-6) h _ _ sizes(1) _ _ r] a(1,2,7,8,12) reg(4) range written_text [OF plain] by fastforce
qed

section \<open>A register that cannot be emptied\<close>

text \<open>\<open>append_to_register\<close> then returns 1, which is no error for its callers, and stores nothing.\<close>

lemma append_to_register_not_stored:
  assumes reg: "has_register ed (write_idx (regbuf (core ed))) fp" and rng: "1 \<le> from" "from \<le> to"
    and calls: "sys_ok ed (sys_n ed)" "\<not> sys_ok ed (Suc (sys_n ed))"
  shows "fst (append_to_register from to False ed) = Inr ()"
    "f_data (streams (snd (append_to_register from to False ed)) fp) = f_data (streams ed fp)"
proof -
  obtain lp ed1 where g: "get_line_node from ed = (lp, ed1)" "core ed1 = core ed" "sys_ok ed1 = sys_ok ed" "sys_n ed1 = sys_n ed" "streams ed1 = streams ed"
    by (cases "get_line_node from ed") (auto simp: get_line_node_def Let_def cache_node_def split: if_splits)
  have "has_register ed1 (write_idx (regbuf (core ed))) fp" using reg g(2) by (simp add: has_register_def)
  note r = has_register_fp [OF reg] has_register_fp [OF this]
  show "fst (append_to_register from to False ed) = Inr ()"
    "f_data (streams (snd (append_to_register from to False ed)) fp) = f_data (streams ed fp)"
    using g r rng calls
    by (simp_all add: append_to_register_def register_for_writing_def prepare_register_def reset_register_buffer_def seek_or_error_def
        fseek_def sys_call_def throw_def upd_stream_def)
qed

section \<open>Frames of macros\<close>

lemma upd_stream_frames [simp]:
  "std_in (upd_stream fp f ed) = std_in ed" "std_out (upd_stream fp f ed) = std_out ed"
  "display (upd_stream fp f ed) = display ed" "files (upd_stream fp f ed) = files ed"
  "next_stream (upd_stream fp f ed) = next_stream ed" "file_info (upd_stream fp f ed) = file_info ed"
  by (simp_all add: upd_stream_def)

lemma sys_all_ok_std_in [simp]: "sys_all_ok (std_in_update f ed) = sys_all_ok ed"
  by (simp add: sys_all_ok_def)

text \<open>Popping a frame restores the standard input and the script buffer, whatever was appended to it.\<close>

lemma push_stack_frame_ok:
  assumes "sys_all_ok ed" "exec_fp (exec ed) = Some fp" "sp (core ed) \<noteq> 0 \<or> FSCRIPT \<in> opt (exec ed)"
  shows "\<exists>e. push_stack_frame ed = (Inr (), e) \<and> sp (core e) = Suc (sp (core ed)) \<and>
     stack_frame (core e) = (stack_frame (core ed)) (sp (core ed) := \<lparr>sf_fp = std_in ed, sf_size = length (f_data (streams ed fp)),
       sf_addr = f_pos (streams ed fp)\<rparr>) \<and>
     f_data (streams e fp) = f_data (streams ed fp) \<and> f_pos (streams e fp) = length (f_data (streams ed fp)) \<and>
     exec e = exec ed \<and> std_in e = std_in ed \<and> mutex e = mutex ed \<and> sys_all_ok e"
  using assms by (simp add: push_stack_frame_def spl1_def spl0_def fseek_def)

lemma pop_stack_frame_ok:
  assumes "sys_all_ok e" "exec_fp (exec e) = Some fp" "sp (core e) = Suc n"
    "stack_frame (core e) n = \<lparr>sf_fp = i, sf_size = length d, sf_addr = a\<rparr>" "f_data (streams e fp) = d @ extra"
  shows "\<exists>e'. pop_stack_frame e = (Inr (), e') \<and> std_in e' = i \<and> sp (core e') = n \<and> f_data (streams e' fp) = d \<and>
     f_pos (streams e' fp) = a \<and> mutex e' = mutex e"
  using assms by (simp add: pop_stack_frame_def restore_script_def Let_def spl1_def spl0_def fseek_def truncate_stream_def)

text \<open>Unwinding on an error goes back to the outermost frame.\<close>

lemma unwind_stack_frame_ok:
  assumes "sys_all_ok e" "exec_fp (exec e) = Some fp" "sp (core e) \<noteq> 0"
    "stack_frame (core e) 0 = \<lparr>sf_fp = i, sf_size = length d, sf_addr = a\<rparr>" "f_data (streams e fp) = d @ extra"
  shows "\<exists>e'. unwind_stack_frame status e = (status, e') \<and> std_in e' = i \<and> sp (core e') = 0 \<and> f_data (streams e' fp) = d \<and>
     f_pos (streams e' fp) = a \<and> mutex e' = mutex e"
  using assms by (simp add: unwind_stack_frame_def restore_script_def Let_def spl1_def spl0_def fseek_def truncate_stream_def)

end
