(* ===== verification/Display.thy ===== *)
theory Display
  imports Registers
begin

text \<open>
  Printing of lines (\<open>page.c\<close>, the variant without a frame buffer): numbered lines, the unambiguous
  listing of the command \<open>l\<close> with its line breaks, and escape sequences of ANSI terminals, which are
  not counted as columns.

  The characters a line is printed as do not depend on the calls that print them, so they are
  computed first (\<open>tty_text\<close>) and put one at a time (\<open>put_chars\<close>).  A column is a \<open>size_t\<close>.  The
  lemmas show what a range of lines is printed as, and that a listing can be read back.
\<close>

section \<open>Columns and escapes\<close>

definition RIGHT_MARGIN :: int where "RIGHT_MARGIN = TAB_WIDTH"

definition GET_CHAR_WIDTH :: "char \<Rightarrow> int \<Rightarrow> int" where
  "GET_CHAR_WIDTH i c =
     (if i = BACKSPACE then - 1
      else if i = FORM_FEED then 0
      else if i = CARRIAGE_RETURN then - c
      else if i = CHARACTER_TABULATION then TAB_WIDTH - (c - (c div TAB_WIDTH) * TAB_WIDTH)
      else if byte i < 32 then 0
      else 1)"

definition sgr_span :: "string \<Rightarrow> nat" where
  "sgr_span s =
     (if cur s \<noteq> ESCAPE \<or> peek 1 s \<noteq> CHR ''['' then 0
      else let n = length (takeWhile (\<lambda>c. isdigit c \<or> c = CHR '';'' \<or> c = CHR '':'') (drop 2 s))
           in if peek (n + 2) s = CHR ''m'' then n + 3 else 0)"

definition control_char :: "(char \<times> char) list" where
  "control_char =
     [(BELL, CHR ''a''), (BACKSPACE, CHR ''b''), (CHARACTER_TABULATION, CHR ''t''), (LINE_FEED, CHR ''n''),
      (LINE_TABULATION, CHR ''v''), (FORM_FEED, CHR ''f''), (CARRIAGE_RETURN, CHR ''r''), (CHR ''$'', CHR ''$''),
      (REVERSE_SOLIDUS, REVERSE_SOLIDUS)]"

definition octal_escape :: "char \<Rightarrow> string" where
  "octal_escape c = [REVERSE_SOLIDUS, digit (byte c div 64), digit (byte c div 8 mod 8), digit (byte c mod 8)]"

definition list_escape :: "char \<Rightarrow> string" where
  "list_escape c = (case map_of control_char c of Some e \<Rightarrow> [REVERSE_SOLIDUS, e] | None \<Rightarrow> octal_escape c)"

text \<open>Characters above 126 are negative or not printed as they are: \<open>char\<close> is signed.\<close>

definition lists_itself :: "char \<Rightarrow> bool" where
  "lists_itself c \<longleftrightarrow> 31 < byte c \<and> byte c < 127 \<and> c \<noteq> REVERSE_SOLIDUS \<and> c \<noteq> CHR ''$''"

text \<open>Whether a listed line is split after the first character of \<open>s\<close>\<close>

definition splits_line :: "int \<Rightarrow> int \<Rightarrow> string \<Rightarrow> bool" where
  "splits_line ws col s \<longleftrightarrow>
     \<not> isalnum (cur s) \<and> u64 (ws - 2 * RIGHT_MARGIN) \<le> col \<and> 2 < length s \<or>
     u64 (ws - RIGHT_MARGIN) \<le> col \<and> 1 < length s"

section \<open>The text of a line\<close>

text \<open>
  \<open>cont\<close>: lines may be split.  The second component is false when the loop steps over the end of the
  text, after an escape sequence that ends it.
\<close>

function tty_text :: "bool \<Rightarrow> bool \<Rightarrow> bool \<Rightarrow> int \<Rightarrow> int \<Rightarrow> string \<Rightarrow> string \<times> bool" where
  "tty_text list ansi cont ws col [] = ([], True)"
| "tty_text list ansi cont ws col (c # cs) =
     (let n = (if ansi then sgr_span (c # cs) else 0);
          next = (\<lambda>col. if list \<and> cont \<and> splits_line ws col (c # cs)
                        then apfst ((@) [REVERSE_SOLIDUS, LINE_FEED]) (tty_text list ansi cont ws 0 cs)
                        else tty_text list ansi cont ws col cs)
      in if \<not> list \<or> lists_itself c then
           (if 0 < n then
              apfst ((@) (take n (c # cs)))
                (if length (c # cs) \<le> n then ([], False) else tty_text list ansi cont ws col (drop n cs))
            else apfst ((#) c) (next (u64 (col + GET_CHAR_WIDTH c col))))
         else apfst ((@) (list_escape c)) (next (u64 (col + int (length (list_escape c))))))"
  by pat_completeness auto
termination by (relation "measure (\<lambda>(_, _, _, _, _, s). length s)") auto

definition putchar :: "char \<Rightarrow> ed_buffer \<Rightarrow> unit res" where
  "putchar c ed =
     (case sys_call ed of
        (False, ed) \<Rightarrow> (Inl ERR, ed)
      | (True, ed) \<Rightarrow> (Inr (), std_out_update (\<lambda>s. s @ [c]) ed))"

primrec put_chars :: "string \<Rightarrow> ed_buffer \<Rightarrow> unit res" where
  "put_chars [] ed = (Inr (), ed)"
| "put_chars (c # cs) ed = andThen (putchar c ed) (\<lambda>_. put_chars cs)"

text \<open>The number of a line, padded to the width of the last one, and a tab\<close>

definition lines_len :: "ed_buffer \<Rightarrow> nat" where
  "lines_len ed = length (decimal (nat \<bar>lines (state ed)\<bar>))"

definition number_text :: "int \<Rightarrow> ed_buffer \<Rightarrow> string" where
  "number_text addr ed =
     (let a = (if addr < 0 then CHR ''-'' # decimal (nat (- addr)) else decimal (nat addr))
      in replicate (lines_len ed - length a) (CHR '' '') @ a @ [CHARACTER_TABULATION])"

definition line_text :: "int \<Rightarrow> string \<Rightarrow> ed_buffer \<Rightarrow> string \<times> bool" where
  "line_text col s ed =
     tty_text (LIST \<in> dio_f (display ed)) (ANSI_COLOR \<in> opt (exec ed)) (\<not> posix_or_traditional ed) (ws_col (display ed)) col (cstr s)"

definition line_terminator :: "ed_buffer \<Rightarrow> string" where
  "line_terminator ed = (if LIST \<in> dio_f (display ed) then ''$'' else []) @ [LINE_FEED]"

definition put_tty_line :: "node \<Rightarrow> int \<Rightarrow> ed_buffer \<Rightarrow> unit res" where
  "put_tty_line lp addr ed =
     (let nm = NMBR \<in> dio_f (display ed);
          n = int (lines_len ed);
          col = (if nm then n + GET_CHAR_WIDTH CHARACTER_TABULATION n else 0)
      in andThen (put_chars (if nm then number_text addr ed else []) ed) (\<lambda>_ ed.
         andThen (get_buffer_line lp ed) (\<lambda>s ed.
         andThen (put_chars (fst (line_text col s ed)) ed) (\<lambda>_ ed.
           if snd (line_text col s ed) then put_chars (line_terminator ed) ed else (Inl FATAL, ed)))))"

section \<open>A range of lines\<close>

text \<open>Fuel: the number of nodes.\<close>

fun display_loop :: "nat \<Rightarrow> node \<Rightarrow> node \<Rightarrow> int \<Rightarrow> ed_buffer \<Rightarrow> int res" where
  "display_loop k bp ep addr ed =
     (if bp = ep then (Inr addr, ed)
      else case k of
        0 \<Rightarrow> (Inl FATAL, ed)
      | Suc k \<Rightarrow> andThen (put_tty_line bp addr ed) (\<lambda>_ ed. display_loop k (q_forw (nodes (core ed) bp)) ep (addr + 1) ed))"

declare display_loop.simps [simp del]
declare tty_text.simps(2) [simp del]

definition display_lines :: "int \<Rightarrow> int \<Rightarrow> ed_buffer \<Rightarrow> unit res" where
  "display_lines from to ed =
     (if lines (state ed) = 0 then (Inr (), ed)
      else
        let (ep, ed) = get_line_node (INC_MOD to (lines (state ed))) ed;
            (bp, ed) = get_line_node from ed
        in andThen (display_loop (next_node (core ed)) bp ep from ed) (\<lambda>a ed. (Inr (), set_dot (a - 1) ed)))"

section \<open>What a line is printed as\<close>

lemma put_chars_ok:
  assumes "sys_all_ok ed"
  shows "put_chars s ed = (Inr (), std_out_update (\<lambda>t. t @ s) (sys_n_update (\<lambda>n. n + length s) ed))"
  using assms
proof (induction s arbitrary: ed)
  case Nil
  then show ?case by (cases ed) simp
next
  case (Cons c s)
  have "sys_all_ok (std_out_update (\<lambda>t. t @ [c]) (sys_n_update Suc ed))" using Cons.prems by (simp add: sys_all_ok_def)
  with Cons show ?case by (cases ed) (simp add: putchar_def)
qed

lemma tty_text_plain: "tty_text False False cont ws col s = (s, True)"
  by (induction False False cont ws col s rule: tty_text.induct) (simp_all add: tty_text.simps(2))

text \<open>Escape sequences start with a character that is listed as octal digits.\<close>

lemma sgr_span_plain: "lists_itself c \<Longrightarrow> sgr_span (c # cs) = 0"
  by (auto simp: sgr_span_def lists_itself_def byte_def)

definition listed :: "char \<Rightarrow> string" where
  "listed c = (if lists_itself c then [c] else list_escape c)"

lemma tty_text_list_Cons:
  "\<exists>brk col'. (brk = [] \<or> brk = [REVERSE_SOLIDUS, LINE_FEED]) \<and> (brk \<noteq> [] \<longrightarrow> cont) \<and>
     tty_text True ansi cont ws col (c # cs) = apfst ((@) (listed c @ brk)) (tty_text True ansi cont ws col' cs)"
proof -
  define w where "w = u64 (col + (if lists_itself c then GET_CHAR_WIDTH c col else int (length (list_escape c))))"
  show ?thesis
  proof (cases "cont \<and> splits_line ws w (c # cs)")
    case True
    have "tty_text True ansi cont ws col (c # cs) =
        apfst ((@) (listed c @ [REVERSE_SOLIDUS, LINE_FEED])) (tty_text True ansi cont ws 0 cs)"
      using True by (cases "lists_itself c") (simp_all add: tty_text.simps(2) Let_def sgr_span_plain listed_def w_def apfst_def map_prod_def split_beta)
    then show ?thesis using True by blast
  next
    case False
    have "tty_text True ansi cont ws col (c # cs) = apfst ((@) (listed c @ [])) (tty_text True ansi cont ws w cs)"
      using False by (cases "lists_itself c") (auto simp: tty_text.simps(2) Let_def sgr_span_plain listed_def w_def apfst_def map_prod_def split_beta)
    then show ?thesis by blast
  qed
qed

lemma tty_text_list_ok: "snd (tty_text True ansi cont ws col s)"
proof (induction s arbitrary: col)
  case (Cons c s)
  then show ?case using tty_text_list_Cons [of cont ansi ws col c s] by (auto simp: apfst_def map_prod_def split_beta)
qed simp

text \<open>After an escape sequence a character is skipped; a sequence at the end is read past.\<close>

lemma tty_text_sgr:
  assumes "sgr_span s = n" "0 < n" "n < length s"
  shows "tty_text False True cont ws col s = apfst ((@) (take n s)) (tty_text False True cont ws col (drop (Suc n) s))"
  using assms by (cases s) (simp_all add: tty_text.simps(2))

lemma tty_text_sgr_end:
  assumes "sgr_span s = length s" "s \<noteq> []"
  shows "tty_text False True cont ws col s = (s, False)"
  using assms by (cases s) (simp_all add: tty_text.simps(2))

section \<open>A listing can be read back\<close>

definition unescape :: "char \<Rightarrow> char" where
  "unescape e = (case map_of (map prod.swap control_char) e of Some c \<Rightarrow> c | None \<Rightarrow> e)"

function unlist :: "string \<Rightarrow> string" where
  "unlist [] = []"
| "unlist (c # s) =
     (if c \<noteq> REVERSE_SOLIDUS then c # unlist s
      else if cur s = LINE_FEED then unlist (drop 1 s)
      else if isdigit (cur s)
      then char_of (64 * digit_val (cur s) + 8 * digit_val (peek 1 s) + digit_val (peek 2 s)) # unlist (drop 3 s)
      else unescape (cur s) # unlist (drop 1 s))"
  by pat_completeness auto
termination by (relation "measure length") auto

lemma octal_digits: "64 * (n div 64) + 8 * (n div 8 mod 8) + n mod 8 = (n :: nat)"
proof -
  have "n div 64 = n div 8 div 8" by (simp add: div_mult2_eq [symmetric])
  then show ?thesis using div_mult_mod_eq [of n 8] div_mult_mod_eq [of "n div 8" 8] by linarith
qed

lemma octal_digits_less: "n < 256 \<Longrightarrow> n div 64 < 10" "n div 8 mod 8 < 10" "n mod 8 < (10 :: nat)"
  using mod_less_divisor [of 8 "n div 8"] mod_less_divisor [of 8 n] div_le_mono [of n 255 64] by simp_all

lemma unlist_octal: "unlist (octal_escape c @ r) = c # unlist r"
proof -
  note d = digit_props [OF octal_digits_less(1) [OF byte_less, of c]] digit_props [OF octal_digits_less(2), of "byte c"]
    digit_props [OF octal_digits_less(3), of "byte c"]
  have "digit (byte c div 64) \<noteq> LINE_FEED" using d(1) by (auto simp: ctype_defs)
  then show ?thesis using d octal_digits [of "byte c"] by (simp add: octal_escape_def peek_def numeral_2_eq_2 numeral_3_eq_3 byte_def)
qed

lemma unlist_escape: "map_of control_char c = Some e \<Longrightarrow> unlist (REVERSE_SOLIDUS # e # r) = c # unlist r"
  by (auto simp: control_char_def unescape_def ctype_defs split: if_splits)

lemma unlist_listed: "unlist (listed c @ r) = c # unlist r"
proof (cases "lists_itself c")
  case True
  then show ?thesis by (auto simp: listed_def lists_itself_def)
next
  case False
  then show ?thesis
    using unlist_octal unlist_escape by (auto simp: listed_def list_escape_def split: option.split)
qed

lemma unlist_tty_text: "unlist (fst (tty_text True ansi cont ws col s)) = s"
proof (induction s arbitrary: col)
  case (Cons c s)
  obtain brk col' where b: "brk = [] \<or> brk = [REVERSE_SOLIDUS, LINE_FEED]"
    "tty_text True ansi cont ws col (c # s) = apfst ((@) (listed c @ brk)) (tty_text True ansi cont ws col' s)"
    using tty_text_list_Cons [of cont ansi ws col c s] by blast
  have "unlist (brk @ r) = unlist r" for r using b(1) by auto
  with b(2) Cons show ?case by (simp add: unlist_listed apfst_def map_prod_def split_beta)
qed simp

section \<open>What a range of lines is printed as\<close>

definition displayed :: "string \<Rightarrow> ed_buffer \<Rightarrow> node list \<Rightarrow> ed_buffer \<Rightarrow> bool" where
  "displayed out ed ns ed' \<longleftrightarrow>
     looked ed ns ed' \<and> std_out ed' = std_out ed @ out \<and> display ed' = display ed \<and> statics ed' = statics ed \<and>
     std_in ed' = std_in ed \<and> (\<forall>x. x \<noteq> core_fp (core ed) \<longrightarrow> streams ed' x = streams ed x)"

lemma displayed_trans: "displayed s a ns b \<Longrightarrow> displayed t b ns c \<Longrightarrow> displayed (s @ t) a ns c"
  using looked_trans [of a ns b c] by (auto simp: displayed_def looked_def)

lemma displayed_refl: "buf_inv ed ns \<Longrightarrow> disk_inv ed \<Longrightarrow> sys_all_ok ed \<Longrightarrow> displayed [] ed ns ed"
  by (simp add: displayed_def looked_refl)

lemma displayed_put_chars:
  assumes "buf_inv ed ns" "disk_inv ed" "sys_all_ok ed"
  shows "\<exists>ed'. put_chars s ed = (Inr (), ed') \<and> displayed s ed ns ed'"
proof -
  let ?e = "std_out_update (\<lambda>t. t @ s) (sys_n_update (\<lambda>n. n + length s) ed)"
  have "looked ed ns ?e"
    using assms by (auto simp: looked_def buf_inv_def disk_inv_def node_stored_def sys_all_ok_def
        intro!: exI [of _ "seek_on_write (core ed)"] exI [of _ "offset (core ed)"])
  then show ?thesis using put_chars_ok [OF assms(3), of s] by (simp add: displayed_def)
qed

lemma displayed_read:
  assumes inv: "buf_inv ed ns" "disk_inv ed" "sys_all_ok ed" and p: "p \<in> set ns"
  shows "\<exists>ed'. get_buffer_line p ed = (Inr (node_text ed p), ed') \<and> displayed [] ed ns ed'"
proof -
  have p0: "0 < p" "p < next_node (core ed)"
    using inv(1) p by (auto simp: buf_inv_def ring_def line_head_def intro: gr0I)
  show ?thesis
  proof (rule get_buffer_line_text [OF inv(2) p0 inv(3)])
    fix e
    assume g: "get_buffer_line p ed = (Inr (node_text ed p), e)" "disk_inv e" "f_data (disk e) = f_data (disk ed)"
      "state e = state ed" "statics e = statics ed" "sys_all_ok e" "state1 e = state1 ed" "mutex e = mutex ed"
      "exec e = exec ed" "input e = input ed"
      "core e = (core ed)\<lparr>seek_on_write := True, offset := ln_seek (nodes (core ed) p) + int (ln_len (nodes (core ed) p))\<rparr>"
    have f: "disk_frame ed e" using disk_frame_get_buffer_line [of ed p] g(1) by simp
    have "looked ed ns e" using inv(1) g by (auto simp: looked_def buf_inv_def)
    then show ?thesis using g f by (auto simp: displayed_def disk_frame_def)
  qed
qed

text \<open>The text of a line in the output\<close>

definition printed_line :: "ed_buffer \<Rightarrow> int \<Rightarrow> string \<Rightarrow> string" where
  "printed_line ed addr t =
     (if NMBR \<in> dio_f (display ed) then number_text addr ed else []) @
     fst (line_text (if NMBR \<in> dio_f (display ed) then int (lines_len ed) + GET_CHAR_WIDTH CHARACTER_TABULATION (int (lines_len ed)) else 0) t ed) @
     line_terminator ed"

definition stays_in_line :: "ed_buffer \<Rightarrow> bool" where
  "stays_in_line ed \<longleftrightarrow> ANSI_COLOR \<notin> opt (exec ed) \<or> LIST \<in> dio_f (display ed)"

lemma line_text_ok: "stays_in_line ed \<Longrightarrow> snd (line_text col s ed)"
  using tty_text_list_ok tty_text_plain by (cases "LIST \<in> dio_f (display ed)") (auto simp: line_text_def stays_in_line_def)

lemma displayed_same:
  assumes "displayed out ed ns e"
  shows "printed_line e = printed_line ed" "stays_in_line e = stays_in_line ed" "line_text col s e = line_text col s ed"
    "line_terminator e = line_terminator ed" "lines_len e = lines_len ed" "number_text addr e = number_text addr ed"
    "node_text e = node_text ed" "nodes (core e) = nodes (core ed)"
    "buf_inv e ns" "disk_inv e" "sys_all_ok e"
  using assms
  by (auto simp: displayed_def looked_def printed_line_def stays_in_line_def line_text_def line_terminator_def lines_len_def
      number_text_def posix_or_traditional_def fun_eq_iff node_text_def)

lemma put_tty_line_ok:
  assumes inv: "buf_inv ed ns" "disk_inv ed" "sys_all_ok ed" and p: "p \<in> set ns" and s: "stays_in_line ed"
  shows "\<exists>ed'. put_tty_line p addr ed = (Inr (), ed') \<and> displayed (printed_line ed addr (node_text ed p)) ed ns ed'"
proof -
  let ?num = "if NMBR \<in> dio_f (display ed) then number_text addr ed else []"
  let ?col = "if NMBR \<in> dio_f (display ed) then int (lines_len ed) + GET_CHAR_WIDTH CHARACTER_TABULATION (int (lines_len ed)) else 0"
  obtain e1 where e1: "put_chars ?num ed = (Inr (), e1)" "displayed ?num ed ns e1"
    using displayed_put_chars [OF inv] by blast
  note s1 = displayed_same [OF e1(2)]
  obtain e2 where e2: "get_buffer_line p e1 = (Inr (node_text ed p), e2)" "displayed [] e1 ns e2"
    using displayed_read [OF s1(9-11) p] s1(7) by auto
  note s2 = displayed_same [OF e2(2)]
  obtain e3 where e3: "put_chars (fst (line_text ?col (node_text ed p) ed)) e2 = (Inr (), e3)"
    "displayed (fst (line_text ?col (node_text ed p) ed)) e2 ns e3"
    using displayed_put_chars [OF s2(9-11)] by blast
  note s3 = displayed_same [OF e3(2)]
  obtain e4 where e4: "put_chars (line_terminator ed) e3 = (Inr (), e4)" "displayed (line_terminator ed) e3 ns e4"
    using displayed_put_chars [OF s3(9-11)] by blast
  have "put_tty_line p addr ed = (Inr (), e4)"
    using e1(1) e2(1) e3(1) e4(1) line_text_ok [OF s] s1 s2 s3 by (simp add: put_tty_line_def Let_def)
  moreover have "displayed (printed_line ed addr (node_text ed p)) ed ns e4"
    using displayed_trans [OF displayed_trans [OF displayed_trans [OF e1(2) e2(2)] e3(2)] e4(2)] by (simp add: printed_line_def)
  ultimately show ?thesis by blast
qed

primrec printed_lines :: "ed_buffer \<Rightarrow> int \<Rightarrow> string list \<Rightarrow> string" where
  "printed_lines ed a [] = []"
| "printed_lines ed a (t # ts) = printed_line ed a t @ printed_lines ed (a + 1) ts"

lemma printed_lines_same: "displayed out ed ns e \<Longrightarrow> printed_lines e a ts = printed_lines ed a ts"
  by (induction ts arbitrary: a) (simp_all add: displayed_same)

abbreviation around :: "node list \<Rightarrow> nat \<Rightarrow> node" where
  "around ns i \<equiv> (line_head # ns @ [line_head]) ! i"

lemma around_forw: "ring h ns \<Longrightarrow> i \<le> length ns \<Longrightarrow> q_forw (h (around ns i)) = around ns (Suc i)"
  using chain_nth [OF ring_chain, of h ns i] by simp

lemma around_differ: "ring h ns \<Longrightarrow> j < length ns \<Longrightarrow> Suc j < i \<Longrightarrow> i \<le> Suc (length ns) \<Longrightarrow> around ns (Suc j) \<noteq> around ns i"
  using ring_distinct [of h ns] nth_mem [of j ns] by (auto simp: nth_append nth_Cons' nth_eq_iff_index_eq simp del: nth_mem)

lemma display_loop_ok:
  assumes "buf_inv ed ns" "disk_inv ed" "sys_all_ok ed" "stays_in_line ed" "j + n \<le> length ns" "n \<le> k"
  shows "\<exists>ed'. display_loop k (around ns (Suc j)) (around ns (Suc j + n)) (int (Suc j)) ed = (Inr (int (Suc j + n)), ed') \<and>
     displayed (printed_lines ed (int (Suc j)) (map (node_text ed) (take n (drop j ns)))) ed ns ed'"
  using assms
proof (induction n arbitrary: ed j k)
  case 0
  then show ?case using displayed_refl by (subst display_loop.simps) simp
next
  case (Suc n)
  obtain k' where k: "k = Suc k'" using Suc.prems(6) by (cases k) auto
  have r: "ring (nodes (core ed)) ns" using Suc.prems(1) by (simp add: buf_inv_def)
  have j: "j < length ns" using Suc.prems(5) by simp
  have at: "around ns (Suc j) = ns ! j" using j by (simp add: nth_append)
  then have mem: "around ns (Suc j) \<in> set ns" using j by simp
  have drop: "take (Suc n) (drop j ns) = ns ! j # take n (drop (Suc j) ns)" using j by (simp add: Cons_nth_drop_Suc [symmetric])
  have ne: "around ns (Suc j) \<noteq> around ns (Suc j + Suc n)" by (rule around_differ [OF r j]) (use Suc.prems(5) in simp_all)
  obtain e where e: "put_tty_line (around ns (Suc j)) (int (Suc j)) ed = (Inr (), e)"
    "displayed (printed_line ed (int (Suc j)) (node_text ed (ns ! j))) ed ns e"
    using put_tty_line_ok [OF Suc.prems(1-3) mem Suc.prems(4)] at by auto
  note s = displayed_same [OF e(2)]
  have fw: "q_forw (nodes (core e) (around ns (Suc j))) = around ns (Suc (Suc j))"
    using around_forw [OF r, of "Suc j"] j s(8) by simp
  obtain ed' where i: "display_loop k' (around ns (Suc (Suc j))) (around ns (Suc (Suc j) + n)) (int (Suc (Suc j))) e
      = (Inr (int (Suc (Suc j) + n)), ed')"
    "displayed (printed_lines e (int (Suc (Suc j))) (map (node_text e) (take n (drop (Suc j) ns)))) e ns ed'"
    using Suc.IH [OF s(9-11) _ , of "Suc j" k'] Suc.prems(4-6) s(2) k by auto
  have "display_loop k (around ns (Suc j)) (around ns (Suc j + Suc n)) (int (Suc j)) ed = (Inr (int (Suc j + Suc n)), ed')"
    by (subst display_loop.simps) (use ne e(1) fw i(1) in \<open>simp add: k del: nth_Cons_Suc\<close>)
  moreover have "displayed (printed_lines ed (int (Suc j)) (map (node_text ed) (take (Suc n) (drop j ns)))) ed ns ed'"
    using displayed_trans [OF e(2) i(2)] s(7) by (simp add: drop printed_lines_same [OF e(2)])
  ultimately show ?case by blast
qed

lemma INC_MOD_around:
  assumes "buf_inv ed ns" "0 \<le> n" "n \<le> lines (state ed)"
  shows "node_at ns (INC_MOD n (lines (state ed))) = around ns (Suc (nat n))"
  using assms by (auto simp: INC_MOD_def buf_inv_def nth_append nat_add_distrib)

lemma display_lines_ok:
  assumes inv: "buf_inv ed ns" "disk_inv ed" "sys_all_ok ed" and s: "stays_in_line ed"
    and range: "1 \<le> from" "from \<le> to" "to \<le> lines (state ed)"
  shows "\<exists>ed'. display_lines from to ed = (Inr (), set_dot to ed') \<and>
     looked ed ns ed' \<and> std_out ed' = std_out ed @ printed_lines ed from (segment from to (buffer_text ed ns)) \<and> display ed' = display ed"
proof -
  define j n where "j = nat (from - 1)" and "n = nat (to - from + 1)"
  let ?ep = "node_at ns (INC_MOD to (lines (state ed)))"
  let ?e1 = "cache_node ?ep (INC_MOD to (lines (state ed))) ed"
  let ?e = "cache_node (node_at ns from) from ?e1"
  have im: "0 \<le> INC_MOD to (lines (state ed))" "INC_MOD to (lines (state ed)) \<le> lines (state ed)"
    using INC_MOD_bounds [of to "lines (state ed)"] range by simp_all
  have i1: "buf_inv ?e1 ns" by (rule buf_inv_cache_node [OF inv(1) im])
  have ie: "buf_inv ?e ns" using buf_inv_cache_node [OF i1, of "from"] range by simp
  have ies: "disk_inv ?e" "sys_all_ok ?e" "stays_in_line ?e"
    using inv s by (simp_all add: disk_inv_def node_stored_def stays_in_line_def)
  have g: "get_line_node (INC_MOD to (lines (state ed))) ed = (?ep, ?e1)" "get_line_node from ?e1 = (node_at ns from, ?e)"
    using get_line_node_eq [OF inv(1) im] get_line_node_eq [OF i1, of "from"] range by simp_all
  have len: "lines (state ed) = int (length ns)" using inv(1) by (simp add: buf_inv_def)
  have jn: "j + n \<le> length ns" "n \<le> next_node (core ?e)" "int (Suc j) = from" "int (Suc j + n) = to + 1"
    using range len buf_inv_length [OF inv(1)] by (simp_all add: j_def n_def)
  have nats: "nat from = Suc j" "Suc (nat to) = Suc j + n" using range by (simp_all add: j_def n_def)
  have "Suc j \<le> length ns" using range len by (simp add: j_def)
  then have b: "around ns (Suc j) = node_at ns from" "around ns (Suc j + n) = ?ep"
    using INC_MOD_around [OF inv(1), of to] range jn(1) ring_index [of "Suc j" ns] len unfolding nats by simp_all
  have nt: "node_text ?e = node_text ed" by (rule ext) (simp add: node_text_def)
  have seg: "map (node_text ?e) (take n (drop j ns)) = segment from to (buffer_text ed ns)"
    by (simp add: nt segment_def buffer_text_def take_map drop_map j_def n_def)
  have pl: "printed_lines ?e a ts = printed_lines ed a ts" for a ts
    by (induction ts arbitrary: a) (simp_all add: printed_line_def line_text_def line_terminator_def lines_len_def number_text_def posix_or_traditional_def)
  obtain ed' where l: "display_loop (next_node (core ?e)) (node_at ns from) ?ep from ?e = (Inr (to + 1), ed')"
    "displayed (printed_lines ed from (segment from to (buffer_text ed ns))) ?e ns ed'"
    using display_loop_ok [OF ie ies jn(1,2)] unfolding b jn(3,4) seg pl by blast
  have "display_lines from to ed = (Inr (), set_dot to ed')"
    using l(1) g range by (simp add: display_lines_def)
  moreover have "looked ed ns ed'" using l(2) by (simp add: displayed_def looked_def)
  ultimately show ?thesis using l(2) by (intro exI [of _ ed']) (simp add: displayed_def cache_node_def)
qed

text \<open>Without listing, numbers and escape sequences the lines are printed as they are.\<close>

lemma printed_lines_plain:
  assumes "dio_f (display ed) \<inter> {LIST, NMBR} = {}" "ANSI_COLOR \<notin> opt (exec ed)"
  shows "printed_lines ed a ts = bytes_of (map cstr ts)"
  using assms
  by (induction ts arbitrary: a) (simp_all add: printed_line_def line_text_def line_terminator_def tty_text_plain bytes_of_def)

text \<open>A listed line is its listing and a dollar sign, which no listing contains outside an escape.\<close>

lemma printed_line_list:
  assumes "LIST \<in> dio_f (display ed)" "NMBR \<notin> dio_f (display ed)"
  shows "\<exists>out. printed_line ed a t = out @ ''$'' @ [LINE_FEED] \<and> unlist out = cstr t"
  using assms unlist_tty_text by (auto simp: printed_line_def line_text_def line_terminator_def)

end
