(* ===== verification/Files.thy ===== *)
theory Files
  imports Display
begin

text \<open>
  Files, pipes, filters and shell commands (\<open>io.c\<close>, \<open>filter.c\<close>, \<open>cmds.c\<close>, \<open>parse.c\<close>).

  The operating system is a parameter, which extends the regular expression library: whether the
  nominal standard input is seekable, the access rights of files, and what a shell command prints,
  with its exit status, as a function of the command and its standard input.  What a shell command
  does to files is not modelled.  A file is opened as a fresh stream with the contents the file
  system holds; closing a stream opened for writing stores its contents.  Messages that quote
  \<open>strerror\<close> are not modelled.  An end of file is not reported by \<open>fclose\<close> and \<open>pclose\<close>.
\<close>

record os = regex_lib +
  os_seekable :: bool
  os_writable :: "string \<Rightarrow> bool"
  os_fifo :: "string \<Rightarrow> bool"
  os_shell :: "string \<Rightarrow> string \<Rightarrow> string \<times> nat"

section \<open>Output\<close>

definition print :: "string \<Rightarrow> ed_buffer \<Rightarrow> ed_buffer" where
  "print s = std_out_update (\<lambda>t. t @ s)"

definition puts :: "string \<Rightarrow> ed_buffer \<Rightarrow> ed_buffer" where
  "puts s = print (s @ [LINE_FEED])"

definition int_text :: "int \<Rightarrow> string" where
  "int_text n = (if n < 0 then CHR ''-'' # decimal (nat (- n)) else decimal (nat n))"

definition print_size :: "ed_flag set \<Rightarrow> int \<Rightarrow> ed_buffer \<Rightarrow> ed_buffer" where
  "print_size quiet sz ed = (if opt (exec ed) \<inter> quiet \<noteq> {} then ed else puts (int_text sz) ed)"

fun hexadecimal :: "nat \<Rightarrow> string" where
  "hexadecimal n =
     (let d = [if n mod 16 < 10 then digit (n mod 16) else char_of (87 + n mod 16)]
      in if n < 16 then d else hexadecimal (n div 16) @ d)"

declare hexadecimal.simps [simp del]

definition exit_status_text :: "nat \<Rightarrow> string" where
  "exit_status_text n = ''Exit status: '' @ (if n = 0 then ''0'' else ''0x'' @ hexadecimal n)"

definition note_exit :: "nat \<Rightarrow> ed_buffer \<Rightarrow> ed_buffer" where
  "note_exit n ed = (if n \<noteq> 0 then set_err (exit_status_text n) ed else ed)"

section \<open>Streams of files and pipes\<close>

definition open_stream :: "string \<Rightarrow> ed_buffer \<Rightarrow> stream_id \<times> ed_buffer" where
  "open_stream data ed =
     (next_stream ed, next_stream_update Suc (upd_stream (next_stream ed) (\<lambda>_. \<lparr>f_data = data, f_pos = 0, f_eof = False\<rparr>) ed))"

text \<open>\<open>/dev/null\<close> is there, and empty.\<close>

definition file_contents :: "string \<Rightarrow> ed_buffer \<Rightarrow> string option" where
  "file_contents fn ed = (if fn = ''/dev/null'' then Some [] else files ed fn)"

definition fopen_read :: "string \<Rightarrow> ed_buffer \<Rightarrow> stream_id option \<times> ed_buffer" where
  "fopen_read fn ed =
     (case sys_call ed of
        (False, ed) \<Rightarrow> (None, ed)
      | (True, ed) \<Rightarrow>
          (case file_contents fn ed of
             None \<Rightarrow> (None, ed)
           | Some data \<Rightarrow> apfst Some (open_stream data ed)))"

text \<open>\<open>/dev/null\<close> keeps nothing.\<close>

definition store_file :: "string \<Rightarrow> string \<Rightarrow> ed_buffer \<Rightarrow> ed_buffer" where
  "store_file fn data = files_update (\<lambda>fs. if fn = ''/dev/null'' then fs else fs(fn \<mapsto> data))"

definition fopen_write :: "string \<Rightarrow> char \<Rightarrow> ed_buffer \<Rightarrow> stream_id option \<times> ed_buffer" where
  "fopen_write fn mode ed =
     (case sys_call ed of
        (False, ed) \<Rightarrow> (None, ed)
      | (True, ed) \<Rightarrow>
          (let old = (if mode = CHR ''a'' \<and> file_contents fn ed \<noteq> None then the (file_contents fn ed) else []);
               (fp, ed) = open_stream old (store_file fn old ed)
           in (Some fp, upd_stream fp (f_pos_update (\<lambda>_. length old)) ed)))"

definition fclose_write :: "string \<Rightarrow> stream_id \<Rightarrow> ed_buffer \<Rightarrow> bool \<times> ed_buffer" where
  "fclose_write fn fp ed =
     (case sys_call ed of
        (False, ed) \<Rightarrow> (False, ed)
      | (True, ed) \<Rightarrow> (True, store_file fn (f_data (streams ed fp)) ed))"

section \<open>Reading and writing files and pipes\<close>

text \<open>The lines read, or written, and the bytes\<close>

definition read_file :: "'x os_scheme \<Rightarrow> string \<Rightarrow> int \<Rightarrow> ed_buffer \<Rightarrow> (int \<times> int) res" where
  "read_file os fn after ed =
     (if file_contents fn ed = None then throw ''File does not exist'' ed
      else if WRITE_ONLY \<in> opt (exec ed) then (Inr (0, 0), ed)
      else case sys_call ed of
        (False, ed) \<Rightarrow> throw ''File stat error'' ed
      | (True, ed) \<Rightarrow>
          (let read_only = (os_fifo os fn \<or> \<not> os_writable os fn) in
           case fopen_read fn ed of
             (None, ed) \<Rightarrow> throw ''File open error'' ed
           | (Some fp, ed) \<Rightarrow>
               andThen (read_stream fp after ed) (\<lambda>sz ed.
                 let addr = dot (state ed) - after;
                     ed = (if read_only \<and> \<not> posix_or_traditional ed \<and> VERBOSE \<in> opt (exec ed)
                           then print_err (fn @ '': File is read-only'' @ [LINE_FEED]) ed else ed)
                 in case sys_call ed of
                      (False, ed) \<Rightarrow> throw ''File close error'' ed
                    | (True, ed) \<Rightarrow> (Inr (addr, sz), ed))))"

definition shell_prompt :: "ed_buffer \<Rightarrow> ed_buffer" where
  "shell_prompt ed = (if SCRIPTED \<in> opt (exec ed) then ed else puts ''!'' ed)"

definition read_pipe :: "'x os_scheme \<Rightarrow> string \<Rightarrow> int \<Rightarrow> ed_buffer \<Rightarrow> (int \<times> int) res" where
  "read_pipe os fn after ed =
     (case sys_call ed of
        (False, ed) \<Rightarrow> throw ''File open error'' ed
      | (True, ed) \<Rightarrow>
          (let (out, code) = os_shell os (drop 1 fn) [];
               (fp, ed) = open_stream out ed
           in andThen (read_stream fp after ed) (\<lambda>sz ed.
                (Inr (dot (state ed) - after, sz), shell_prompt (note_exit code ed)))))"

definition write_file :: "string \<Rightarrow> int \<Rightarrow> int \<Rightarrow> char \<Rightarrow> ed_buffer \<Rightarrow> (int \<times> int) res" where
  "write_file fn from to mode ed =
     (let (lp, ed) = get_line_node from ed;
          n = (if from \<noteq> 0 then to - from + 1 else 0)
      in case fopen_write fn mode ed of
           (None, ed) \<Rightarrow> throw ''File open error'' ed
         | (Some fp, ed) \<Rightarrow>
             andThen (write_stream fp lp n ed) (\<lambda>sz ed.
               case fclose_write fn fp ed of
                 (False, ed) \<Rightarrow> throw ''File close error'' ed
               | (True, ed) \<Rightarrow> (Inr (n, sz), ed)))"

definition write_pipe :: "'x os_scheme \<Rightarrow> string \<Rightarrow> int \<Rightarrow> int \<Rightarrow> ed_buffer \<Rightarrow> (int \<times> int) res" where
  "write_pipe os fn from to ed =
     (let (lp, ed) = get_line_node from ed;
          n = (if from \<noteq> 0 then to - from + 1 else 0)
      in case sys_call ed of
           (False, ed) \<Rightarrow> throw ''File open error'' ed
         | (True, ed) \<Rightarrow>
             (let (fp, ed) = open_stream [] ed in
              andThen (write_stream fp lp n ed) (\<lambda>sz ed.
                let (out, code) = os_shell os (drop 1 fn) (f_data (streams ed fp))
                in (Inr (n, sz), shell_prompt (note_exit code (print out ed))))))"

section \<open>A queue of texts\<close>

text \<open>The ring of text nodes is the list of their texts; the loops take its first node until it is empty.\<close>

type_synonym text_deque = "string list"

definition append_text_node :: "text_deque \<Rightarrow> string \<Rightarrow> ed_buffer \<Rightarrow> text_deque option \<times> ed_buffer" where
  "append_text_node th tb ed =
     (case sys_call (spl1 ed) of
        (False, ed) \<Rightarrow> (None, ed)
      | (True, ed) \<Rightarrow> (Some (th @ [tb]), spl0 ed))"

definition shift_text_node :: "text_deque \<Rightarrow> ed_buffer \<Rightarrow> (string \<times> text_deque) option \<times> ed_buffer" where
  "shift_text_node th ed = (case th of [] \<Rightarrow> (None, ed) | t # th \<Rightarrow> (Some (t, th), spl0 (spl1 ed)))"

definition pop_text_node :: "text_deque \<Rightarrow> ed_buffer \<Rightarrow> (string \<times> text_deque) option \<times> ed_buffer" where
  "pop_text_node th ed = (if th = [] then (None, ed) else (Some (last th, butlast th), spl0 (spl1 ed)))"

primrec init_text_deque :: "text_deque \<Rightarrow> ed_buffer \<Rightarrow> text_deque \<times> ed_buffer" where
  "init_text_deque [] ed = ([], ed)"
| "init_text_deque (t # th) ed = init_text_deque th (snd (shift_text_node (t # th) ed))"

text \<open>\<open>strdup\<close> copies up to a NUL, but the length of the whole line is kept: a line with a NUL is
  later read past the end of its copy.\<close>

definition APPEND_TEXT_NODE :: "text_deque \<Rightarrow> string \<Rightarrow> ed_buffer \<Rightarrow> text_deque res" where
  "APPEND_TEXT_NODE th s ed =
     (case sys_call ed of
        (False, ed) \<Rightarrow> throw ''Memory exhausted'' ed
      | (True, ed) \<Rightarrow>
          (if NUL \<in> set s then (Inl FATAL, ed)
           else case append_text_node th s ed of
                  (None, ed) \<Rightarrow> throw ''Memory exhausted'' ed
                | (Some th, ed) \<Rightarrow> (Inr th, ed)))"

primrec read_texts :: "nat \<Rightarrow> stream_id \<Rightarrow> text_deque \<Rightarrow> int \<Rightarrow> ed_buffer \<Rightarrow> (text_deque \<times> int) res" where
  "read_texts 0 fp th sz ed = (Inl FATAL, ed)"
| "read_texts (Suc k) fp th sz ed =
     (case get_stream_line fp ed of
        (Inl _, ed) \<Rightarrow> (Inr (th, sz), ed)
      | (Inr s, ed) \<Rightarrow> andThen (APPEND_TEXT_NODE th s ed) (\<lambda>th. read_texts k fp th (sz + int (length s))))"

primrec put_texts :: "text_deque \<Rightarrow> node \<Rightarrow> nat option \<Rightarrow> ed_buffer \<Rightarrow> unit res" where
  "put_texts [] lp up ed = (Inr (), ed)"
| "put_texts (t # th) lp up ed =
     andThen (PUT_BUFFER_LINE lp t up (snd (shift_text_node (t # th) ed))) (\<lambda>(lp, up). put_texts th lp up)"

definition read_stream_r :: "stream_id \<Rightarrow> int \<Rightarrow> ed_buffer \<Rightarrow> int res" where
  "read_stream_r fp after ed =
     (let stream_appended = (after = lines (state ed));
          ed = set_newline_missing False (set_input_is_binary False ed)
      in andThen (read_texts (line_fuel fp ed + 1) fp [] 0 ed) (\<lambda>(th, sz) ed.
           if \<not> feof fp ed then (Inl ERR, clearerr fp ed)
           else
             let ed = clearerr fp ed;
                 (lp, ed) = get_line_node after ed
             in andThen (put_texts th lp None (set_dot after ed)) (\<lambda>_. read_finish stream_appended sz)))"

section \<open>Shell commands\<close>

text \<open>The signal handlers are set for the time of the command, which may fail.\<close>

definition system_shell :: "'x os_scheme \<Rightarrow> string \<Rightarrow> ed_buffer \<Rightarrow> unit res" where
  "system_shell os sc ed =
     (case sys_call ed of
        (False, ed) \<Rightarrow> throw ''Signal error'' ed
      | (True, ed) \<Rightarrow>
          (case sys_call ed of
             (False, ed) \<Rightarrow> throw ''Fork error'' ed
           | (True, ed) \<Rightarrow>
               (let (out, code) = os_shell os sc [];
                    ed = print out ed
                in case sys_call ed of
                     (False, ed) \<Rightarrow> throw ''Child process error'' ed
                   | (True, ed) \<Rightarrow> (Inr (), note_exit code ed))))"

text \<open>\<open>WAITPID\<close>: the status of the function, unless waiting fails\<close>

definition WAITPID :: "nat \<Rightarrow> unit res \<Rightarrow> unit res" where
  "WAITPID code r =
     (case r of
        (s, ed) \<Rightarrow>
          (case sys_call ed of
             (False, ed) \<Rightarrow> throw ''Child process error'' ed
           | (True, ed) \<Rightarrow> (s, note_exit code ed)))"

text \<open>The child that feeds the filter writes the lines as they were linked; it has its own copy of the
  editor, which the model throws away.\<close>

definition filter_input :: "node \<Rightarrow> int \<Rightarrow> ed_buffer \<Rightarrow> string" where
  "filter_input lp n ed =
     (if addrs (region (exec ed)) = 0 then []
      else let (fp, ed) = open_stream [] ed in f_data (streams (snd (write_stream fp lp n ed)) fp))"

definition filter_output :: "'x os_scheme \<Rightarrow> string \<Rightarrow> node \<Rightarrow> int \<Rightarrow> ed_buffer \<Rightarrow> unit res" where
  "filter_output os sc lp n ed =
     (let (out, code) = os_shell os sc (filter_input lp n ed)
      in WAITPID code
           (case sys_call ed of
              (False, ed) \<Rightarrow> throw ''Pipe open error'' ed
            | (True, ed) \<Rightarrow>
                (let (opp, ed) = open_stream out ed in
                 andThen (read_stream_r opp (dot (state ed)) ed) (\<lambda>sz ed.
                   case sys_call (print_size {SCRIPTED} sz ed) of
                     (False, ed) \<Rightarrow> throw ''Pipe close error'' ed
                   | (True, ed) \<Rightarrow> (Inr (), ed)))))"

definition empty_if_no_lines :: "ed_buffer \<Rightarrow> ed_buffer" where
  "empty_if_no_lines ed = (if lines (state ed) = 0 then set_is_empty True (set_is_binary False ed) else ed)"

definition filter_lines :: "'x os_scheme \<Rightarrow> int \<Rightarrow> int \<Rightarrow> string \<Rightarrow> ed_buffer \<Rightarrow> unit res" where
  "filter_lines os from to sc ed =
     (let (lp, ed) = get_line_node from ed;
          n = (if from \<noteq> 0 then to - from + 1 else 0)
      in case sys_call ed of
           (False, ed) \<Rightarrow> throw ''Flush error'' ed
         | (True, ed) \<Rightarrow>
       case sys_call ed of
           (False, ed) \<Rightarrow> throw ''Pipe open error'' ed
         | (True, ed) \<Rightarrow>
       case sys_call ed of
           (False, ed) \<Rightarrow> throw ''Fork error'' ed
         | (True, ed) \<Rightarrow>
       case (if addrs (region (exec ed)) \<noteq> 0 then delete_lines from to (spl1 ed) else (Inr (), spl1 ed)) of
           (Inl e, ed) \<Rightarrow> WAITPID 0 (Inl e, spl0 ed)
         | (Inr _, ed) \<Rightarrow>
             (let ed = spl0 (empty_if_no_lines ed) in
              case sys_call ed of
                (False, ed) \<Rightarrow> WAITPID (snd (os_shell os sc [])) (throw ''Fork error'' ed)
              | (True, ed) \<Rightarrow> filter_output os sc lp n ed))"

section \<open>The text of a shell command\<close>

datatype expansion = Expanded string nat | Repeats nat

text \<open>The loop over the command: \<open>%\<close> is the file name, \<open>\%\<close> a percent sign, and \<open>!!\<close> before
  anything else is the previous command.  \<open>fn\<close> and \<open>script\<close> are the (quoted) names.\<close>

fun expand_chars :: "string \<Rightarrow> string \<Rightarrow> string \<Rightarrow> nat \<Rightarrow> string \<Rightarrow> expansion" where
  "expand_chars fn script sc subs [] = Expanded sc subs"
| "expand_chars fn script sc subs (c # cs) =
     (if c = CHR ''%'' then
        (if cur cs = CHR ''-'' then expand_chars fn script (sc @ script) (subs + 1) (drop 1 cs)
         else expand_chars fn script (sc @ fn) (subs + 1) cs)
      else if c = CHR ''!'' \<and> sc = [] \<and> cur cs = CHR ''!'' then Repeats subs
      else if c = REVERSE_SOLIDUS \<and> cur cs = CHR ''%'' then expand_chars fn script (sc @ ''%'') subs (drop 1 cs)
      else expand_chars fn script (sc @ [c]) subs cs)"

definition command_name :: "string option \<Rightarrow> ed_buffer \<Rightarrow> string" where
  "command_name name ed =
     (let fn = (case name of None \<Rightarrow> [] | Some s \<Rightarrow> s)
      in if UNSAFE_NAMES \<in> opt (exec ed) then shell_quote fn else fn)"

abbreviation set_sc_prev :: "string \<Rightarrow> ed_buffer \<Rightarrow> ed_buffer" where
  "set_sc_prev s \<equiv> statics_update (sc_prev_update (\<lambda>_. Some s))"

definition expand_command :: "string \<Rightarrow> ed_buffer \<Rightarrow> (string \<times> nat) res" where
  "expand_command xl ed =
     (let fn = command_name (file_name_of (file_info ed)) ed;
          script = command_name (script_pathname (exec ed)) ed
      in case expand_chars fn script [] 0 xl of
           Expanded sc subs \<Rightarrow> (Inr (sc, subs), set_sc_prev xl ed)
         | Repeats subs \<Rightarrow>
             (case sc_prev (statics ed) of
                None \<Rightarrow> throw ''No previous shell command'' ed
              | Some prev \<Rightarrow>
                  if posix_or_traditional ed \<and> length prev \<le> 1 then throw ''No previous shell command'' ed
                  else
                    let xl = prev @ drop 2 xl in
                    (case expand_chars fn script (take 1 xl) (subs + 1) (drop 1 xl) of
                       Expanded sc subs \<Rightarrow> (Inr (sc, subs), set_sc_prev xl ed)
                     | Repeats _ \<Rightarrow> (Inl FATAL, ed))))"

definition expand_shell_command :: "ed_buffer \<Rightarrow> (string \<times> nat) res" where
  "expand_shell_command ed =
     (if RESTRICTED \<in> opt (exec ed) then throw ''Shell access restricted'' ed
      else
        andThen
          (if global (exec ed) \<noteq> {} then
             (if LINE_FEED \<in> set (input ed) then (Inr (takeWhile (\<lambda>c. c \<noteq> LINE_FEED) (input ed)), ed) else (Inl ERR, ed))
           else get_extended_line True False False ed)
          (\<lambda>xl ed. expand_command (cstr xl) (set_input (drop (length xl + 1) (input ed)) ed)))"

text \<open>\<open>FILE_NAME\<close>, without the expansion of file name patterns\<close>

definition FILE_NAME :: "ed_buffer \<Rightarrow> string res" where
  "FILE_NAME ed =
     (if cur (input ed) = CHR ''!'' then
        case expand_shell_command ed of
          (Inl _, ed) \<Rightarrow> (Inl ERR, clearerr (std_in ed) ed)
        | (Inr (fn, subs), ed) \<Rightarrow> (Inr fn, if subs \<noteq> 0 then puts (drop 1 fn) ed else ed)
      else
        case file_name ed of
          (Inl _, ed) \<Rightarrow> (Inl ERR, clearerr (std_in ed) ed)
        | (Inr fn, ed) \<Rightarrow> (Inr fn, ed))"

end
