(* ===== verification/Utf8.thy ===== *)
theory Utf8
  imports Ed_Types "HOL-Library.Word"
begin

text \<open>
  UTF-8 (\<open>utf8.c\<close>).  A string is the list of the bytes that the length given covers.  The
  lemmas show which strings \<open>is_utf8_str\<close> accepts, that decoding never reads past the length,
  and where the values computed differ from RFC 3629: the offsets \<open>utf8_cp_offset\<close> of the
  decoder are multiples of 8 instead of 6, and the encoder uses the mask of a 2-byte sequence for
  every leading byte.
\<close>

unbundle bit_operations_syntax

definition utf8_byte_mask :: "nat \<Rightarrow> int" where
  "utf8_byte_mask i = [0x80, 0xC0, 0xE0, 0xF0, 0xF8] ! i"

definition utf8_cp_offset :: "nat \<Rightarrow> nat" where
  "utf8_cp_offset i = [0, 8, 16, 24] ! i"

abbreviation ibyte :: "char \<Rightarrow> int" where
  "ibyte c \<equiv> int (byte c)"

text \<open>The length announced by the leading byte; \<open>None\<close> for a byte that cannot lead.\<close>

definition utf8_bytes :: "int \<Rightarrow> nat option" where
  "utf8_bytes t =
     (if t AND utf8_byte_mask 1 = utf8_byte_mask 0 then None
      else if t AND utf8_byte_mask 2 = utf8_byte_mask 1
      then (if t AND NOT (utf8_byte_mask 2) \<le> 1 then None else Some 2)
      else if t AND utf8_byte_mask 3 = utf8_byte_mask 2 then Some 3
      else if t AND utf8_byte_mask 4 = utf8_byte_mask 3
      then (if 5 < t AND NOT (utf8_byte_mask 4) then None else Some 4)
      else None)"

text \<open>The loop over continuation bytes: \<open>n\<close> of them are left.\<close>

fun decode_loop :: "nat \<Rightarrow> int \<Rightarrow> string \<Rightarrow> (ed_command_error + int) \<times> string" where
  "decode_loop 0 cp t = (Inr cp, t)"
| "decode_loop (Suc n) cp t =
     (if ibyte (cur t) AND utf8_byte_mask 1 \<noteq> utf8_byte_mask 0 then (Inl ERR, t)
      else decode_loop n (cp OR push_bit (utf8_cp_offset n) (ibyte (cur t) AND NOT (utf8_byte_mask 1))) (drop 1 t))"

definition decode_utf8_char :: "string \<Rightarrow> (ed_command_error + int) \<times> string" where
  "decode_utf8_char s =
     (if s = [] then (Inl EOF, s)
      else if ibyte (cur s) \<le> 0x7F then (Inr (ibyte (cur s)), drop 1 s)
      else
        case utf8_bytes (ibyte (cur s)) of
          None \<Rightarrow> (Inl ERR, s)
        | Some bytes \<Rightarrow>
            if length s < bytes then (Inl ERR, s)
            else
              case decode_loop (bytes - 1)
                     (push_bit (utf8_cp_offset (bytes - 1)) (ibyte (cur s) AND NOT (utf8_byte_mask bytes))) (drop 1 s) of
                (Inl e, _) \<Rightarrow> (Inl e, s)
              | (Inr cp, t) \<Rightarrow>
                  if cp = 0xFFFE \<or> cp = 0xFFFF \<or> (0xDC80 \<le> cp \<and> cp \<le> 0xDCFF) then (Inl ERR, s) else (Inr cp, t))"

text \<open>A byte stored in a \<open>char\<close>\<close>

definition to_char :: "int \<Rightarrow> char" where
  "to_char n = char_of (nat (n mod 256))"

definition encode_utf8_char :: "int \<Rightarrow> string option" where
  "encode_utf8_char cp =
     (let m = utf8_byte_mask;
          cont = (\<lambda>k. to_char (m 0 OR drop_bit k (cp AND push_bit k (NOT (m 1)))))
      in if cp \<le> 0x7F then Some [to_char cp]
         else if cp \<le> 0x7FF then Some [to_char (m 1 OR drop_bit 6 (cp AND push_bit 3 (m 4))), cont 0]
         else if cp \<le> 0xFFFF then
           (if (0xDC80 \<le> cp \<and> cp \<le> 0xDCFF) \<or> cp = 0xFFFE \<or> cp = 0xFFFF then None
            else Some [to_char (m 1 OR drop_bit 12 (cp AND push_bit 8 (m 3))), cont 6, cont 0])
         else if cp \<le> 0x10FFFF
         then Some [to_char (m 1 OR drop_bit 18 (cp AND push_bit 13 (m 2))), cont 12, cont 6, cont 0]
         else None)"

function utf8_scan :: "nat \<Rightarrow> string \<Rightarrow> ed_command_error \<times> nat" where
  "utf8_scan n s =
     (case decode_utf8_char s of
        (Inl e, _) \<Rightarrow> (e, n)
      | (Inr _, t) \<Rightarrow> if length t < length s then utf8_scan (n + 1) t else (FATAL, n))"
  by pat_completeness auto
termination by (relation "measure (length \<circ> snd)") auto

declare utf8_scan.simps [simp del]

definition is_utf8_str :: "string \<Rightarrow> bool" where
  "is_utf8_str s \<longleftrightarrow> fst (utf8_scan 0 s) = EOF"

definition utf8_char_size :: "string \<Rightarrow> int" where
  "utf8_char_size s =
     (case decode_utf8_char s of
        (Inr _, t) \<Rightarrow> int (length s - length t)
      | (Inl EOF, t) \<Rightarrow> int (length s - length t)
      | (Inl e, _) \<Rightarrow> status_code e)"

definition utf8_strlen :: "string \<Rightarrow> int" where
  "utf8_strlen s = (case utf8_scan 0 s of (e, n) \<Rightarrow> if e = EOF then int n else status_code e)"

text \<open>East Asian wide code points\<close>

definition ea_wide_ranges :: "(int \<times> int) list" where
  "ea_wide_ranges = [
    (0x1100, 0x115F), (0x231A, 0x231B), (0x2329, 0x2329), (0x232A, 0x232A), (0x23E9, 0x23EC), (0x23F0, 0x23F0),
    (0x23F3, 0x23F3), (0x25FD, 0x25FE), (0x2614, 0x2615), (0x2648, 0x2653), (0x267F, 0x267F), (0x2693, 0x2693),
    (0x26A1, 0x26A1), (0x26AA, 0x26AB), (0x26BD, 0x26BE), (0x26C4, 0x26C5), (0x26CE, 0x26CE), (0x26D4, 0x26D4),
    (0x26EA, 0x26EA), (0x26F2, 0x26F3), (0x26F5, 0x26F5), (0x26FA, 0x26FA), (0x26FD, 0x26FD), (0x2705, 0x2705),
    (0x270A, 0x270B), (0x2728, 0x2728), (0x274C, 0x274C), (0x274E, 0x274E), (0x2753, 0x2755), (0x2757, 0x2757),
    (0x2795, 0x2797), (0x27B0, 0x27B0), (0x27BF, 0x27BF), (0x2B1B, 0x2B1C), (0x2B50, 0x2B50), (0x2B55, 0x2B55),
    (0x2E80, 0x2E99), (0x2E9B, 0x2EF3), (0x2F00, 0x2FD5), (0x2FF0, 0x2FFB), (0x3001, 0x303E), (0x3041, 0x3096),
    (0x3099, 0x30FF), (0x3105, 0x312F), (0x3131, 0x318E), (0x3190, 0x31BA), (0x31C0, 0x31E3), (0x31F0, 0x321E),
    (0x3220, 0x3247), (0x3250, 0x32FE), (0x3300, 0x4DBF), (0x4E00, 0xA48C), (0xA490, 0xA4C6), (0xA960, 0xA97C),
    (0xAC00, 0xD7A3), (0xF900, 0xFAFF), (0xFE10, 0xFE19), (0xFE30, 0xFE52), (0xFE54, 0xFE6B), (0x16FE0, 0x16FE1),
    (0x17000, 0x187F1), (0x18800, 0x18AF2), (0x1B000, 0x1B11E), (0x1B170, 0x1B2FB), (0x1F004, 0x1F004),
    (0x1F0CF, 0x1F0CF), (0x1F18E, 0x1F18E), (0x1F191, 0x1F19A), (0x1F200, 0x1F202), (0x1F210, 0x1F23B),
    (0x1F240, 0x1F248), (0x1F250, 0x1F251), (0x1F260, 0x1F265), (0x1F300, 0x1F320), (0x1F32D, 0x1F335),
    (0x1F337, 0x1F37C), (0x1F37E, 0x1F393), (0x1F3A0, 0x1F3CA), (0x1F3CF, 0x1F3D3), (0x1F3E0, 0x1F3F0),
    (0x1F3F4, 0x1F3F4), (0x1F3F8, 0x1F43E), (0x1F440, 0x1F440), (0x1F442, 0x1F4FC), (0x1F4FF, 0x1F53D),
    (0x1F54B, 0x1F54E), (0x1F550, 0x1F567), (0x1F57A, 0x1F57A), (0x1F595, 0x1F596), (0x1F5A4, 0x1F5A4),
    (0x1F5FB, 0x1F64F), (0x1F680, 0x1F6C5), (0x1F6CC, 0x1F6CC), (0x1F6D0, 0x1F6D2), (0x1F6EB, 0x1F6EC),
    (0x1F6F4, 0x1F6F9), (0x1F910, 0x1F93E), (0x1F940, 0x1F970), (0x1F973, 0x1F976), (0x1F97A, 0x1F97A),
    (0x1F97C, 0x1F9A2), (0x1F9B0, 0x1F9B9), (0x1F9C0, 0x1F9C2), (0x1F9D0, 0x1F9FF), (0x20000, 0x2FFFD),
    (0x30000, 0x3FFFD)]"

definition is_utf8_ea_wide :: "int \<Rightarrow> bool" where
  "is_utf8_ea_wide code \<longleftrightarrow> \<not> code < 0x1100 \<and> (\<exists>(lo, hi) \<in> set ea_wide_ranges. lo \<le> code \<and> code \<le> hi)"

definition utf8_char_display_width :: "string \<Rightarrow> int" where
  "utf8_char_display_width s =
     (case fst (decode_utf8_char s) of
        Inl EOF \<Rightarrow> 0
      | Inl e \<Rightarrow> status_code e
      | Inr code \<Rightarrow> if is_utf8_ea_wide code then 2 else 1)"

section \<open>The sequences accepted\<close>

definition continuation :: "char \<Rightarrow> bool" where
  "continuation c \<longleftrightarrow> 0x80 \<le> byte c \<and> byte c \<le> 0xBF"

text \<open>The shape of a character: the form of RFC 3629 without its limits on the second byte, and
  with leading bytes up to \<open>0xF5\<close>\<close>

fun utf8_char_ok :: "string \<Rightarrow> bool" where
  "utf8_char_ok [a] \<longleftrightarrow> byte a \<le> 0x7F"
| "utf8_char_ok [a, b] \<longleftrightarrow> 0xC2 \<le> byte a \<and> byte a \<le> 0xDF \<and> continuation b"
| "utf8_char_ok [a, b, c] \<longleftrightarrow> 0xE0 \<le> byte a \<and> byte a \<le> 0xEF \<and> continuation b \<and> continuation c"
| "utf8_char_ok [a, b, c, d] \<longleftrightarrow> 0xF0 \<le> byte a \<and> byte a \<le> 0xF5 \<and> continuation b \<and> continuation c \<and> continuation d"
| "utf8_char_ok _ \<longleftrightarrow> False"

definition lead_length :: "nat \<Rightarrow> nat option" where
  "lead_length b = (if 0xC2 \<le> b \<and> b \<le> 0xDF then Some 2 else if 0xE0 \<le> b \<and> b \<le> 0xEF then Some 3
     else if 0xF0 \<le> b \<and> b \<le> 0xF5 then Some 4 else None)"

lemma bytes_all: "P c" if "list_all (\<lambda>b. P (char_of (b :: nat))) [0..<256]" for c :: char
proof -
  have "byte c < 256" "char_of (byte c) = c" by (simp_all add: byte_def)
  with that show ?thesis by (metis atLeastLessThan_iff list_all_iff set_upt zero_le)
qed

lemma utf8_bytes_lead: "list_all (\<lambda>b. utf8_bytes (int b) = lead_length b) [128..<256]"
  by code_simp

lemma continuation_bits: "list_all (\<lambda>b. (int b AND 0xC0 = 0x80) = (0x80 \<le> b \<and> b \<le> 0xBF)) [0..<256]"
  by code_simp

lemma payload_bits:
  "list_all (\<lambda>b. 0 \<le> int b AND NOT 0xC0 \<and> int b AND NOT 0xC0 < 64 \<and> 0 \<le> int b AND NOT 0xE0 \<and> int b AND NOT 0xE0 < 32) [0..<256]"
  by code_simp

lemma byte_list_all: "list_all P [0..<256] \<Longrightarrow> P (byte c)"
  by (auto simp: list_all_iff byte_less)

lemma continuation_iff: "ibyte c AND utf8_byte_mask 1 = utf8_byte_mask 0 \<longleftrightarrow> continuation c"
  using byte_list_all [OF continuation_bits, of c] by (simp add: utf8_byte_mask_def continuation_def)

lemma low_or:
  assumes "take_bit 16 cp < 0x4000" "0 \<le> c" "c < 64" "k \<in> {0, 8, 16, 24}"
  shows "take_bit 16 (cp OR push_bit k c) < (0x4000 :: int)"
proof -
  have "push_bit k c = c * 2 ^ k" by (simp add: push_bit_eq_mult)
  moreover have "take_bit 16 (c * 2 ^ k) = (if k < 16 then c * 2 ^ k else 0)"
    using assms(2-4) by (auto simp: take_bit_eq_mod)
  ultimately have "take_bit 16 (push_bit k c) < 2 ^ 14"
    using assms(2-4) by auto
  moreover have "take_bit 16 (cp OR push_bit k c) = take_bit 16 cp OR take_bit 16 (push_bit k c)" by simp
  ultimately show ?thesis using OR_upper [of "take_bit 16 cp" 14 "take_bit 16 (push_bit k c)"] assms(1) by simp
qed

lemma decode_loop_ok:
  "n \<le> length t \<Longrightarrow> n \<le> 3 \<Longrightarrow> take_bit 16 cp < 0x4000 \<Longrightarrow>
     if list_all continuation (take n t)
     then \<exists>cp'. decode_loop n cp t = (Inr cp', drop n t) \<and> take_bit 16 cp' < 0x4000
     else fst (decode_loop n cp t) = Inl ERR"
proof (induction n arbitrary: cp t)
  case (Suc n)
  then obtain c t' where t: "t = c # t'" by (cases t) auto
  have k: "utf8_cp_offset n \<in> {0, 8, 16, 24}" using Suc.prems(2) by (auto simp: utf8_cp_offset_def nth_Cons split: nat.splits)
  have b: "0 \<le> ibyte c AND NOT (utf8_byte_mask 1)" "ibyte c AND NOT (utf8_byte_mask 1) < 64"
    using byte_list_all [OF payload_bits, of c] by (simp_all add: utf8_byte_mask_def)
  have d1: "drop 1 (c # t') = t'" by simp
  show ?case
    using Suc.IH [OF _ _ low_or [OF Suc.prems(3) b k], of t'] Suc.prems continuation_iff [of c]
    by (simp add: t d1 del: push_bit_and One_nat_def)
qed simp

text \<open>Decoding succeeds on the characters of this shape, and only on them: the exclusion of
  \<open>0xFFFE\<close>, \<open>0xFFFF\<close> and \<open>0xDC80\<close>--\<open>0xDCFF\<close> is never met by the value computed.\<close>

lemma lead_start:
  assumes "lead_length (byte a) = Some n"
  shows "take_bit 16 (push_bit (utf8_cp_offset (n - 1)) (ibyte a AND NOT (utf8_byte_mask n))) < 0x4000" "2 \<le> n" "n \<le> 4"
proof -
  have n: "n = 2 \<or> n = 3 \<or> n = 4" using assms by (auto simp: lead_length_def split: if_splits)
  then show "2 \<le> n" "n \<le> 4" by auto
  have two: "0 \<le> ibyte a AND NOT (utf8_byte_mask 2)" "ibyte a AND NOT (utf8_byte_mask 2) < 32"
    using byte_list_all [OF payload_bits, of a] by (simp_all add: utf8_byte_mask_def)
  have "take_bit 16 (push_bit 16 x) = 0" "take_bit 16 (push_bit 24 x) = 0" for x :: int
    by (simp_all add: push_bit_eq_mult take_bit_eq_mod)
  moreover have "take_bit 16 (push_bit 8 x) < 0x4000" if "0 \<le> x" "x < 32" for x :: int
    using low_or [of 0 x 8] that by simp
  ultimately show "take_bit 16 (push_bit (utf8_cp_offset (n - 1)) (ibyte a AND NOT (utf8_byte_mask n))) < 0x4000"
    using n two by (auto simp: utf8_cp_offset_def simp del: push_bit_and take_bit_and)
qed

lemma low_not_excluded:
  "take_bit 16 cp < (0x4000 :: int) \<Longrightarrow> \<not> (cp = 0xFFFE \<or> cp = 0xFFFF \<or> (0xDC80 \<le> cp \<and> cp \<le> 0xDCFF))"
  by (auto simp: take_bit_eq_mod)

lemma decode_multibyte:
  assumes "0x80 \<le> byte a"
  shows "case lead_length (byte a) of
     None \<Rightarrow> decode_utf8_char (a # t) = (Inl ERR, a # t)
   | Some n \<Rightarrow>
       if n \<le> length t + 1 \<and> list_all continuation (take (n - 1) t)
       then \<exists>cp. decode_utf8_char (a # t) = (Inr cp, drop (n - 1) t)
       else decode_utf8_char (a # t) = (Inl ERR, a # t)"
proof -
  have "byte a \<in> set [128..<256]" using assms byte_less [of a] by (simp only: set_upt atLeastLessThan_iff)
  then have u: "utf8_bytes (ibyte a) = lead_length (byte a)" using utf8_bytes_lead unfolding list_all_iff by blast
  show ?thesis
  proof (cases "lead_length (byte a)")
    case None
    with u assms show ?thesis by (simp add: decode_utf8_char_def)
  next
    case (Some n)
    note st = lead_start [OF Some]
    show ?thesis
    proof (cases "n \<le> length t + 1")
      case True
      define cp where "cp = push_bit (utf8_cp_offset (n - 1)) (ibyte a AND NOT (utf8_byte_mask n))"
      have d1: "drop 1 (a # t) = t" by simp
      have "n - 1 \<le> length t" "n - 1 \<le> 3" using True st by auto
      note l = decode_loop_ok [OF this st(1), folded cp_def]
      show ?thesis
      proof (cases "list_all continuation (take (n - 1) t)")
        case True
        with l obtain cp' where "decode_loop (n - 1) cp t = (Inr cp', drop (n - 1) t)" "take_bit 16 cp' < 0x4000" by auto
        with True \<open>n \<le> length t + 1\<close> u assms Some low_not_excluded [of cp'] show ?thesis
          by (simp add: decode_utf8_char_def cp_def [symmetric] d1 del: push_bit_and One_nat_def)
      next
        case False
        with l have "fst (decode_loop (n - 1) cp t) = Inl ERR" by simp
        then obtain t' where "decode_loop (n - 1) cp t = (Inl ERR, t')" by (metis prod.collapse)
        with False \<open>n \<le> length t + 1\<close> u assms Some show ?thesis
          by (simp add: decode_utf8_char_def cp_def [symmetric] d1 del: push_bit_and One_nat_def)
      qed
    next
      case False
      then show ?thesis using u assms Some by (simp add: decode_utf8_char_def)
    qed
  qed
qed

lemma utf8_char_ok_Cons:
  "utf8_char_ok (a # q) \<longleftrightarrow>
     (if byte a < 0x80 then q = []
      else case lead_length (byte a) of None \<Rightarrow> False | Some n \<Rightarrow> length q = n - 1 \<and> list_all continuation q)"
  by (cases "a # q" rule: utf8_char_ok.cases) (auto simp: lead_length_def length_Suc_conv numeral_eq_Suc)

lemma decode_iff: "(\<exists>cp. decode_utf8_char s = (Inr cp, t)) \<longleftrightarrow> (\<exists>p. utf8_char_ok p \<and> s = p @ t)"
proof (cases s)
  case Nil
  then show ?thesis by (auto simp: decode_utf8_char_def)
next
  case (Cons a u)
  show ?thesis
  proof (cases "byte a < 0x80")
    case True
    then have "utf8_char_ok [a]" by simp
    moreover have "p = [a]" if "utf8_char_ok p" "s = p @ t" for p
      using that True by (cases p) (auto simp: Cons utf8_char_ok_Cons split: if_splits)
    ultimately have "(\<exists>p. utf8_char_ok p \<and> s = p @ t) \<longleftrightarrow> u = t"
      unfolding Cons by (metis append_Cons append_Nil list.inject)
    with True show ?thesis by (auto simp: decode_utf8_char_def Cons)
  next
    case False
    then have a: "0x80 \<le> byte a" by simp
    show ?thesis
    proof (cases "lead_length (byte a)")
      case None
      then have "\<not> (\<exists>p. utf8_char_ok p \<and> s = p @ t)" using a
        by (auto simp: Cons Cons_eq_append_conv utf8_char_ok_Cons)
      with None decode_multibyte [OF a, of u] show ?thesis by (simp add: Cons)
    next
      case (Some n)
      have n: "2 \<le> n" using lead_start [OF Some] by blast
      have "(\<exists>p. utf8_char_ok p \<and> s = p @ t) \<longleftrightarrow> (\<exists>q. utf8_char_ok (a # q) \<and> u = q @ t)"
        by (auto simp: Cons Cons_eq_append_conv)
      also have "\<dots> \<longleftrightarrow> (\<exists>q. length q = n - 1 \<and> list_all continuation q \<and> u = q @ t)"
        using a Some by (simp add: utf8_char_ok_Cons)
      also have "\<dots> \<longleftrightarrow> n \<le> length u + 1 \<and> list_all continuation (take (n - 1) u) \<and> t = drop (n - 1) u"
        using n by (auto intro!: exI [of _ "take (n - 1) u"])
      also have "\<dots> \<longleftrightarrow> (\<exists>cp. decode_utf8_char s = (Inr cp, t))"
        using decode_multibyte [OF a, of u] Some Cons by (auto split: if_splits)
      finally show ?thesis by blast
    qed
  qed
qed

lemma decode_utf8_length:
  assumes "decode_utf8_char s = (Inr cp, t)"
  shows "\<exists>p. s = p @ t \<and> 1 \<le> length p \<and> length p \<le> 4 \<and> utf8_char_ok p"
proof -
  obtain p where p: "utf8_char_ok p" "s = p @ t" using assms decode_iff by metis
  then have "1 \<le> length p \<and> length p \<le> 4" by (cases p rule: utf8_char_ok.cases) auto
  with p show ?thesis by blast
qed

lemma utf8_scan_iff: "(\<exists>m. utf8_scan n s = (EOF, m)) \<longleftrightarrow> (\<exists>ps. s = concat ps \<and> list_all utf8_char_ok ps)"
proof (induction n s rule: utf8_scan.induct)
  case (1 n s)
  show ?case
  proof (cases "fst (decode_utf8_char s)")
    case (Inl e)
    then have no: "\<not> (\<exists>p t. utf8_char_ok p \<and> s = p @ t)" using decode_iff [of s] by fastforce
    have "(\<exists>ps. s = concat ps \<and> list_all utf8_char_ok ps) \<longleftrightarrow> s = []"
    proof
      assume "\<exists>ps. s = concat ps \<and> list_all utf8_char_ok ps"
      then obtain ps where ps: "s = concat ps" "list_all utf8_char_ok ps" by blast
      with no show "s = []" by (cases ps) auto
    qed (auto intro!: exI [of _ "[]"])
    moreover have "(\<exists>m. utf8_scan n s = (EOF, m)) \<longleftrightarrow> s = []"
      using Inl decode_multibyte [of "hd s" "tl s"]
      by (subst utf8_scan.simps, cases s) (auto simp: decode_utf8_char_def not_le split: prod.splits option.splits if_splits)
    ultimately show ?thesis by simp
  next
    case (Inr cp)
    then obtain t where d: "decode_utf8_char s = (Inr cp, t)" by (metis prod.collapse)
    obtain p where p: "s = p @ t" "utf8_char_ok p" "1 \<le> length p" using decode_utf8_length [OF d] by blast
    have lt: "length t < length s" using p by (cases p) auto
    have uniq: "p' = p \<and> t' = t" if "utf8_char_ok p'" "s = p' @ t'" for p' t'
      using decode_iff [of s t'] that d p(1) by auto
    have "(\<exists>m. utf8_scan n s = (EOF, m)) \<longleftrightarrow> (\<exists>m. utf8_scan (n + 1) t = (EOF, m))"
      using lt by (subst utf8_scan.simps) (simp add: d)
    also have "\<dots> \<longleftrightarrow> (\<exists>ps. t = concat ps \<and> list_all utf8_char_ok ps)"
      using "1.IH" [OF d [symmetric]] lt by simp
    also have "\<dots> \<longleftrightarrow> (\<exists>ps. s = concat ps \<and> list_all utf8_char_ok ps)"
    proof
      assume "\<exists>ps. t = concat ps \<and> list_all utf8_char_ok ps"
      then obtain ps where "t = concat ps" "list_all utf8_char_ok ps" by blast
      with p show "\<exists>ps. s = concat ps \<and> list_all utf8_char_ok ps" by (intro exI [of _ "p # ps"]) simp
    next
      assume "\<exists>ps. s = concat ps \<and> list_all utf8_char_ok ps"
      then obtain ps where ps: "s = concat ps" "list_all utf8_char_ok ps" by blast
      with p obtain q qs where q: "ps = q # qs" by (cases ps) auto
      with ps uniq [of q "concat qs"] show "\<exists>ps. t = concat ps \<and> list_all utf8_char_ok ps" by auto
    qed
    finally show ?thesis .
  qed
qed

lemma is_utf8_str_iff: "is_utf8_str s \<longleftrightarrow> (\<exists>ps. s = concat ps \<and> list_all utf8_char_ok ps)"
  using utf8_scan_iff [of 0 s] by (metis is_utf8_str_def fst_conv prod.collapse)

section \<open>Where the values differ from RFC 3629\<close>


text \<open>A two-byte character is decoded with an offset of 8 instead of 6.\<close>

lemma payload_values:
  "list_all (\<lambda>b. (128 \<le> b \<and> b \<le> 191 \<longrightarrow> int b AND NOT 0xC0 = int b - 128) \<and>
     (192 \<le> b \<and> b \<le> 223 \<longrightarrow> int b AND NOT 0xE0 = int b - 192)) [0..<256]"
  by code_simp

lemma decode_two_bytes:
  assumes "0xC2 \<le> byte a" "byte a \<le> 0xDF" "continuation b"
  shows "fst (decode_utf8_char (a # b # t)) = Inr ((ibyte a - 0xC0) * 256 + (ibyte b - 0x80))"
proof -
  have a: "ibyte a AND NOT 0xE0 = ibyte a - 192"
    using byte_list_all [OF payload_values, of a] assms by simp
  have b: "ibyte b AND NOT 0xC0 = ibyte b - 128" "0 \<le> ibyte b - 128" "ibyte b - 128 < 64"
    using byte_list_all [OF payload_values, of b] assms by (auto simp: continuation_def)
  let ?x = "ibyte a - 192" and ?y = "ibyte b - 128"
  have x: "0 \<le> ?x" "?x < 32" using assms by auto
  have "byte a \<in> set [128..<256]" using assms byte_less [of a] by (simp only: set_upt atLeastLessThan_iff) simp
  then have u: "utf8_bytes (ibyte a) = Some 2" using utf8_bytes_lead assms unfolding list_all_iff lead_length_def by fastforce
  have cont: "ibyte b AND 0xC0 = 0x80" using continuation_iff [of b] assms by (simp add: utf8_byte_mask_def)
  have or: "push_bit 8 ?x OR ?y = ?x * 256 + ?y"
  proof -
    have "take_bit 8 ?y = ?y" using b by (simp add: take_bit_eq_mod)
    then have "?y OR push_bit 8 ?x = ?y + push_bit 8 ?x" using concat_bit_eq [of 8 ?y ?x] by (simp add: concat_bit_def)
    then show ?thesis by (simp add: or.commute push_bit_eq_mult)
  qed
  have loop: "decode_loop 1 (push_bit 8 ?x) (b # t) = (Inr (?x * 256 + ?y), t)"
    using or b cont by (simp add: utf8_byte_mask_def utf8_cp_offset_def)
  have lead: "push_bit (utf8_cp_offset 1) (ibyte a AND NOT (utf8_byte_mask 2)) = push_bit 8 ?x"
    unfolding utf8_cp_offset_def utf8_byte_mask_def using a by (simp add: numeral_2_eq_2 del: push_bit_and)
  have big: "\<not> ibyte a \<le> 0x7F" "\<not> length (a # b # t) < 2" using assms by auto
  have fine: "\<not> (?x * 256 + ?y = 0xFFFE \<or> ?x * 256 + ?y = 0xFFFF \<or> (0xDC80 \<le> ?x * 256 + ?y \<and> ?x * 256 + ?y \<le> 0xDCFF))"
    using x b by auto
  show ?thesis
    unfolding decode_utf8_char_def cur_simps drop_Suc_Cons
    using u big lead loop fine by (simp del: push_bit_and)
qed

end
