(* ===== verification/Subst.thy ===== *)
theory Subst
  imports Address Stream_IO Utf8
begin

text \<open>
  The substitute command (\<open>subst.c\<close>): its modifiers, the template, the matches of a line, the
  text that replaces a line.  A division by a zero modulus does not return: the model returns
  \<open>FATAL\<close> there, as where fuel is spent.
\<close>

section \<open>Modifiers\<close>

text \<open>The variables of \<open>s_cmd\<close> that the functions of \<open>subst.c\<close> are given pointers to\<close>

record subst_args =
  a_nth :: int
  a_mod :: int
  a_f :: "ed_modifier set"
  a_sgpr :: "ed_modifier set"
  a_io :: "ed_modifier set"

definition SGPR_CHARS :: string where
  "SGPR_CHARS = LINE_FEED # ''$+-gpr0123456789''"

abbreviation sign_or_digit :: "char \<Rightarrow> bool" where
  "sign_or_digit c \<equiv> c = CHR ''+'' \<or> c = CHR ''-'' \<or> isdigit c"

text \<open>Each round consumes a character: fuel for the length of the input.\<close>

primrec resubst_loop :: "nat \<Rightarrow> bool \<Rightarrow> subst_args \<Rightarrow> ed_buffer \<Rightarrow> subst_args res" where
  "resubst_loop 0 g_f a ed = (Inl FATAL, ed)"
| "resubst_loop (Suc k) g_f a ed =
     (let c = cur (input ed) in
      if c = LINE_FEED then (Inr a, ed)
      else if c = CHR ''$'' then
        (if g_f then
           andThen (address_offset (a_mod a) (advance ed)) (\<lambda>n ed.
             resubst_loop k g_f (a\<lparr>a_f := insert SMLR (a_f a), a_mod := n\<rparr>) ed)
         else
           andThen (address_offset 0 (advance ed)) (\<lambda>n ed.
             resubst_loop k g_f (a\<lparr>a_f := insert SNLR (a_f a), a_nth := n\<rparr>) ed))
      else if sign_or_digit c then
        (if g_f then
           andThen (address_offset 0 ed) (\<lambda>n ed.
             resubst_loop k g_f (a\<lparr>a_mod := n,
               a_f := (let f = a_f a - {GSUB, SMLR} in if n \<le> 0 then insert SMLR f else f - {SMLR})\<rparr>) ed)
         else
           andThen (address_offset 0 ed) (\<lambda>n ed.
             resubst_loop k g_f (a\<lparr>a_nth := n, a_f := (if n \<le> 0 then insert SNLR (a_f a) else a_f a - {SNLR})\<rparr>) ed))
      else if c = CHR ''g'' then resubst_loop k True (a\<lparr>a_sgpr := toggle TGSG (a_sgpr a)\<rparr>) (advance ed)
      else if c = CHR ''p'' then resubst_loop k g_f (a\<lparr>a_sgpr := toggle TGSP (a_sgpr a)\<rparr>) (advance ed)
      else if c = CHR ''r'' then resubst_loop k g_f (a\<lparr>a_sgpr := toggle TGSR (a_sgpr a)\<rparr>) (advance ed)
      else if a_sgpr a \<noteq> {} then throw ''Unknown command suffix'' ed
      else (Inr a, ed))"

definition resubstitute :: "subst_args \<Rightarrow> ed_buffer \<Rightarrow> subst_args res" where
  "resubstitute a ed =
     (if posix_or_traditional ed \<or> cur (input ed) \<notin> set SGPR_CHARS \<union> {NUL} then (Inr a, ed)
      else resubst_loop (length (input ed) + 1) False (a\<lparr>a_sgpr := {SGPR}\<rparr>) ed)"

abbreviation subst_update' :: "(ed_substitute \<Rightarrow> ed_substitute) \<Rightarrow> ed_buffer \<Rightarrow> ed_buffer" where
  "subst_update' f \<equiv> exec_update (subst_update f)"

definition substitution_lhs :: "'x regex_lib_scheme \<Rightarrow> regex option \<Rightarrow> ed_modifier set \<Rightarrow> ed_buffer \<Rightarrow> regex option res" where
  "substitution_lhs lib lhs_p sgpr ed =
     (if cur (input ed) \<noteq> LINE_FEED \<and> peek 1 (input ed) = LINE_FEED then throw ''Unknown command suffix'' ed
      else
        let ed = subst_update' (r_f_update (\<lambda>_. TGSR \<in> sgpr)) (spl1 ed) in
        case (if TGSR \<in> sgpr \<or> sgpr = {}
              then andThen (get_compiled_regex lib (cur (input ed)) RE_SUBST ed) (\<lambda>re ed. (Inr (Some re), ed))
              else (Inr lhs_p, ed)) of
          (Inl _, ed) \<Rightarrow> (Inl ERR, spl0 ed)
        | (Inr re, ed) \<Rightarrow>
            (let ed = spl0 ed in
             if sgpr \<noteq> {} \<and> re = None then throw ''No previous substitution'' ed else (Inr re, ed)))"

text \<open>The template is copied to its delimiter, or to the newline at the end of the input; \<open>None\<close>
  when neither is found and the loop runs past the input.\<close>

function template_loop :: "char \<Rightarrow> string \<Rightarrow> string \<Rightarrow> (string \<times> string) option" where
  "template_loop dc tpl [] = None"
| "template_loop dc tpl (c # cs) =
     (if c = dc \<or> (c = LINE_FEED \<and> cur cs = NUL) then Some (tpl, c # cs)
      else if c = REVERSE_SOLIDUS \<and> cur cs = dc then template_loop dc (tpl @ [dc]) (drop 1 cs)
      else if c = REVERSE_SOLIDUS \<and> cur cs = REVERSE_SOLIDUS
      then template_loop dc (tpl @ [REVERSE_SOLIDUS, REVERSE_SOLIDUS]) (drop 1 cs)
      else template_loop dc (tpl @ [c]) cs)"
  by pat_completeness auto
termination by (relation "measure (\<lambda>(_, _, s). length s)") auto

abbreviation set_rhs :: "string \<Rightarrow> ed_buffer \<Rightarrow> ed_buffer" where
  "set_rhs tpl \<equiv> statics_update (\<lambda>s. s\<lparr>subst_rhs := Some tpl, subst_rhs_i := length tpl\<rparr>)"

definition substitution_template :: "char \<Rightarrow> ed_buffer \<Rightarrow> unit res" where
  "substitution_template dc ed =
     (let ed = advance ed in
      if cur (input ed) = CHR ''%'' \<and> (peek 1 (input ed) = dc \<or> peek 1 (input ed) = LINE_FEED)
      then (let ed = advance ed in
            if subst_rhs (statics ed) = None then throw ''No previous substitution'' ed else (Inr (), ed))
      else case template_loop dc [] (input ed) of
             None \<Rightarrow> (Inl FATAL, ed)
           | Some (tpl, rest) \<Rightarrow> (Inr (), set_rhs tpl (set_input rest ed)))"

primrec modifiers_loop :: "nat \<Rightarrow> subst_args \<Rightarrow> ed_buffer \<Rightarrow> subst_args res" where
  "modifiers_loop 0 a ed = (Inl FATAL, ed)"
| "modifiers_loop (Suc k) a ed =
     (let c = cur (input ed) in
      if c = CHR ''$'' then
        (if GSUB \<in> a_f a then
           andThen (address_offset (a_mod a) (advance ed)) (\<lambda>n ed.
             modifiers_loop k (a\<lparr>a_f := insert SMLR (a_f a), a_mod := n\<rparr>) ed)
         else
           andThen (address_offset (a_nth a) (advance ed)) (\<lambda>n ed.
             modifiers_loop k (a\<lparr>a_f := insert SNLR (a_f a), a_nth := n\<rparr>) ed))
      else if sign_or_digit c then
        (if GSUB \<in> a_f a then
           andThen (address_offset (a_mod a) ed) (\<lambda>n ed.
             modifiers_loop k (a\<lparr>a_mod := n, a_f := (if n \<le> 0 then insert SMLR (a_f a) else a_f a - {SMLR})\<rparr>) ed)
         else
           andThen (address_offset (a_nth a) ed) (\<lambda>n ed.
             modifiers_loop k (a\<lparr>a_nth := n,
               a_f := (let f = a_f a - {SMLR} in if n \<le> 0 then insert SNLR f else f - {SNLR})\<rparr>) ed))
      else if c = CHR ''g'' then modifiers_loop k (a\<lparr>a_f := insert GSUB (a_f a)\<rparr>) (advance ed)
      else (Inr a, ed))"

definition substitution_modifiers :: "subst_args \<Rightarrow> ed_buffer \<Rightarrow> subst_args res" where
  "substitution_modifiers a ed = modifiers_loop (length (input ed) + 1) a ed"

definition substitution_rhs :: "subst_args \<Rightarrow> ed_buffer \<Rightarrow> subst_args res" where
  "substitution_rhs a ed =
     (let a = a\<lparr>a_f := {}, a_io := {}, a_nth := 0, a_mod := 0\<rparr>;
          ed = set_input_is_binary False ed
      in case (if global (exec ed) = {} \<or> macro_in_global (exec ed) \<noteq> {}
               then andThen (get_extended_line False False False ed) (\<lambda>xl ed. (Inr (), set_input xl ed))
               else (Inr (), ed)) of
           (Inl _, ed) \<Rightarrow> (Inl ERR, clearerr (std_in ed) (set_input [] ed))
         | (Inr _, ed) \<Rightarrow>
             (let dc = cur (input ed) in
              if dc = LINE_FEED
              then (Inr (a\<lparr>a_io := {PRNT}\<rparr>), statics_update (subst_rhs_i_update (\<lambda>_. 0)) ed)
              else
                andThen (substitution_template dc ed) (\<lambda>_ ed.
                  if cur (input ed) = LINE_FEED then (Inr (a\<lparr>a_io := {PRNT}\<rparr>), ed)
                  else substitution_modifiers a (if cur (input ed) = dc then advance ed else ed))))"

definition init_substitute :: "ed_substitute \<Rightarrow> regex option \<times> subst_args" where
  "init_substitute es =
     (lhs es, \<lparr>a_nth = s_nth es, a_mod = s_mod es, a_f = s_f es, a_sgpr = {}, a_io = sio_f es\<rparr>)"

definition save_substitute :: "regex option \<Rightarrow> subst_args \<Rightarrow> ed_substitute \<Rightarrow> ed_substitute" where
  "save_substitute l a es = es\<lparr>lhs := l, s_nth := a_nth a, s_mod := a_mod a, s_f := a_f a, sio_f := a_io a\<rparr>"

section \<open>The template applied to a match\<close>

text \<open>\<open>cc\<close> is the stack of case changes, its top first; \<open>once\<close> is \<open>change_once\<close>.\<close>

definition change_case :: "int list \<Rightarrow> int \<Rightarrow> char \<Rightarrow> char" where
  "change_case cc once c =
     (if 0 < hd cc \<or> 0 < once then toupper c else if hd cc < 0 \<or> once < 0 then tolower c else c)"

definition change_text :: "int list \<Rightarrow> int \<Rightarrow> string \<Rightarrow> string" where
  "change_text cc once s = (case s of [] \<Rightarrow> [] | c # cs \<Rightarrow> change_case cc once c # map (change_case cc 0) cs)"

definition match_text :: "string \<Rightarrow> int \<times> int \<Rightarrow> string" where
  "match_text boln m = (case m of (so, eo) \<Rightarrow> take (nat (eo - so)) (drop (nat so) boln))"

text \<open>One round of the loop over the template: the text added, the new case changes, the rest\<close>

definition template_step ::
  "(int \<times> int) list \<Rightarrow> nat \<Rightarrow> string \<Rightarrow> int list \<Rightarrow> int \<Rightarrow> char \<Rightarrow> string \<Rightarrow> string \<times> int list \<times> int \<times> string" where
  "template_step rm nsub boln cc once c sub =
     (let group = (\<lambda>n. match_text boln (rm ! n));
          after = (\<lambda>s. if s = [] then once else 0);
          d = cur sub;
          sub' = drop 1 sub
      in if c = CHR ''&'' then (change_text cc once (group 0), cc, after (group 0), sub)
         else if c \<noteq> REVERSE_SOLIDUS then ([change_case cc once c], cc, 0, sub)
         else if isdigit d then
           (if digit_val d \<le> nsub then (change_text cc once (group (digit_val d)), cc, after (group (digit_val d)), sub')
            else ([], cc, once, sub'))
         else if d = CHR ''U'' then ([], 1 # cc, once, sub')
         else if d = CHR ''u'' then ([], cc, 1, sub')
         else if d = CHR ''L'' then ([], (- 1) # cc, once, sub')
         else if d = CHR ''l'' then ([], cc, - 1, sub')
         else if d = CHR ''E'' then ([], if 1 < length cc then tl cc else cc, once, sub')
         else ([change_case cc once d], cc, 0, sub'))"

lemma template_step_length: "template_step rm nsub boln cc once c sub = (t, cc', once', sub') \<Longrightarrow> length sub' \<le> length sub"
  by (auto simp: template_step_def Let_def split: if_splits)

function template_text :: "(int \<times> int) list \<Rightarrow> nat \<Rightarrow> string \<Rightarrow> int list \<Rightarrow> int \<Rightarrow> string \<Rightarrow> string" where
  "template_text rm nsub boln cc once [] = []"
| "template_text rm nsub boln cc once (c # sub) =
     (case template_step rm nsub boln cc once c sub of
        (t, cc, once, sub) \<Rightarrow> t @ template_text rm nsub boln cc once sub)"
  by pat_completeness auto
termination
  by (relation "measure (\<lambda>(_, _, _, _, _, s). length s)") (auto simp: less_Suc_eq_le dest: template_step_length [OF sym])

definition apply_subst_template :: "string \<Rightarrow> (int \<times> int) list \<Rightarrow> nat \<Rightarrow> ed_buffer \<Rightarrow> string" where
  "apply_subst_template boln rm nsub ed =
     (case subst_rhs (statics ed) of
        None \<Rightarrow> []
      | Some rhs \<Rightarrow> template_text rm nsub boln [0] 0 (take (subst_rhs_i (statics ed)) rhs))"

section \<open>The matches of a line\<close>

text \<open>\<open>notbol\<close> is \<open>REG_NOTBOL\<close>.  A round that does not move on is followed by one that does: fuel for
  twice the length.\<close>

primrec count_loop :: "'x regex_lib_scheme \<Rightarrow> regex \<Rightarrow> nat \<Rightarrow> bool \<Rightarrow> string \<Rightarrow> bool \<Rightarrow> bool \<Rightarrow> nat \<Rightarrow> nat option" where
  "count_loop lib re 0 notbol txt matched_prev nul_next nmatches = None"
| "count_loop lib re (Suc k) notbol txt matched_prev nul_next nmatches =
     (case re_exec lib re notbol txt of
        None \<Rightarrow> Some nmatches
      | Some rm \<Rightarrow>
          (let off = nat (snd (rm ! 0));
               nul_prev = nul_next;
               nul_next = (off = 0)
           in if matched_prev \<and> nul_next then
                (if cur txt = NUL then Some nmatches
                 else count_loop lib re k True (drop 1 txt) False nul_next nmatches)
              else if \<not> nul_next \<or> nul_prev then
                count_loop lib re k True (drop off txt) True nul_next (nmatches + 1)
              else if nul_next \<and> cur txt = NUL then Some nmatches
              else count_loop lib re k True (drop (if off = 0 then 1 else off) txt) False nul_next nmatches))"

definition match_fuel :: "string \<Rightarrow> nat" where
  "match_fuel txt = 2 * length txt + 2"

definition SE_MAX :: nat where "SE_MAX = 2 ^ 32 - 1"

definition count_matches :: "'x regex_lib_scheme \<Rightarrow> regex \<Rightarrow> string \<Rightarrow> ed_buffer \<Rightarrow> nat res" where
  "count_matches lib re txt ed =
     (if SE_MAX \<le> re_nsub re then throw ''Too many regex subexpressions'' ed
      else case count_loop lib re (match_fuel txt) False txt False True 0 of
             None \<Rightarrow> (Inl FATAL, ed)
           | Some n \<Rightarrow> (Inr n, ed))"

text \<open>The size of the character at which an empty match leaves the text\<close>

definition char_step :: "bool \<Rightarrow> string \<Rightarrow> int" where
  "char_step u8 txt =
     (let j = (if u8 then utf8_char_size txt else 0) in if j = 0 then 1 else j)"

text \<open>The outcome of the loop of \<open>substitute_matching\<close>: the text so far with the rest of the line and
  whether anything changed, an error of the allocation of a character of invalid size, or no
  outcome, when the modulus is zero or the fuel is spent.\<close>

datatype subst_outcome = Substituted string string bool | NoMemory string | NoReturn

primrec subst_loop ::
  "'x regex_lib_scheme \<Rightarrow> regex \<Rightarrow> ((int \<times> int) list \<Rightarrow> string \<Rightarrow> string) \<Rightarrow> int \<Rightarrow> int \<Rightarrow> bool \<Rightarrow> nat \<Rightarrow>
   bool \<Rightarrow> string \<Rightarrow> string \<Rightarrow> int \<Rightarrow> bool \<Rightarrow> bool \<Rightarrow> bool \<Rightarrow> bool option \<Rightarrow> subst_outcome" where
  "subst_loop lib re tpl nt md gsub 0 notbol out txt k changed matched_prev nil_next utf8 = NoReturn"
| "subst_loop lib re tpl nt md gsub (Suc fuel) notbol out txt k changed matched_prev nil_next utf8 =
     (if changed \<and> \<not> gsub then Substituted out txt changed
      else case re_exec lib re notbol txt of
        None \<Rightarrow> Substituted out txt changed
      | Some rm \<Rightarrow>
          (let i = nat (fst (rm ! 0));
               j = nat (snd (rm ! 0));
               nil_prev = nil_next;
               nil_next = (j = 0);
               go = subst_loop lib re tpl nt md gsub fuel True;
               u8 = (case utf8 of None \<Rightarrow> is_utf8_str txt | Some b \<Rightarrow> b);
               skip = (\<lambda>k. if cur txt = NUL then Substituted out txt changed
                           else let c = char_step u8 txt in
                                if SIZE_MAX - int (length out) < u64 c then NoMemory ''Memory request too big''
                                else if c < 0 then NoMemory ''Memory exhausted''
                                else go (out @ take (nat c) txt) (drop (nat c) txt) k changed False nil_next (Some u8))
           in if matched_prev \<and> nil_next then skip k
              else
                let counts = (\<not> nil_next \<or> nil_prev);
                    k = (if counts then k + 1 else k)
                in if counts \<and> u64 nt \<le> k \<and> u64 md = 0 then NoReturn
                   else if counts \<and> u64 nt \<le> k \<and> u64 (k - nt) mod u64 md = 0
                   then go (out @ take i txt @ tpl rm txt) (drop j txt) k True True nil_next utf8
                   else if j = 0 then skip k
                   else go (out @ take j txt) (drop j txt) k changed False nil_next (Some u8)))"

definition substitute_matching :: "'x regex_lib_scheme \<Rightarrow> regex \<Rightarrow> node \<Rightarrow> subst_args \<Rightarrow> ed_buffer \<Rightarrow> string option res" where
  "substitute_matching lib re lp a ed =
     andThen (get_buffer_line lp ed) (\<lambda>s ed.
       let txt = take (ln_len (nodes (core ed) lp)) s in
       if SE_MAX \<le> re_nsub re then throw ''Too many regex subexpressions'' ed
       else
         andThen (count_matches lib re txt ed) (\<lambda>n ed.
           if (SNLR \<in> a_f a \<or> SMLR \<in> a_f a) \<and> int n \<le> \<bar>a_nth a\<bar> then (Inr None, ed)
           else
             let nt = (if SNLR \<in> a_f a then a_nth a + int n else if a_nth a = 0 then 1 else a_nth a);
                 md = (if SMLR \<in> a_f a then a_mod a + int n else if a_mod a = 0 then 1 else a_mod a)
             in case subst_loop lib re (\<lambda>rm boln. apply_subst_template boln rm (re_nsub re) ed) nt md (GSUB \<in> a_f a)
                       (match_fuel txt) False [] txt 0 False False True None of
                  NoReturn \<Rightarrow> (Inl FATAL, ed)
                | NoMemory msg \<Rightarrow> throw msg ed
                | Substituted out rest changed \<Rightarrow>
                    (Inr (if changed then Some (out @ rest @ [LINE_FEED]) else None), ed)))"

section \<open>The lines of a range\<close>

text \<open>The loop over the lines of the new text\<close>

primrec put_subst_lines :: "nat \<Rightarrow> node \<Rightarrow> nat option \<Rightarrow> string \<Rightarrow> ed_buffer \<Rightarrow> unit res" where
  "put_subst_lines 0 lp up txt ed = (Inl FATAL, ed)"
| "put_subst_lines (Suc k) lp up txt ed =
     (case put_buffer_line txt (length (takeWhile (\<lambda>c. c \<noteq> LINE_FEED) txt) + 1) ed of
        (Inl _, ed) \<Rightarrow> (Inl ERR, spl0 ed)
      | (Inr txt, ed) \<Rightarrow>
          (let (mp, ed) = get_line_node (dot (state ed)) ed;
               ed = transfer_marks mp lp ed
           in andThen (APPEND_UNDO_NODE mp up (dot (state ed)) ed) (\<lambda>i ed.
                if txt = [] then (Inr (), ed) else put_subst_lines k lp (Some i) txt ed)))"

text \<open>The state of the loop over the range: the last line changed and the count of changes\<close>

primrec subst_range :: "'x regex_lib_scheme \<Rightarrow> regex \<Rightarrow> subst_args \<Rightarrow> nat \<Rightarrow> int \<Rightarrow> nat \<Rightarrow> ed_buffer \<Rightarrow> (int \<times> nat) res" where
  "subst_range lib re a 0 dt nsubs ed = (Inr (dt, nsubs), ed)"
| "subst_range lib re a (Suc lc) dt nsubs ed =
     (let ed = set_dot (dot (state ed) + 1) ed;
          (lp, ed) = get_line_node (dot (state ed)) ed
      in andThen (substitute_matching lib re lp a ed) (\<lambda>new ed.
           case new of
             None \<Rightarrow> subst_range lib re a lc dt nsubs ed
           | Some rb \<Rightarrow>
               (case delete_lines (dot (state ed)) (dot (state ed)) (spl1 ed) of
                  (Inl _, ed) \<Rightarrow> (Inl ERR, spl0 ed)
                | (Inr _, ed) \<Rightarrow>
                    andThen (put_subst_lines (length rb) lp None rb ed) (\<lambda>_ ed.
                      let dt = dot (state ed);
                          ed = spl0 (set_is_binary (is_binary (state ed) \<or> input_is_binary (state ed)) ed)
                      in subst_range lib re a lc dt (nsubs + 1) ed))))"

definition substitute_lines :: "'x regex_lib_scheme \<Rightarrow> int \<Rightarrow> int \<Rightarrow> regex \<Rightarrow> subst_args \<Rightarrow> ed_buffer \<Rightarrow> unit res" where
  "substitute_lines lib from to re a ed =
     (let nl = newline_appended (state ed) in
      andThen (subst_range lib re a (nat (to - from + 1)) (dot (state ed)) 0 (set_dot (from - 1) ed)) (\<lambda>(dt, nsubs) ed.
        let ed = set_newline_appended nl (set_dot dt ed) in
        if nsubs = 0 \<and> global (exec ed) = {} then throw ''No match'' ed else (Inr (), ed)))"

end
