(* ===== verification/Exec_Edit.thy ===== *)
theory Exec_Edit
  imports Files Subst
begin

text \<open>
  The commands that edit lines (\<open>exec.c\<close>: \<open>a\<close>, \<open>c\<close>, \<open>d\<close>, \<open>i\<close>, \<open>j\<close>, \<open>k\<close>, \<open>m\<close>, \<open>t\<close>, \<open>u\<close>), with the
  parsing of suffixes, registers and destinations they share.  A command returns a negative
  status or the print flags that its caller is to use.
\<close>

type_synonym command_result = "ed_modifier set res"

abbreviation reg_start :: "ed_buffer \<Rightarrow> int" where "reg_start ed \<equiv> region_start (region (exec ed))"
abbreviation reg_end :: "ed_buffer \<Rightarrow> int" where "reg_end ed \<equiv> region_end (region (exec ed))"
abbreviation has_addrs :: "ed_buffer \<Rightarrow> bool" where "has_addrs ed \<equiv> addrs (region (exec ed)) \<noteq> 0"
abbreviation io_flags :: "ed_buffer \<Rightarrow> register_io set" where "io_flags ed \<equiv> rio_f (regbuf (core ed))"
abbreviation upd_regbuf :: "(ed_register \<Rightarrow> ed_register) \<Rightarrow> ed_buffer \<Rightarrow> ed_buffer" where
  "upd_regbuf f \<equiv> core_update (regbuf_update f)"
abbreviation set_region :: "int \<Rightarrow> int \<Rightarrow> ed_buffer \<Rightarrow> ed_buffer" where
  "set_region a b ed \<equiv> set_region_end b (set_region_start a ed)"

section \<open>Suffixes\<close>

definition suffix_flag :: "char \<Rightarrow> ed_modifier option" where
  "suffix_flag c =
     (if c = CHR ''p'' then Some PRNT else if c = CHR ''l'' then Some LIST
      else if c = CHR ''n'' then Some NMBR else None)"

text \<open>The flags, the rest of the input, and whether the suffix ended in a newline\<close>

fun suffix_flags :: "string \<Rightarrow> ed_modifier set \<Rightarrow> ed_modifier set \<times> string \<times> bool" where
  "suffix_flags [] f = (f, [], False)"
| "suffix_flags (c # cs) f =
     (case suffix_flag c of
        Some x \<Rightarrow> suffix_flags cs (insert x f)
      | None \<Rightarrow> if c = LINE_FEED then (f, cs, True) else (f, c # cs, False))"

definition COMMAND_SUFFIX :: "ed_modifier set \<Rightarrow> ed_buffer \<Rightarrow> ed_modifier set res" where
  "COMMAND_SUFFIX f ed =
     (case suffix_flags (input ed) f of
        (f, rest, ok) \<Rightarrow>
          if ok then (Inr f, set_input rest ed) else throw ''Command suffix unexpected'' (set_input rest ed))"

text \<open>\<open>COMMAND_SUFFIX (ed->display->dio_f, ed)\<close>: the flags are added even before an error.\<close>

definition display_suffix :: "ed_buffer \<Rightarrow> unit res" where
  "display_suffix ed =
     (case suffix_flags (input ed) (dio_f (display ed)) of
        (f, rest, ok) \<Rightarrow>
          (let ed = set_dio_f f (set_input rest ed)
           in if ok then (Inr (), ed) else throw ''Command suffix unexpected'' ed))"

fun suffix_flags_arg :: "string \<Rightarrow> ed_modifier set \<Rightarrow> ed_modifier set \<times> string \<times> bool" where
  "suffix_flags_arg [] f = (f, [], False)"
| "suffix_flags_arg (c # cs) f =
     (case suffix_flag c of
        Some x \<Rightarrow> suffix_flags_arg cs (insert x f)
      | None \<Rightarrow>
          if \<not> isspace c then (f, c # cs, False)
          else if c = LINE_FEED then (f, cs, True)
          else
            let r = dropWhile (\<lambda>c. isspace c \<and> c \<noteq> LINE_FEED) cs
            in if cur r \<noteq> LINE_FEED then (f, cs, True) else (f, drop 1 r, True))"

definition COMMAND_SUFFIX_WITH_ARG :: "ed_buffer \<Rightarrow> unit res" where
  "COMMAND_SUFFIX_WITH_ARG ed =
     (case suffix_flags_arg (input ed) (dio_f (display ed)) of
        (f, rest, ok) \<Rightarrow>
          (let ed = set_dio_f f (set_input rest ed)
           in if ok then (Inr (), ed) else throw ''Command suffix unexpected'' ed))"

abbreviation dio_result :: "ed_buffer \<Rightarrow> command_result" where
  "dio_result ed \<equiv> (Inr (dio_f (display ed)), ed)"

abbreviation no_address :: "(ed_buffer \<Rightarrow> 'a res) \<Rightarrow> ed_buffer \<Rightarrow> 'a res" where
  "no_address k ed \<equiv> (if has_addrs ed then throw ''Address unexpected'' ed else k ed)"

section \<open>Ranges, registers and destinations\<close>

definition is_valid_range :: "int \<Rightarrow> int \<Rightarrow> ed_buffer \<Rightarrow> unit res" where
  "is_valid_range from to ed =
     (let ed = (if has_addrs ed then ed else set_region from to ed);
          s = reg_start ed; e = reg_end ed; n = lines (state ed)
      in if (s < 1 \<or> n < s \<or> e < 1 \<or> n < e) \<and> REGISTER_READ \<notin> io_flags ed then throw ''Address out of range'' ed
         else if s > e then throw ''Invalid address range'' ed
         else (Inr (), ed))"

text \<open>The check of the commands that accept an empty buffer when no address is given\<close>

definition valid_range_or_empty :: "int \<Rightarrow> int \<Rightarrow> ed_buffer \<Rightarrow> unit res" where
  "valid_range_or_empty from to ed =
     (if \<not> (has_addrs ed \<or> lines (state ed) \<noteq> 0) then (Inr (), set_region 0 0 ed)
      else is_valid_range from to ed)"

text \<open>The index of a register, the last one when there is none; 0 is stored when out of range.\<close>

definition register_index :: "((int \<Rightarrow> int) \<Rightarrow> ed_register \<Rightarrow> ed_register) \<Rightarrow> ed_buffer \<Rightarrow> unit res" where
  "register_index idx_update ed =
     (if isdigit (cur (input ed)) then
        case STRTOLL_THROW ed of
          (Inl e, ed) \<Rightarrow> (Inl e, upd_regbuf (idx_update (\<lambda>_. 0)) ed)
        | (Inr n, ed) \<Rightarrow> (Inr (), upd_regbuf (idx_update (\<lambda>_. to_int n)) ed)
      else (Inr (), upd_regbuf (idx_update (\<lambda>_. REGBUF_MAX - 1)) ed))"

definition GET_INPUT_REGISTER :: "ed_buffer \<Rightarrow> unit res" where
  "GET_INPUT_REGISTER ed = register_index read_idx_update (upd_regbuf (rio_f_update (insert REGISTER_READ)) ed)"

text \<open>The destination address, or whether to append to the register that is written\<close>

definition DESTINATION_ADDRESS :: "'x regex_lib_scheme \<Rightarrow> ed_buffer \<Rightarrow> (int \<times> bool) res" where
  "DESTINATION_ADDRESS lib ed =
     (let s = reg_start ed; e = reg_end ed in
      if \<not> posix_or_traditional ed \<and> cur (input ed) = CHR ''>'' then
        let ed = advance (upd_regbuf (rio_f_update (insert REGISTER_WRITE)) ed);
            app = (cur (input ed) = CHR ''>'');
            ed = (if app then advance ed else ed)
        in andThen (register_index write_idx_update ed) (\<lambda>_ ed. (Inr (0, app), ed))
      else
        andThen (address_range lib ed) (\<lambda>_ ed.
          if posix_or_traditional ed \<and> \<not> has_addrs ed then throw ''Destination address required'' ed
          else if lines (state ed) < reg_end ed then throw ''Address out of range'' ed
          else (Inr (reg_end ed, False), set_region s e ed)))"

definition start_undo :: "ed_buffer \<Rightarrow> unit res" where
  "start_undo ed = (if \<not> (global (exec ed) \<noteq> {} \<or> sp (core ed) \<noteq> 0) then reset_undo_queue ed else (Inr (), ed))"

text \<open>\<open>delete_lines\<close> of the addressed range between \<open>spl1\<close> and \<open>spl0\<close>\<close>

definition delete_range :: "ed_buffer \<Rightarrow> unit res" where
  "delete_range ed =
     (case delete_lines (reg_start ed) (reg_end ed) (spl1 ed) of
        (Inl e, ed) \<Rightarrow> (Inl e, spl0 ed)
      | (Inr _, ed) \<Rightarrow> (Inr (), ed))"

section \<open>The commands\<close>

definition c_cmd :: "ed_buffer \<Rightarrow> command_result" where
  "c_cmd ed =
     (let ed = (if reg_start ed = 0 then set_region_start 1 ed else ed);
          ed = (if reg_end ed = 0 then set_region_end 1 ed else ed)
      in andThen (is_valid_range (dot (state ed)) (dot (state ed)) ed) (\<lambda>_ ed.
         andThen (COMMAND_SUFFIX_WITH_ARG ed) (\<lambda>_ ed.
         andThen (start_undo ed) (\<lambda>_ ed.
         andThen (delete_range ed) (\<lambda>_ ed.
         andThen (append_lines (dot (state ed)) (spl0 ed)) (\<lambda>_ ed.
           dio_result (if dot (state ed) < reg_start ed then set_dot (min (lines (state ed)) (reg_start ed)) ed else ed)))))))"

definition a_cmd :: "ed_buffer \<Rightarrow> command_result" where
  "a_cmd ed =
     (if \<not> is_empty (state ed) \<or> lines (state ed) = 0 then
        andThen (COMMAND_SUFFIX_WITH_ARG ed) (\<lambda>_ ed.
        andThen (start_undo ed) (\<lambda>_ ed.
        andThen (append_lines (reg_end ed) ed) (\<lambda>_ ed. dio_result ed)))
      else c_cmd ed)"

text \<open>The current line after a deletion\<close>

definition d_cmd :: "ed_buffer \<Rightarrow> command_result" where
  "d_cmd ed =
     andThen (is_valid_range (dot (state ed)) (dot (state ed)) ed) (\<lambda>_ ed.
     andThen (display_suffix ed) (\<lambda>_ ed.
     andThen (start_undo ed) (\<lambda>_ ed.
     andThen (delete_range ed) (\<lambda>_ ed.
       let addr = INC_MOD (dot (state ed)) (lines (state ed));
           ed = (if addr \<noteq> 0 then set_dot addr ed else ed);
           ed = set_is_empty (lines (state ed) = 0) ed;
           ed = (if lines (state ed) = 0 then set_is_binary False ed else ed)
       in dio_result (spl0 ed)))))"

definition i_cmd :: "ed_buffer \<Rightarrow> command_result" where
  "i_cmd ed =
     (let ed = (if reg_end ed = 0 then set_region_end 1 ed else ed)
      in andThen (COMMAND_SUFFIX_WITH_ARG ed) (\<lambda>_ ed.
         andThen (start_undo ed) (\<lambda>_ ed.
         andThen (append_lines (reg_end ed - 1) ed) (\<lambda>_ ed.
           dio_result (if dot (state ed) = reg_end ed - 1 \<and> lines (state ed) \<noteq> 0 then set_dot (reg_end ed) ed else ed)))))"

definition j_cmd :: "ed_buffer \<Rightarrow> command_result" where
  "j_cmd ed =
     andThen (valid_range_or_empty (dot (state ed)) (dot (state ed) + 1) ed) (\<lambda>_ ed.
     andThen (display_suffix ed) (\<lambda>_ ed.
     andThen (start_undo ed) (\<lambda>_ ed.
     andThen (if reg_start ed \<noteq> reg_end ed then join_lines (reg_start ed) (reg_end ed) ed else (Inr (), ed)) (\<lambda>_ ed.
       dio_result ed))))"

definition k_cmd :: "ed_buffer \<Rightarrow> command_result" where
  "k_cmd ed =
     (let cx = cur (input ed)
      in andThen (display_suffix (advance ed)) (\<lambda>_ ed.
           let (lp, ed) = get_line_node (reg_end ed) ed
           in andThen (mark_line_node lp cx ed) (\<lambda>_ ed. dio_result ed)))"

definition u_cmd :: "ed_buffer \<Rightarrow> command_result" where
  "u_cmd = no_address (\<lambda>ed.
     andThen (display_suffix ed) (\<lambda>_ ed.
     andThen (undo_last_command ed) (\<lambda>_ ed. dio_result ed)))"

text \<open>The current line after lines were moved to a register\<close>

definition after_move :: "ed_buffer \<Rightarrow> ed_buffer" where
  "after_move ed =
     (let addr = INC_MOD (dot (state ed)) (lines (state ed))
      in if addr \<noteq> 0 then set_dot addr ed
         else
           let ed = set_is_empty (lines (state ed) = 0) ed
           in if lines (state ed) = 0 then set_is_binary False ed else ed)"

definition move_by_register :: "int \<Rightarrow> bool \<Rightarrow> ed_buffer \<Rightarrow> unit res" where
  "move_by_register addr app ed =
     (if io_flags ed = {} then move_lines (reg_start ed) (reg_end ed) addr ed
      else if io_flags ed = {REGISTER_READ} then
        andThen (append_from_register addr ed) (\<lambda>_ ed. reset_register_buffer (read_idx (regbuf (core ed))) ed)
      else if io_flags ed = {REGISTER_WRITE} then
        andThen (append_to_register (reg_start ed) (reg_end ed) app ed) (\<lambda>_ ed.
        andThen (delete_range ed) (\<lambda>_ ed. (Inr (), spl0 (after_move ed))))
      else inter_register_move app ed)"

definition m_cmd :: "'x regex_lib_scheme \<Rightarrow> ed_buffer \<Rightarrow> command_result" where
  "m_cmd lib ed =
     andThen (is_valid_range (dot (state ed)) (dot (state ed)) ed) (\<lambda>_ ed.
     andThen (DESTINATION_ADDRESS lib ed) (\<lambda>(addr, app) ed.
       if reg_start ed \<le> addr \<and> addr < reg_end ed then throw ''Invalid destination address'' ed
       else
         andThen (display_suffix ed) (\<lambda>_ ed.
         andThen (start_undo ed) (\<lambda>_ ed.
         andThen (move_by_register addr app ed) (\<lambda>_ ed. dio_result ed)))))"

definition copy_by_register :: "int \<Rightarrow> bool \<Rightarrow> ed_buffer \<Rightarrow> unit res" where
  "copy_by_register addr app ed =
     (if io_flags ed = {} then copy_lines (reg_start ed) (reg_end ed) addr ed
      else if io_flags ed = {REGISTER_READ} then append_from_register addr ed
      else if io_flags ed = {REGISTER_WRITE} then append_to_register (reg_start ed) (reg_end ed) app ed
      else inter_register_copy app ed)"

definition t_cmd :: "'x regex_lib_scheme \<Rightarrow> ed_buffer \<Rightarrow> command_result" where
  "t_cmd lib ed =
     andThen (is_valid_range (dot (state ed)) (dot (state ed)) ed) (\<lambda>_ ed.
     andThen (DESTINATION_ADDRESS lib ed) (\<lambda>(addr, app) ed.
     andThen (display_suffix ed) (\<lambda>_ ed.
     andThen (start_undo ed) (\<lambda>_ ed.
     andThen (copy_by_register addr app ed) (\<lambda>_ ed. dio_result ed)))))"

end
