(* ===== verification/Exec_Cmds.thy ===== *)
theory Exec_Cmds
  imports Exec_Edit
begin

text \<open>
  The commands that print, read, write, quit and set options, substitution and the shell
  (\<open>exec.c\<close>: \<open>E\<close>, \<open>H\<close>, \<open>P\<close>, \<open>e\<close>, \<open>f\<close>, \<open>h\<close>, \<open>l\<close>, \<open>n\<close>, \<open>p\<close>, \<open>q\<close>, \<open>r\<close>, \<open>s\<close>, \<open>w\<close>, \<open>=\<close>, \<open>!\<close>, newline, \<open>#\<close> and unknown
  keys).  File lists and file name patterns are not modelled: the editor has one file name.
\<close>

abbreviation opt_set :: "ed_flag set \<Rightarrow> ed_buffer \<Rightarrow> bool" where "opt_set f ed \<equiv> opt (exec ed) \<inter> f \<noteq> {}"
abbreviation toggle_opt :: "ed_flag \<Rightarrow> ed_buffer \<Rightarrow> ed_buffer" where "toggle_opt f \<equiv> exec_update (opt_update (toggle f))"
abbreviation name_of :: "ed_buffer \<Rightarrow> string option" where "name_of ed \<equiv> file_name_of (file_info ed)"
abbreviation set_name :: "string \<Rightarrow> ed_buffer \<Rightarrow> ed_buffer" where "set_name s \<equiv> file_info_update (file_name_of_update (\<lambda>_. Some s))"

definition no_print :: "unit res \<Rightarrow> command_result" where
  "no_print r = andThen r (\<lambda>_ ed. (Inr {}, ed))"

section \<open>Printing\<close>

definition print_cmd :: "ed_modifier \<Rightarrow> ed_buffer \<Rightarrow> command_result" where
  "print_cmd flag ed =
     andThen (valid_range_or_empty (dot (state ed)) (dot (state ed)) ed) (\<lambda>_ ed.
     andThen (display_suffix ed) (\<lambda>_ ed.
       let ed = set_dio_f (if posix_or_traditional ed then {flag} else insert flag (dio_f (display ed))) ed
       in no_print (display_lines (reg_start ed) (reg_end ed) ed)))"

definition l_cmd :: "ed_buffer \<Rightarrow> command_result" where "l_cmd = print_cmd LIST"
definition n_cmd :: "ed_buffer \<Rightarrow> command_result" where "n_cmd = print_cmd NMBR"
definition p_cmd :: "ed_buffer \<Rightarrow> command_result" where "p_cmd = print_cmd PRNT"

definition newline_cmd :: "ed_buffer \<Rightarrow> command_result" where
  "newline_cmd ed =
     (let addr = dot (state ed) + (if global (exec ed) = {} then 1 else 0)
      in andThen (is_valid_range 1 addr (set_region_start 1 ed)) (\<lambda>_ ed.
           if global (exec ed) = {} \<or> has_addrs ed then no_print (display_lines (reg_end ed) (reg_end ed) ed)
           else (Inr {}, ed)))"

definition address_cmd :: "ed_buffer \<Rightarrow> command_result" where
  "address_cmd ed =
     andThen (display_suffix ed) (\<lambda>_ ed.
       dio_result (puts (int_text (if has_addrs ed then reg_end ed else lines (state ed))) ed))"

section \<open>Options, errors and the end\<close>

definition print_error :: "ed_buffer \<Rightarrow> ed_buffer" where
  "print_error ed = (case err (exec ed) of None \<Rightarrow> ed | Some e \<Rightarrow> puts e ed)"

definition H_cmd :: "ed_buffer \<Rightarrow> command_result" where
  "H_cmd = no_address (\<lambda>ed.
     andThen (display_suffix ed) (\<lambda>_ ed.
       let ed = toggle_opt VERBOSE ed
       in dio_result (if VERBOSE \<in> opt (exec ed) then print_error ed else ed)))"

definition h_cmd :: "ed_buffer \<Rightarrow> command_result" where
  "h_cmd = no_address (\<lambda>ed.
     andThen (display_suffix ed) (\<lambda>_ ed.
       dio_result
         (if posix_or_traditional ed \<or> err (exec ed) \<noteq> None then print_error ed
          else puts ''No previous error'' ed)))"

definition P_cmd :: "ed_buffer \<Rightarrow> command_result" where
  "P_cmd = no_address (\<lambda>ed. andThen (display_suffix ed) (\<lambda>_ ed. dio_result (toggle_opt PROMPT ed)))"

definition q_cmd :: "char \<Rightarrow> ed_buffer \<Rightarrow> command_result" where
  "q_cmd c = no_address (\<lambda>ed.
     andThen (display_suffix ed) (\<lambda>_ ed.
       (Inl (if c = CHR ''q'' \<and> is_modified (state ed) \<and> SCRIPTED \<notin> opt (exec ed) then EMOD else EOF), ed)))"

text \<open>The comment is read to its newline, or past the end of the input when there is none.\<close>

definition comment_cmd :: "ed_buffer \<Rightarrow> command_result" where
  "comment_cmd ed =
     (if posix_or_traditional ed then throw ''Unknown command'' ed
      else if LINE_FEED \<notin> set (input ed) then (Inl FATAL, ed)
      else (Inr {}, set_input (drop 1 (dropWhile (\<lambda>c. c \<noteq> LINE_FEED) (input ed))) ed))"

definition invalid_cmd :: "'x regex_lib_scheme \<Rightarrow> ed_buffer \<Rightarrow> command_result" where
  "invalid_cmd lib ed =
     (case next_address lib (dot (state ed)) ed of
        (Inl FATAL, ed) \<Rightarrow> (Inl FATAL, ed)
      | (Inr (_, True), ed) \<Rightarrow> throw ''Invalid address'' ed
      | (_, ed) \<Rightarrow> throw ''Unknown command'' ed)"

section \<open>Files\<close>

text \<open>The shell command that stands for a file, if any: the argument or the current name\<close>

definition pipe_name :: "string \<Rightarrow> ed_buffer \<Rightarrow> string option" where
  "pipe_name fn ed =
     (if cur fn = CHR ''!'' then Some fn
      else if fn = [] then
        (case name_of ed of Some s \<Rightarrow> if cur s = CHR ''!'' then Some s else None | None \<Rightarrow> None)
      else None)"

abbreviation has_name :: "ed_buffer \<Rightarrow> bool" where "has_name ed \<equiv> name_of ed \<noteq> None \<and> name_of ed \<noteq> Some []"

definition reset_exit_status :: "ed_buffer \<Rightarrow> ed_buffer" where
  "reset_exit_status ed =
     (if opt_set {POSIXLY_CORRECT, TRADITIONAL, SCRIPTED, EXIT_ON_ERROR} ed then ed
      else exec_update (exit_status_update (\<lambda>_. 0)) ed)"

definition E_clear :: "ed_buffer \<Rightarrow> unit res" where
  "E_clear ed =
     (let ed = spl1 ed in
      case (if 0 < lines (state ed) then delete_lines 1 (lines (state ed)) ed else (Inr (), ed)) of
        (Inl e, ed) \<Rightarrow> (Inl e, spl0 ed)
      | (Inr _, ed) \<Rightarrow> andThen (reset_undo_queue ed) (\<lambda>_ ed. (Inr (), reset_global_buffer ed)))"

definition E_read :: "'x os_scheme \<Rightarrow> string \<Rightarrow> ed_buffer \<Rightarrow> (int \<times> int) res" where
  "E_read os fn ed =
     (case pipe_name fn ed of
        Some sc \<Rightarrow> read_pipe os sc 0 ed
      | None \<Rightarrow>
          (let ed = (if fn \<noteq> [] then set_name fn ed else ed)
           in read_file os (if has_name ed then the (name_of ed) else ''/dev/null'') 0 ed))"

text \<open>The status of \<open>E\<close> is 0 when reopening the buffer fails.\<close>

definition E_cmd :: "'x os_scheme \<Rightarrow> ed_buffer \<Rightarrow> command_result" where
  "E_cmd os = no_address (\<lambda>ed.
     if \<not> isspace (cur (input ed)) then throw ''Command suffix unexpected'' ed
     else
       andThen (FILE_NAME (SKIP_WHITESPACE ed)) (\<lambda>fn ed.
       andThen (E_clear ed) (\<lambda>_ ed.
         case reopen_ed_buffer ed of
           (Inl _, ed) \<Rightarrow> (Inr {}, spl0 ed)
         | (Inr _, ed) \<Rightarrow>
             (let ed = init_ed_command ed;
                  ed = spl0 (state1_update (\<lambda>_. init_ed_state (-1)) (state_update (\<lambda>_. init_ed_state 0) ed))
              in andThen (E_read os fn ed) (\<lambda>(_, sz) ed. (Inr {}, reset_exit_status (print_size {SCRIPTED} sz ed)))))))"

definition e_cmd :: "'x os_scheme \<Rightarrow> ed_buffer \<Rightarrow> command_result" where
  "e_cmd os ed = (if is_modified (state ed) then (Inl EMOD, ed) else E_cmd os ed)"

definition print_name :: "ed_buffer \<Rightarrow> command_result" where
  "print_name ed =
     (case name_of ed of
        Some s \<Rightarrow> (Inr {}, puts s ed)
      | None \<Rightarrow> if posix_or_traditional ed then throw ''File name not set'' ed else (Inr {}, ed))"

definition f_cmd :: "ed_buffer \<Rightarrow> command_result" where
  "f_cmd = no_address (\<lambda>ed.
     if \<not> isspace (cur (input ed)) then throw ''Command suffix unexpected'' ed
     else
       let ed = SKIP_WHITESPACE ed
       in if posix_or_traditional ed \<and> cur (input ed) = CHR ''!'' then throw ''Invalid redirection'' ed
          else
            andThen (if cur (input ed) = LINE_FEED then (Inr (), advance ed)
                     else andThen (FILE_NAME ed) (\<lambda>fn ed. (Inr (), set_name fn ed))) (\<lambda>_. print_name))"

text \<open>A line that stands for an empty file is deleted first.\<close>

definition r_prepare :: "ed_buffer \<Rightarrow> unit res" where
  "r_prepare ed =
     andThen (start_undo (spl1 ed)) (\<lambda>_ ed.
       let cx = newline_appended (state ed) in
       case (if is_empty (state ed) \<and> lines (state ed) \<noteq> 0
             then delete_lines (dot (state ed)) (dot (state ed)) ed else (Inr (), ed)) of
         (Inl e, ed) \<Rightarrow> (Inl e, spl0 ed)
       | (Inr _, ed) \<Rightarrow>
           (let ed = set_newline_appended cx ed;
                ed = (if \<not> (has_addrs ed \<and> lines (state ed) \<noteq> 0) then set_region_end (lines (state ed)) ed else ed)
            in (Inr (), spl0 ed)))"

definition r_read :: "'x os_scheme \<Rightarrow> string \<Rightarrow> ed_buffer \<Rightarrow> (int \<times> int) res" where
  "r_read os fn ed =
     (case pipe_name fn ed of
        Some sc \<Rightarrow> read_pipe os sc (reg_end ed) ed
      | None \<Rightarrow>
          (let (is_default, ed) =
             (if name_of ed = None then (True, set_name fn ed) else (fn = [] \<and> has_name ed, ed));
               target = (if is_default then the (name_of ed) else if fn \<noteq> [] then fn else ''/dev/null'')
           in andThen (read_file os target (reg_end ed) ed) (\<lambda>r ed.
                (Inr r, if is_binary (state ed) \<and> target = ''/dev/null'' then set_newline_appended True ed else ed))))"

definition r_cmd :: "'x os_scheme \<Rightarrow> ed_buffer \<Rightarrow> command_result" where
  "r_cmd os ed =
     (if \<not> isspace (cur (input ed)) then throw ''Command suffix unexpected'' ed
      else
        andThen (FILE_NAME (SKIP_WHITESPACE ed)) (\<lambda>fn ed.
        andThen (r_prepare ed) (\<lambda>_ ed.
        andThen (r_read os fn ed) (\<lambda>(addr, sz) ed.
          let ed = print_size {SCRIPTED, WRITE_ONLY} sz ed
          in (Inr {}, if addr \<noteq> 0 \<and> addr \<noteq> lines (state ed) then set_is_modified True ed else ed)))))"

text \<open>The file written and whether it is one that the user named\<close>

definition w_target :: "string \<Rightarrow> ed_buffer \<Rightarrow> (string \<times> bool) \<times> ed_buffer" where
  "w_target fn ed =
     (let (is_default, ed) =
        (if name_of ed = None \<and> fn \<noteq> [] then (True, set_name fn ed) else (fn = [] \<and> has_name ed, ed))
      in ((if is_default then (the (name_of ed), True) else if fn \<noteq> [] then (fn, True) else (''/dev/null'', False)), ed))"

definition w_write :: "'x os_scheme \<Rightarrow> char \<Rightarrow> string \<Rightarrow> ed_buffer \<Rightarrow> int res" where
  "w_write os c fn ed =
     (case pipe_name fn ed of
        Some sc \<Rightarrow> andThen (write_pipe os sc (reg_start ed) (reg_end ed) ed) (\<lambda>(_, sz) ed. (Inr sz, ed))
      | None \<Rightarrow>
          (let ((target, named), ed) = w_target fn ed;
               mode = (if named \<and> c = CHR ''w'' then CHR ''w'' else CHR ''a'')
           in andThen (write_file target (reg_start ed) (reg_end ed) mode ed) (\<lambda>(addr, sz) ed.
                (Inr sz, if addr = lines (state ed) \<and> named then reset_exit_status (set_is_modified False ed) else ed))))"

definition w_cmd :: "'x os_scheme \<Rightarrow> char \<Rightarrow> ed_buffer \<Rightarrow> command_result" where
  "w_cmd os c ed =
     andThen (valid_range_or_empty 1 (lines (state ed)) ed) (\<lambda>_ ed.
       if POSIXLY_CORRECT \<in> opt (exec ed) \<and> \<not> isspace (cur (input ed)) then throw ''Command suffix unexpected'' ed
       else
         let q = (cur (input ed) = CHR ''q'');
             ed = (if q then advance ed else ed)
         in if \<not> isspace (cur (input ed)) then throw ''Command suffix unexpected'' ed
            else
              andThen (FILE_NAME (SKIP_WHITESPACE ed)) (\<lambda>fn ed.
              andThen (w_write os c fn ed) (\<lambda>sz ed.
                let ed = print_size {SCRIPTED} sz ed
                in if \<not> q then (Inr {}, ed)
                   else (Inl (if is_modified (state ed) \<and> SCRIPTED \<notin> opt (exec ed) then EMOD else EOF), ed))))"

section \<open>Substitution\<close>

definition SHORT_FORM :: string where
  "SHORT_FORM = ''^r?'' @ [REVERSE_SOLIDUS] @ ''$?([-+]?[0-9])*g?([-+]?[0-9])*r?p?$''"

text \<open>Whether the rest of the input but its last character is a list of modifiers; true as well when the
  library does not compile the pattern.\<close>

definition is_short_form_substitution :: "'x regex_lib_scheme \<Rightarrow> ed_buffer \<Rightarrow> bool \<times> ed_buffer" where
  "is_short_form_substitution lib ed =
     (case re_compile lib SHORT_FORM True of
        Inl msg \<Rightarrow> (True, set_err msg ed)
      | Inr nsub \<Rightarrow>
          (re_matches lib \<lparr>re_id = 0, re_pattern = SHORT_FORM, re_extended = True, re_nsub = nsub\<rparr>
             (butlast (cstr (input ed))), ed))"

definition toggle_modifiers :: "subst_args \<Rightarrow> ed_buffer \<Rightarrow> subst_args" where
  "toggle_modifiers a ed =
     (if global (exec ed) = {} \<or> first_pass (exec ed) \<or> GLBI \<in> global (exec ed) then
        let a = (if TGSG \<in> a_sgpr a then a\<lparr>a_f := toggle GSUB (a_f a)\<rparr> else a)
        in if TGSP \<in> a_sgpr a then
             (if a_io a = {} then a\<lparr>a_io := {PRNT}\<rparr> else a\<lparr>a_f := toggle PRSW (a_f a)\<rparr>)
           else a
      else a)"

text \<open>The pattern and the modifiers of the command\<close>

definition s_parse :: "'x regex_lib_scheme \<Rightarrow> ed_buffer \<Rightarrow> (regex option \<times> subst_args) res" where
  "s_parse lib ed =
     (let (lhs, a) = init_substitute (subst (exec ed)) in
      andThen (is_valid_range (dot (state ed)) (dot (state ed)) ed) (\<lambda>_ ed.
      andThen (case is_short_form_substitution lib ed of (b, ed) \<Rightarrow> if b then resubstitute a ed else (Inr a, ed)) (\<lambda>a ed.
      andThen (substitution_lhs lib lhs (a_sgpr a) ed) (\<lambda>lhs ed.
      andThen (if a_sgpr a \<noteq> {} then (Inr (toggle_modifiers a ed), ed) else substitution_rhs a ed) (\<lambda>a ed.
      andThen (COMMAND_SUFFIX (a_io a) ed) (\<lambda>f ed. (Inr (lhs, a\<lparr>a_io := f\<rparr>), ed)))))))"

definition s_cmd :: "'x regex_lib_scheme \<Rightarrow> ed_buffer \<Rightarrow> command_result" where
  "s_cmd lib ed =
     andThen (s_parse lib ed) (\<lambda>(lhs, a) ed.
     andThen (start_undo ed) (\<lambda>_ ed.
       let ed = subst_update' (save_substitute lhs a) ed in
       case lhs of
         None \<Rightarrow> (Inl FATAL, ed)
       | Some re \<Rightarrow>
           andThen (substitute_lines lib (reg_start ed) (reg_end ed) re a ed) (\<lambda>_ ed.
             let ed = set_dio_f (a_io a) ed
             in if a_io a \<noteq> {} \<and> PRSW \<notin> a_f a then no_print (display_lines (dot (state ed)) (dot (state ed)) ed)
                else (Inr {}, ed))))"

section \<open>The shell\<close>

text \<open>A filter on an empty buffer has no lines to delete.\<close>

definition filter_range :: "ed_buffer \<Rightarrow> unit res" where
  "filter_range ed =
     (let ed = (if lines (state ed) = 0
                then set_addrs (if reg_start ed = 0 \<and> reg_end ed = 0 then 0 else 1) ed else ed)
      in if lines (state ed) \<noteq> 0 \<or> has_addrs ed then
           let ed = (if reg_start ed = 0 then set_region_start 1 ed else ed);
               ed = (if reg_end ed = 0 then set_region_end 1 ed else ed)
           in is_valid_range (dot (state ed)) (dot (state ed)) ed
         else (Inr (), ed))"

definition shell_cmd :: "'x os_scheme \<Rightarrow> ed_buffer \<Rightarrow> command_result" where
  "shell_cmd os ed =
     andThen (FILE_NAME (set_input (CHR ''!'' # input ed) ed)) (\<lambda>fn ed.
       let ed = exec_update (err_update (\<lambda>_. None)) ed in
       if \<not> has_addrs ed then
         no_print (case system_shell os (drop 1 fn) ed of (r, ed) \<Rightarrow> (r, shell_prompt ed))
       else if posix_or_traditional ed then throw ''Address unexpected'' ed
       else
         andThen (filter_range ed) (\<lambda>_ ed.
         andThen (start_undo ed) (\<lambda>_ ed.
         andThen (filter_lines os (reg_start ed) (reg_end ed) (drop 1 fn) ed) (\<lambda>_ ed.
           (Inr {}, if dot (state ed) < reg_start ed then set_dot (min (lines (state ed)) (reg_start ed)) ed else ed)))))"

end
