(* ===== verification/Exec_Scroll.thy ===== *)
theory Exec_Scroll
  imports Exec_Cmds
begin

text \<open>
  The scrolling commands (\<open>exec.c\<close>: \<open>Z\<close>, \<open>z\<close>, \<open>[\<close>, \<open>]\<close>) in the configuration without the frame buffer.
  Half-page scrolling runs a command of its own: the command runner is a parameter \<open>run\<close>, which
  theory \<open>Exec\<close> instantiates with \<open>exec_command\<close>.
\<close>

abbreviation upd_display :: "(ed_display \<Rightarrow> ed_display) \<Rightarrow> ed_buffer \<Rightarrow> ed_buffer" where
  "upd_display \<equiv> display_update"

definition ULONG_MAX :: int where "ULONG_MAX = 2 ^ 64 - 1"

text \<open>\<open>STRTOUL_THROW\<close> at a digit\<close>

definition STRTOUL_THROW :: "ed_buffer \<Rightarrow> int res" where
  "STRTOUL_THROW ed =
     (let ds = takeWhile isdigit (input ed);
          ed = set_input (drop (length ds) (input ed)) ed
      in if ULONG_MAX < digits_val ds then throw ''Numerical result out of range'' ed
         else (Inr (digits_val ds), ed))"

text \<open>The window size after a scrolling command\<close>

definition window_size :: "ed_buffer \<Rightarrow> unit res" where
  "window_size ed =
     (if isdigit (cur (input ed)) then
        andThen (STRTOUL_THROW ed) (\<lambda>n ed.
          (Inr (), if 1 < n \<and> n < ROWS_MAX then upd_display (ws_row_update (\<lambda>_. n)) ed else ed))
      else (Inr (), ed))"

definition paging_suffix :: "ed_buffer \<Rightarrow> unit res" where
  "paging_suffix ed =
     andThen (window_size ed) (\<lambda>_ ed.
     andThen (display_suffix ed) (\<lambda>_ ed. (Inr (), upd_display (paging_update (\<lambda>n. n + 1)) ed)))"

abbreviation bit :: "bool \<Rightarrow> int" where "bit b \<equiv> (if b then 1 else 0)"

abbreviation no_overflow :: "ed_display \<Rightarrow> ed_display" where
  "no_overflow d \<equiv> d\<lparr>underflow := False, overflow := False\<rparr>"

definition Z_address :: "char \<Rightarrow> ed_buffer \<Rightarrow> int \<times> ed_buffer" where
  "Z_address c ed =
     (let s = state ed; d = display ed; in_global = (global (exec ed) \<noteq> {}) in
      if has_addrs ed then (dot s - bit (\<not> in_global), upd_display no_overflow ed)
      else
        let addr = (if is_paging d \<noteq> 0 then page_addr d else dot s);
            addr = addr - bit (\<not> (in_global \<or> overflow d \<or> (dio_f d \<inter> {ZHBW, ZHFW} \<noteq> {} \<and> dot s = lines s)))
        in (if is_paging d = 0 \<and> c = CHR ''Z'' \<and> addr < lines s then addr + 1 else addr, ed))"

definition Z_cmd :: "char \<Rightarrow> ed_buffer \<Rightarrow> command_result" where
  "Z_cmd c ed =
     (if posix_or_traditional ed then throw ''Unknown command'' ed
      else
        let (addr, ed) = Z_address c ed
        in andThen (is_valid_range 1 addr (set_region_start 1 ed)) (\<lambda>_ ed.
           andThen (paging_suffix ed) (\<lambda>_ ed.
             let ed = set_dio_f (insert ZBWD (dio_f (display ed))) ed
             in no_print (display_lines (max 1 (reg_end ed - ws_row (display ed) + 2)) (reg_end ed) ed))))"

definition z_address :: "char \<Rightarrow> ed_buffer \<Rightarrow> int \<times> ed_buffer" where
  "z_address c ed =
     (let ed = (if has_addrs ed then upd_display no_overflow ed else ed);
          addr = (if c = CHR ''z'' then dot (state ed) else reg_end ed);
          addr = addr + bit (\<not> (global (exec ed) \<noteq> {} \<or> underflow (display ed)))
      in (if is_paging (display ed) = 0 \<and> c = CHR ''z'' \<and> 1 < addr then addr - 1 else addr, ed))"

text \<open>The last line of the page that starts at the end of the region\<close>

definition z_last :: "char \<Rightarrow> int \<Rightarrow> ed_buffer \<Rightarrow> int \<times> ed_buffer" where
  "z_last c addr ed =
     (let n = lines (state ed); rows = ws_row (display ed) in
      if c = CHR ''z'' then
        (min n (reg_end ed + rows - 2), set_dio_f (insert ZFWD (dio_f (display ed))) ed)
      else if c = CHR ''['' \<or> c = CHR '']'' then
        (min n (reg_end ed + ((rows - 1) div 2) - 1), set_dio_f ({ZFWD, ZHFW} \<union> dio_f (display ed)) ed)
      else (addr, ed))"

definition z_cmd :: "char \<Rightarrow> ed_buffer \<Rightarrow> command_result" where
  "z_cmd c ed =
     (if POSIXLY_CORRECT \<in> opt (exec ed) then throw ''Unknown command'' ed
      else
        let (addr, ed) = z_address c ed
        in andThen (is_valid_range 1 addr (set_region_start 1 ed)) (\<lambda>_ ed.
           andThen (paging_suffix ed) (\<lambda>_ ed.
             let (addr, ed) = z_last c addr ed
             in no_print (display_lines (reg_end ed) addr ed))))"

section \<open>Half pages\<close>

text \<open>A hidden \<open>Z\<close> command of the addressed range\<close>

definition normalize_frame_buffer ::
  "'x regex_lib_scheme \<Rightarrow> (ed_buffer \<Rightarrow> command_result) \<Rightarrow> ed_buffer \<Rightarrow> unit res" where
  "normalize_frame_buffer lib run ed =
     (let modifier = input ed;
          buf = int_text (reg_start ed) @ '','' @ int_text (reg_end ed) @ ''Z'' @ cstr modifier;
          ed = upd_display (hidden_update (\<lambda>_. True)) (set_input buf ed)
      in andThen (address_range lib ed) (\<lambda>_ ed.
         andThen (run ed) (\<lambda>_ ed.
           (Inr (), set_addrs 0 (set_input modifier (upd_display (hidden_update (\<lambda>_. False)) ed))))))"

definition first_page_addr :: "ed_buffer \<Rightarrow> ed_buffer" where
  "first_page_addr ed =
     (if is_paging (display ed) = 0 \<and> page_addr (display ed) = 0
      then upd_display (page_addr_update (\<lambda>_. dot (state ed))) ed else ed)"

definition hidden_page ::
  "'x regex_lib_scheme \<Rightarrow> (ed_buffer \<Rightarrow> command_result) \<Rightarrow> char \<Rightarrow> ed_buffer \<Rightarrow> command_result" where
  "hidden_page lib run c ed =
     andThen (normalize_frame_buffer lib run ed) (\<lambda>_ ed.
       if (is_paging (display ed) = 0 \<and> reg_end ed \<le> ws_row (display ed) div 2 + 1) \<or> dot (state ed) = lines (state ed)
       then Z_cmd c (set_dio_f (insert ZHBW (dio_f (display ed))) ed)
       else z_cmd c ed)"

definition scroll_backward_half ::
  "'x regex_lib_scheme \<Rightarrow> (ed_buffer \<Rightarrow> command_result) \<Rightarrow> char \<Rightarrow> ed_buffer \<Rightarrow> command_result" where
  "scroll_backward_half lib run c ed =
     (if posix_or_traditional ed then throw ''Unknown command'' ed
      else
        let ed = first_page_addr ed; a = page_addr (display ed)
        in andThen (is_valid_range a a ed) (\<lambda>_ ed.
             let d = display ed; half = ws_row d div 2 - 1 in
             if is_paging d \<noteq> 0 \<and> half < page_addr d \<and> page_addr d < ws_row d then
               let a = min (lines (state ed)) (page_addr d + half);
                   ed = set_region a a (upd_display (page_addr_update (\<lambda>_. a)) ed)
               in Z_cmd c (set_dio_f (insert ZHBW (dio_f (display ed))) ed)
             else hidden_page lib run c ed))"

definition scroll_forward_half ::
  "'x regex_lib_scheme \<Rightarrow> (ed_buffer \<Rightarrow> command_result) \<Rightarrow> char \<Rightarrow> ed_buffer \<Rightarrow> command_result" where
  "scroll_forward_half lib run c ed =
     (if posix_or_traditional ed then throw ''Unknown command'' ed
      else if is_paging (display ed) = 0 \<or> has_addrs ed then
        let ed = first_page_addr ed; a = page_addr (display ed)
        in andThen (is_valid_range a a ed) (\<lambda>_ ed.
             let half = ws_row (display ed) div 2 - 1 in
             if has_addrs ed \<and> half < reg_end ed \<and> reg_end ed < ws_row (display ed) then
               let a = min (lines (state ed)) (reg_end ed + half);
                   ed = set_region a a (set_dot a ed)
               in Z_cmd c (set_dio_f (insert ZHBW (dio_f (display ed))) ed)
             else hidden_page lib run c ed)
      else z_cmd c ed)"

end
