(* ===== verification/Exec.thy ===== *)
theory Exec
  imports Exec_Scroll
begin

text \<open>
  The command switch (\<open>exec.c\<close>: \<open>exec_command\<close>), global commands (\<open>global.c\<close>: \<open>set_global_lines\<close>,
  \<open>exec_global\<close>) and macros (\<open>register.c\<close>: \<open>exec_macro\<close>; \<open>exec.c\<close>: \<open>macro_cmd\<close>).  A global command,
  a macro and half-page scrolling run commands of their own: their definitions take the command
  runner \<open>run\<close>, and \<open>exec_command\<close> recurs through it by its depth.  Macros nest up to
  \<open>STACK_FRAMES_MAX\<close>, a global command is not nested in another, and the hidden command of scrolling
  runs none, so that a depth of \<open>EXEC_DEPTH\<close> is enough.
\<close>

type_synonym runner = "ed_buffer \<Rightarrow> command_result"

section \<open>One command with its addresses\<close>

definition exec_one :: "'x regex_lib_scheme \<Rightarrow> runner \<Rightarrow> ed_buffer \<Rightarrow> unit res" where
  "exec_one lib run ed =
     andThen (address_range lib ed) (\<lambda>_ ed.
     andThen (run ed) (\<lambda>f ed.
       let ed = set_dio_f f ed
       in if f \<noteq> {} then display_lines (dot (state ed)) (dot (state ed)) ed else (Inr (), ed)))"

section \<open>Global commands\<close>

primrec mark_matching :: "'x regex_lib_scheme \<Rightarrow> regex \<Rightarrow> bool \<Rightarrow> nat \<Rightarrow> node \<Rightarrow> ed_buffer \<Rightarrow> unit res" where
  "mark_matching lib re want 0 lp ed = (Inr (), ed)"
| "mark_matching lib re want (Suc n) lp ed =
     andThen (get_buffer_line lp ed) (\<lambda>s ed.
       andThen (if re_matches lib re (take (ln_len (nodes (core ed) lp)) s) = want then append_global_line lp ed
                else (Inr (), ed)) (\<lambda>_ ed.
         mark_matching lib re want n (q_forw (nodes (core ed) lp)) ed))"

definition closes_pattern :: "char \<Rightarrow> string \<Rightarrow> bool" where
  "closes_pattern dc s \<longleftrightarrow>
     (if dc = REVERSE_SOLIDUS then cur s = dc \<and> peek 1 s \<noteq> dc else cur s = dc) \<and> cur s \<noteq> LINE_FEED"

definition set_global_lines :: "'x regex_lib_scheme \<Rightarrow> bool \<Rightarrow> ed_buffer \<Rightarrow> unit res" where
  "set_global_lines lib want ed =
     (let from = reg_start ed; to = reg_end ed;
          n = (if from \<noteq> 0 then to - from + 1 else 0);
          dc = cur (input ed)
      in case get_compiled_regex lib dc RE_SEARCH (spl1 ed) of
           (Inl _, ed) \<Rightarrow> (Inl ERR, spl0 ed)
         | (Inr re, ed) \<Rightarrow>
             (let ed = (if closes_pattern dc (input ed) then advance ed else ed);
                  (lp, ed) = get_line_node from (spl0 (reset_global_buffer ed))
              in mark_matching lib re want (nat n) lp ed))"

text \<open>The command list run on a line.  A command consumes a character of its list, or lines of the
  standard input: fuel for both.\<close>

primrec global_list :: "'x regex_lib_scheme \<Rightarrow> runner \<Rightarrow> nat \<Rightarrow> ed_buffer \<Rightarrow> unit res" where
  "global_list lib run 0 ed = (Inl FATAL, ed)"
| "global_list lib run (Suc k) ed =
     (if cur (input ed) = NUL then (Inr (), ed)
      else andThen (exec_one lib run ed) (\<lambda>_. global_list lib run k))"

definition list_fuel :: "ed_buffer \<Rightarrow> nat" where
  "list_fuel ed = 2 * (length (input ed) + line_fuel (std_in ed) ed) + 2"

abbreviation upd_gcb :: "string \<Rightarrow> ed_buffer \<Rightarrow> ed_buffer" where
  "upd_gcb s \<equiv> statics_update (gcb_update (\<lambda>_. Some s))"

abbreviation input_gcb :: "ed_buffer \<Rightarrow> ed_buffer" where
  "input_gcb ed \<equiv> set_input (case gcb (statics ed) of None \<Rightarrow> [] | Some s \<Rightarrow> s) ed"

text \<open>A command list read from the user for the line: its length, or \<open>None\<close> at the end of the input,
  which cancels the command.\<close>

definition ask_commands :: "ed_buffer \<Rightarrow> nat option res" where
  "ask_commands ed =
     andThen (display_lines (dot (state ed)) (dot (state ed)) (set_dio_f {PRNT} ed)) (\<lambda>_ ed.
       case andThen (get_stdin_line ed) (\<lambda>s ed. get_extended_line False True False (set_input s ed)) of
         (Inr s, ed) \<Rightarrow> (Inr (Some (length s)), set_input s ed)
       | (Inl FATAL, ed) \<Rightarrow> (Inl FATAL, ed)
       | (Inl _, ed) \<Rightarrow>
           (if feof (std_in ed) ed then (Inr None, clearerr (std_in ed) (set_input [] ed))
            else (Inl ERR, clearerr (std_in ed) (set_input [] ed))))"

definition next_pass :: "ed_buffer \<Rightarrow> ed_buffer" where
  "next_pass ed = exec_update (first_pass_update (\<lambda>_. False)) (input_gcb ed)"

text \<open>\<open>first_time\<close>: no command list was given yet.  \<open>None\<close>: the command was cancelled.\<close>

primrec global_loop ::
  "'x regex_lib_scheme \<Rightarrow> runner \<Rightarrow> bool \<Rightarrow> nat \<Rightarrow> bool \<Rightarrow> ed_buffer \<Rightarrow> unit option res" where
  "global_loop lib run interactive 0 first_time ed = (Inl FATAL, ed)"
| "global_loop lib run interactive (Suc k) first_time ed =
     (case next_global_line ed of
        (None, ed) \<Rightarrow> (Inr (Some ()), ed)
      | (Some lp, ed) \<Rightarrow>
          andThen (get_line_node_address (Some lp) ed) (\<lambda>addr ed.
          andThen (if interactive then ask_commands (set_dot addr ed) else (Inr (Some 0), set_dot addr ed)) (\<lambda>len ed.
            let go = (\<lambda>first_time ed.
              let ed = input_gcb ed
              in andThen (global_list lib run (list_fuel ed) ed) (\<lambda>_ ed.
                   global_loop lib run interactive k first_time (next_pass ed)))
            in case len of
                 None \<Rightarrow> (Inr None, ed)
               | Some len \<Rightarrow>
                   if \<not> interactive \<and> \<not> first_time then go False ed
                   else if len = 1 \<and> interactive then global_loop lib run interactive k first_time (next_pass ed)
                   else if len = 2 \<and> cur (input ed) = CHR ''&'' \<and> interactive then
                     (if first_time then throw ''No previous command'' ed else go False ed)
                   else go False (upd_gcb (cstr (input ed)) ed))))"

text \<open>The print flags of the command, unless it was cancelled\<close>

definition exec_global :: "'x regex_lib_scheme \<Rightarrow> runner \<Rightarrow> ed_buffer \<Rightarrow> command_result" where
  "exec_global lib run ed =
     (let interactive = (GLBI \<in> global (exec ed));
          saved_dio_f = dio_f (display ed)
      in andThen (if sp (core ed) = 0 then reset_undo_queue ed else (Inr (), ed)) (\<lambda>_ ed.
         case (if interactive then (Inr (), ed)
               else andThen (get_extended_line False True False ed) (\<lambda>s ed. (Inr (), set_input s ed))) of
           (Inl FATAL, ed) \<Rightarrow> (Inl FATAL, ed)
         | (Inl _, ed) \<Rightarrow> (Inl ERR, clearerr (std_in ed) (set_input [] ed))
         | (Inr _, ed) \<Rightarrow>
             (let ed = (if input ed = [LINE_FEED] then set_input [CHR ''p'', LINE_FEED] ed else ed);
                  ed = exec_update (first_pass_update (\<lambda>_. True)) ed
              in andThen (global_loop lib run interactive (gb_last (global_buffer (core ed)) + 1) True ed) (\<lambda>r ed.
                   (Inr (case r of Some _ \<Rightarrow> saved_dio_f | None \<Rightarrow> {}), ed)))))"

abbreviation set_global :: "ed_modifier set \<Rightarrow> ed_buffer \<Rightarrow> ed_buffer" where
  "set_global f \<equiv> exec_update (global_update (\<lambda>_. f))"

definition global_cmd :: "'x regex_lib_scheme \<Rightarrow> runner \<Rightarrow> char \<Rightarrow> ed_buffer \<Rightarrow> command_result" where
  "global_cmd lib run c ed =
     (let interactive = (c = CHR ''G'' \<or> c = CHR ''V'') in
      if global (exec ed) \<noteq> {} then throw ''Nested global command'' ed
      else
        andThen (is_valid_range 1 (lines (state ed)) ed) (\<lambda>_ ed.
        andThen (set_global_lines lib (c = CHR ''g'' \<or> c = CHR ''G'') ed) (\<lambda>_ ed.
        andThen (if interactive then display_suffix (set_global {GLBI} ed) else (Inr (), ed)) (\<lambda>_ ed.
          case exec_global lib run (set_global (insert GLBL (global (exec ed))) ed) of
            (Inl e, ed) \<Rightarrow> (Inl e, set_global {} ed)
          | (Inr f, ed) \<Rightarrow>
              (if interactive then (Inr f, set_dio_f f (set_global {} ed)) else (Inr {}, set_global {} ed))))))"

section \<open>Macros\<close>

text \<open>The lines of a macro run on an addressed line, until one fails: its status.  Fuel: the lines of
  the script.\<close>

primrec macro_body :: "'x regex_lib_scheme \<Rightarrow> runner \<Rightarrow> nat \<Rightarrow> ed_buffer \<Rightarrow> ed_command_error \<times> ed_buffer" where
  "macro_body lib run 0 ed = (FATAL, ed)"
| "macro_body lib run (Suc k) ed =
     (case get_stdin_line ed of
        (Inl FATAL, ed) \<Rightarrow> (FATAL, ed)
      | (Inl _, ed) \<Rightarrow>
          (if feof (std_in ed) ed then EOF else ERR, clearerr (std_in ed) (set_input [] ed))
      | (Inr s, ed) \<Rightarrow>
          (let ed = set_input s ed in
           if last s \<noteq> LINE_FEED then (ERR, clearerr (std_in ed) (set_err ''End-of-file unexpected'' ed))
           else case exec_one lib run ed of
                  (Inl e, ed) \<Rightarrow> (e, ed)
                | (Inr _, ed) \<Rightarrow> macro_body lib run k ed))"

text \<open>The loop over the addressed lines, \<open>n\<close> of them, with the status so far, \<open>None\<close> for 0.  A failure
  ends the lines of the macro, not the loop.\<close>

primrec macro_lines ::
  "'x regex_lib_scheme \<Rightarrow> runner \<Rightarrow> nat \<Rightarrow> int \<Rightarrow> ed_command_error option \<Rightarrow> ed_buffer \<Rightarrow> ed_command_error option \<times> ed_buffer" where
  "macro_lines lib run 0 addr status ed = (status, ed)"
| "macro_lines lib run (Suc n) addr status ed =
     (if \<not> addr \<le> lines (state ed) then (status, ed)
      else if sp (core ed) = 0 then (Some FATAL, ed)
      else
        case fseek (std_in ed) (\<lambda>_. sf_size (stack_frame (core ed) (sp (core ed) - 1))) ed of
          (False, ed) \<Rightarrow> (Some ERR, clearerr (std_in ed) (set_err ''File seek error'' ed))
        | (True, ed) \<Rightarrow>
            (case macro_body lib run (line_fuel (std_in ed) ed + 1) (set_dot addr ed) of
               (e, ed) \<Rightarrow> if e = FATAL then (Some FATAL, ed) else macro_lines lib run n (addr + 1) (Some e) ed))"

definition exec_macro :: "'x os_scheme \<Rightarrow> runner \<Rightarrow> ed_buffer \<Rightarrow> unit res" where
  "exec_macro os run ed =
     (let start = reg_start ed; e = reg_end ed in
      andThen (start_undo ed) (\<lambda>_ ed.
        case (case script_from_register (os_seekable os) ed of
                (Inl e, ed) \<Rightarrow> (Some e, ed)
              | (Inr _, ed) \<Rightarrow>
                  if exec_fp (exec ed) = None then (None, ed) else macro_lines os run (nat (e - start + 1)) start None ed) of
          (None, ed) \<Rightarrow> pop_stack_frame ed
        | (Some EOF, ed) \<Rightarrow> pop_stack_frame ed
        | (Some FATAL, ed) \<Rightarrow> (Inl FATAL, ed)
        | (Some e, ed) \<Rightarrow> (case unwind_stack_frame e ed of (e, ed) \<Rightarrow> (Inl e, ed))))"

abbreviation set_macro_in_global :: "ed_modifier set \<Rightarrow> ed_buffer \<Rightarrow> ed_buffer" where
  "set_macro_in_global f \<equiv> exec_update (macro_in_global_update (\<lambda>_. f))"

text \<open>The rest of the command list of a global command is kept while its macro runs.\<close>

definition save_global_context :: "ed_buffer \<Rightarrow> ed_buffer" where
  "save_global_context ed =
     (if macro_in_global (exec ed) = {} \<and> global (exec ed) \<noteq> {} then
        statics_update (saved_input_update (\<lambda>_. Some (cstr (input ed)))) (set_macro_in_global (global (exec ed)) ed)
      else ed)"

abbreviation restore_input :: "ed_buffer \<Rightarrow> ed_buffer" where
  "restore_input ed \<equiv> set_input (case saved_input (statics ed) of None \<Rightarrow> [] | Some s \<Rightarrow> s) ed"

definition macro_cmd :: "'x os_scheme \<Rightarrow> runner \<Rightarrow> ed_buffer \<Rightarrow> command_result" where
  "macro_cmd os run ed =
     andThen (valid_range_or_empty (dot (state ed)) (dot (state ed)) ed) (\<lambda>_ ed.
     andThen (if io_flags ed = {} then GET_INPUT_REGISTER ed else (Inr (), ed)) (\<lambda>_ ed.
     andThen (COMMAND_SUFFIX {} ed) (\<lambda>io_f ed.
       case exec_macro os run (save_global_context ed) of
         (Inl e, ed) \<Rightarrow> (Inl e, restore_input (set_macro_in_global {} ed))
       | (Inr _, ed) \<Rightarrow>
           (let ed = (if macro_in_global (exec ed) \<noteq> {}
                      then restore_input (set_macro_in_global {} (set_global (macro_in_global (exec ed)) ed)) else ed);
                ed = set_dio_f io_f ed
            in if io_f \<noteq> {} then no_print (display_lines (dot (state ed)) (dot (state ed)) ed) else (Inr {}, ed)))))"

section \<open>The command switch\<close>

definition ED_KEY_FIRST :: nat where "ED_KEY_FIRST = 0x3c"
definition ED_KEY_MASK :: nat where "ED_KEY_MASK = 0x3f"

text \<open>The table by keys; an index is a key less \<open>ED_KEY_FIRST\<close>.\<close>

definition ed_cmd :: "'x os_scheme \<Rightarrow> runner \<Rightarrow> char \<Rightarrow> runner list" where
  "ed_cmd os run c =
     [invalid_cmd os, address_cmd, invalid_cmd os, invalid_cmd os, macro_cmd os run, invalid_cmd os, invalid_cmd os,
      invalid_cmd os, invalid_cmd os, E_cmd os, invalid_cmd os, global_cmd os run c, H_cmd, invalid_cmd os, invalid_cmd os,
      invalid_cmd os, invalid_cmd os, invalid_cmd os, invalid_cmd os, invalid_cmd os, P_cmd, q_cmd c, invalid_cmd os,
      invalid_cmd os, invalid_cmd os, invalid_cmd os, global_cmd os run c, w_cmd os c, invalid_cmd os, invalid_cmd os,
      Z_cmd c, scroll_backward_half os run c, invalid_cmd os, scroll_forward_half os run c, invalid_cmd os, invalid_cmd os,
      invalid_cmd os, a_cmd, invalid_cmd os, c_cmd, d_cmd, e_cmd os, f_cmd, global_cmd os run c, h_cmd, i_cmd, j_cmd,
      k_cmd, l_cmd, m_cmd os, n_cmd, invalid_cmd os, p_cmd, q_cmd c, r_cmd os, s_cmd os, t_cmd os, u_cmd,
      global_cmd os run c, w_cmd os c, invalid_cmd os, invalid_cmd os, z_cmd c, invalid_cmd os]"

text \<open>A character is signed: the bytes from 128 on are less than \<open>ED_KEY_FIRST\<close>.\<close>

definition dispatch :: "'x os_scheme \<Rightarrow> runner \<Rightarrow> char \<Rightarrow> runner" where
  "dispatch os run c =
     (if c = LINE_FEED then newline_cmd
      else if c = CHR ''!'' then shell_cmd os
      else if c = CHR ''#'' then comment_cmd
      else if ED_KEY_FIRST \<le> byte c \<and> byte c < 128
      then ed_cmd os run c ! ((byte c - ED_KEY_FIRST) mod (ED_KEY_MASK + 1))
      else invalid_cmd os)"

text \<open>The prefix of a command: an input register.  \<open>False\<close> when it is not accepted.\<close>

definition command_prefix :: "ed_buffer \<Rightarrow> bool res" where
  "command_prefix ed =
     (let ed = SKIP_WHITESPACE ed in
      if cur (input ed) \<noteq> CHR ''<'' then (Inr True, ed)
      else if posix_or_traditional ed then (Inr False, ed)
      else andThen (GET_INPUT_REGISTER (advance ed)) (\<lambda>_ ed. (Inr True, SKIP_WHITESPACE ed)))"

definition takes_prefix :: "char \<Rightarrow> bool" where
  "takes_prefix c \<longleftrightarrow> c = CHR ''m'' \<or> c = CHR ''t'' \<or> c = CHR ''@''"

definition exec_key :: "'x os_scheme \<Rightarrow> runner \<Rightarrow> ed_buffer \<Rightarrow> command_result" where
  "exec_key os run ed =
     (let c = cur (input ed); ed = advance ed in
      if takes_prefix c \<and> posix_or_traditional ed then invalid_cmd os ed
      else if \<not> takes_prefix c \<and> io_flags ed \<noteq> {} then throw ''Command prefix unexpected'' ed
      else dispatch os run c ed)"

definition reset_command :: "ed_buffer \<Rightarrow> ed_buffer" where
  "reset_command ed =
     upd_display (\<lambda>d. d\<lparr>is_paging := paging d, paging := 0, dio_f := {}\<rparr>)
       (upd_regbuf (rio_f_update (\<lambda>_. {})) (file_info_update (is_glob_update (\<lambda>_. False)) ed))"

primrec exec_command :: "'x os_scheme \<Rightarrow> nat \<Rightarrow> runner" where
  "exec_command os 0 = (\<lambda>ed. (Inl FATAL, ed))"
| "exec_command os (Suc k) = (\<lambda>ed.
     andThen (command_prefix (reset_command ed)) (\<lambda>ok ed.
       if \<not> ok then invalid_cmd os ed else exec_key os (exec_command os k) ed))"

definition EXEC_DEPTH :: nat where
  "EXEC_DEPTH = STACK_FRAMES_MAX + 3"

end
