(* ===== verification/Frames.thy ===== *)
theory Frames
  imports Exec
begin

text \<open>
  What the operations below the commands leave alone: the options but those that commands and scripts
  switch, the file name, the files and the oracle of the library calls.
  \<open>kept v\<close> says that they are \<open>v\<close>; there is a lemma for each operation, collected in \<open>kept_intros\<close>.
\<close>

type_synonym environment = "ed_flag set \<times> string option \<times> (string \<Rightarrow> string option) \<times> (nat \<Rightarrow> bool)"

definition env_of :: "ed_buffer \<Rightarrow> environment" where
  "env_of ed = (opt (exec ed) - {EXIT_ON_ERROR, VERBOSE, PROMPT}, file_name_of (file_info ed), files ed, sys_ok ed)"

definition kept :: "environment \<Rightarrow> ed_buffer \<Rightarrow> bool" where
  "kept v ed \<longleftrightarrow> env_of ed = v"

named_theorems kept_intros "operations that keep the options, the file name and the files"

lemmas kept_defs = kept_def env_of_def

lemma kept_updates [simp]:
  "kept v (state_update f1 ed) = kept v ed" "kept v (state1_update f1 ed) = kept v ed" "kept v (core_update f2 ed) = kept v ed"
  "kept v (display_update f3 ed) = kept v ed" "kept v (input_update f4 ed) = kept v ed" "kept v (statics_update f5 ed) = kept v ed"
  "kept v (streams_update f6 ed) = kept v ed" "kept v (next_stream_update f7 ed) = kept v ed" "kept v (std_in_update f8 ed) = kept v ed"
  "kept v (std_out_update f9 ed) = kept v ed" "kept v (std_err_update f9 ed) = kept v ed" "kept v (mutex_update f10 ed) = kept v ed"
  "kept v (sys_n_update f11 ed) = kept v ed" "kept v (file_info_update (is_glob_update f12) ed) = kept v ed"
  by (simp_all add: kept_defs)

lemma kept_exec [simp]:
  "kept v (exec_update (subst_update g1) ed) = kept v ed" "kept v (exec_update (region_update g2) ed) = kept v ed"
  "kept v (exec_update (exec_fp_update g3) ed) = kept v ed" "kept v (exec_update (err_update g4) ed) = kept v ed"
  "kept v (exec_update (line_no_update g5) ed) = kept v ed" "kept v (exec_update (first_pass_update g6) ed) = kept v ed"
  "kept v (exec_update (global_update g7) ed) = kept v ed" "kept v (exec_update (macro_in_global_update g7) ed) = kept v ed"
  "kept v (exec_update (exit_status_update g8) ed) = kept v ed" "kept v (exec_update (script_pathname_update g9) ed) = kept v ed"
  "kept v (exec_update (region_update g2 \<circ> region_update g2') ed) = kept v ed"
  "kept v (exec_update (\<lambda>x. x\<lparr>first_pass := b, global := g, macro_in_global := g'\<rparr>) ed) = kept v ed"
  by (simp_all add: kept_defs)

lemma kept_opt [simp]:
  "f \<in> {EXIT_ON_ERROR, VERBOSE, PROMPT} \<Longrightarrow> kept v (exec_update (opt_update (insert f)) ed) = kept v ed"
  "f \<in> {EXIT_ON_ERROR, VERBOSE, PROMPT} \<Longrightarrow> kept v (exec_update (opt_update (toggle f)) ed) = kept v ed"
  by (auto simp: kept_defs toggle_def)

lemma kept_small [simp]:
  "kept v (spl1 ed) = kept v ed" "kept v (spl0 ed) = kept v ed" "kept v (upd_stream fp f ed) = kept v ed"
  "kept v (snd (sys_call ed)) = kept v ed" "kept v (clearerr fp ed) = kept v ed" "kept v (print s ed) = kept v ed"
  "kept v (puts s ed) = kept v ed" "kept v (print_err s ed) = kept v ed" "kept v (snd (throw msg ed)) = kept v ed"
  "kept v (cache_node lp n ed) = kept v ed"
  by (simp_all add: spl1_def spl0_def upd_stream_def sys_call_def clearerr_def print_def puts_def print_err_def throw_def cache_node_def)

lemmas kept_andThen = andThen_keeps [where I = "kept v" for v]

lemma kept_case_prod:
  "kept v (snd r) \<Longrightarrow> (\<And>x e. kept v e \<Longrightarrow> kept v (snd (g x e))) \<Longrightarrow> kept v (snd (case r of (x, e) \<Rightarrow> g x e))"
  "kept v (snd (snd t)) \<Longrightarrow> (\<And>x y e. kept v e \<Longrightarrow> kept v (snd (h x y e))) \<Longrightarrow> kept v (snd (case t of (x, y, e) \<Rightarrow> h x y e))"
  "kept v (snd r) \<Longrightarrow> (\<And>x e. kept v e \<Longrightarrow> kept v (snd (snd (k x e)))) \<Longrightarrow> kept v (snd (snd (case r of (x, e) \<Rightarrow> k x e)))"
  by (simp_all add: case_prod_beta)

lemma kept_case_sum:
  "(\<And>x. kept v (snd (f x))) \<Longrightarrow> (\<And>y. kept v (snd (g y))) \<Longrightarrow> kept v (snd (case s of Inl x \<Rightarrow> f x | Inr y \<Rightarrow> g y))"
  by (cases s) auto

lemma kept_if: "kept v (if b then x else y) = (if b then kept v x else kept v y)"
  by simp

lemma kept_snd_if: "kept v (snd (if b then x else y)) = (if b then kept v (snd x) else kept v (snd y))"
  by simp

lemma kept_fold: "(\<And>x e. kept v e \<Longrightarrow> kept v (f x e)) \<Longrightarrow> kept v ed \<Longrightarrow> kept v (fold f xs ed)"
  by (induction xs arbitrary: ed) auto

lemmas kept_splits = option.split sum.split bool.split list.split ed_command_error.split search_type.split
  getc_result.split subst_outcome.split expansion.split

section \<open>Line nodes, the buffer file and undo\<close>

lemma kept_get_line_node [kept_intros]: "kept v ed \<Longrightarrow> kept v (snd (get_line_node n ed))"
  by (auto simp: get_line_node_def Let_def case_prod_beta kept_intros intro!: kept_andThen split: kept_splits)

lemma kept_append_line_node [kept_intros]: "kept v ed \<Longrightarrow> kept v (snd (append_line_node a b c ed))"
  by (auto simp: append_line_node_def Let_def case_prod_beta kept_intros intro!: kept_andThen split: kept_splits)

lemma kept_get_line_node_address [kept_intros]: "kept v ed \<Longrightarrow> kept v (snd (get_line_node_address p ed))"
  by (auto simp: get_line_node_address_def Let_def case_prod_beta kept_intros intro!: kept_andThen split: kept_splits)

lemma kept_fseek [kept_intros]: "kept v ed \<Longrightarrow> kept v (snd (fseek fp f ed))"
  by (auto simp: fseek_def Let_def case_prod_beta kept_intros intro!: kept_andThen split: kept_splits)

lemma kept_get_buffer_line [kept_intros]: "kept v ed \<Longrightarrow> kept v (snd (get_buffer_line lp ed))"
  by (auto simp: get_buffer_line_def Let_def case_prod_beta kept_intros intro!: kept_andThen split: kept_splits)

lemma kept_seek_end [kept_intros]: "kept v ed \<Longrightarrow> kept v (snd (seek_end ed))"
  by (auto simp: seek_end_def Let_def case_prod_beta kept_intros intro!: kept_andThen split: kept_splits)

lemma kept_put_buffer_line [kept_intros]: "kept v ed \<Longrightarrow> kept v (snd (put_buffer_line s n ed))"
  by (auto simp: put_buffer_line_def Let_def case_prod_beta kept_intros intro!: kept_andThen split: kept_splits)

lemma kept_mark_line_node [kept_intros]: "kept v ed \<Longrightarrow> kept v (snd (mark_line_node lp c ed))"
  by (auto simp: mark_line_node_def Let_def case_prod_beta kept_intros intro!: kept_andThen split: kept_splits)

lemma kept_get_marked_node_address [kept_intros]: "kept v ed \<Longrightarrow> kept v (snd (get_marked_node_address c ed))"
  by (auto simp: get_marked_node_address_def Let_def case_prod_beta kept_intros intro!: kept_andThen split: kept_splits)

lemma kept_transfer_marks [kept_intros]: "kept v ed \<Longrightarrow> kept v (transfer_marks mp lp ed)"
  unfolding transfer_marks_def by (rule kept_fold) (auto simp: kept_intros)

lemma kept_unmark_slot [kept_intros]: "kept v ed \<Longrightarrow> kept v (unmark_slot lp i ed)"
  by (auto simp: unmark_slot_def Let_def case_prod_beta kept_intros intro!: kept_andThen split: kept_splits)

lemma kept_unmark_line_node [kept_intros]: "kept v ed \<Longrightarrow> kept v (unmark_line_node lp ed)"
  unfolding unmark_line_node_def by (rule kept_fold) (auto simp: kept_intros)

lemma kept_reset_global_buffer [kept_intros]: "kept v ed \<Longrightarrow> kept v (reset_global_buffer ed)"
  by (auto simp: reset_global_buffer_def Let_def case_prod_beta kept_intros intro!: kept_andThen split: kept_splits)

lemma kept_append_undo_node [kept_intros]: "kept v ed \<Longrightarrow> kept v (snd (append_undo_node ty a b ed))"
  by (auto simp: append_undo_node_def Let_def case_prod_beta kept_intros intro!: kept_andThen split: kept_splits)

lemma kept_APPEND_UNDO_NODE [kept_intros]: "kept v ed \<Longrightarrow> kept v (snd (APPEND_UNDO_NODE lp up a ed))"
  by (auto simp: APPEND_UNDO_NODE_def Let_def case_prod_beta kept_intros intro!: kept_andThen split: kept_splits)

lemma kept_undo_last_command [kept_intros]: "kept v ed \<Longrightarrow> kept v (snd (undo_last_command ed))"
  by (auto simp: undo_last_command_def Let_def case_prod_beta kept_intros intro!: kept_andThen split: kept_splits)

lemma kept_free_segment: "free_segment k lp ep ed = Some e \<Longrightarrow> kept v ed \<Longrightarrow> kept v e"
  by (induction k lp ep ed rule: free_segment.induct) (auto simp: kept_intros split: if_splits)

lemma kept_reset_undo_loop: "reset_undo_loop ups ed = Some e \<Longrightarrow> kept v ed \<Longrightarrow> kept v e"
  by (induction ups ed rule: reset_undo_loop.induct) (auto simp: bind_eq_Some_conv dest: kept_free_segment split: ed_undo_op.splits if_splits)

lemma kept_reset_undo_queue [kept_intros]: "kept v ed \<Longrightarrow> kept v (snd (reset_undo_queue ed))"
  by (auto dest!: kept_reset_undo_loop simp: reset_undo_queue_def Let_def case_prod_beta kept_intros intro!: kept_andThen split: kept_splits)

lemma kept_append_global_line [kept_intros]: "kept v ed \<Longrightarrow> kept v (snd (append_global_line lp ed))"
  by (auto simp: append_global_line_def Let_def case_prod_beta kept_intros intro!: kept_andThen split: kept_splits)

lemma kept_clear_global_lines [kept_intros]: "kept v ed \<Longrightarrow> kept v (snd (clear_global_lines np mp c ed))"
  by (auto simp: clear_global_lines_def Let_def case_prod_beta kept_intros intro!: kept_andThen split: kept_splits)

lemma kept_next_global_line [kept_intros]: "kept v ed \<Longrightarrow> kept v (snd (next_global_line ed))"
  by (auto simp: next_global_line_def Let_def case_prod_beta kept_intros intro!: kept_andThen split: kept_splits)

section \<open>Line commands\<close>

lemma kept_copy_loop [kept_intros]: "kept v ed \<Longrightarrow> kept v (snd (copy_loop k lp a up ed))"
  by (induction k arbitrary: lp a up ed)
    (auto simp: Let_def case_prod_beta kept_intros intro!: kept_andThen split: kept_splits)

lemma kept_copy_lines [kept_intros]: "kept v ed \<Longrightarrow> kept v (snd (copy_lines a b c ed))"
  by (auto simp: copy_lines_def Let_def case_prod_beta kept_intros intro!: kept_andThen split: kept_splits)

lemma kept_delete_lines [kept_intros]: "kept v ed \<Longrightarrow> kept v (snd (delete_lines a b ed))"
  by (auto simp: delete_lines_def Let_def case_prod_beta kept_intros intro!: kept_andThen del: equalityI split: kept_splits)

lemma kept_join_loop [kept_intros]: "kept v ed \<Longrightarrow> kept v (snd (join_loop k lp s ed))"
  by (induction k arbitrary: lp s ed)
    (auto simp: Let_def case_prod_beta kept_intros intro!: kept_andThen split: kept_splits)

lemma kept_join_lines [kept_intros]: "kept v ed \<Longrightarrow> kept v (snd (join_lines a b ed))"
  by (auto simp: join_lines_def Let_def case_prod_beta kept_intros intro!: kept_andThen split: kept_splits)

lemma kept_move_lines [kept_intros]: "kept v ed \<Longrightarrow> kept v (snd (move_lines a b c ed))"
  unfolding move_lines_def Let_def
  by (auto simp: kept_intros intro!: kept_andThen kept_case_prod kept_case_sum del: equalityI)

section \<open>Parsing\<close>

lemma kept_regular_expression [kept_intros]: "kept v ed \<Longrightarrow> kept v (snd (regular_expression dc ed))"
  by (auto simp: regular_expression_def Let_def case_prod_beta kept_intros intro!: kept_andThen split: kept_splits)

lemma kept_STRTOLL_THROW [kept_intros]: "kept v ed \<Longrightarrow> kept v (snd (STRTOLL_THROW ed))"
  by (auto simp: STRTOLL_THROW_def Let_def case_prod_beta kept_intros intro!: kept_andThen split: kept_splits)

lemma kept_previous_pattern [kept_intros]: "kept v ed \<Longrightarrow> kept v (snd (previous_pattern dc ty ed))"
  by (auto simp: previous_pattern_def Let_def case_prod_beta kept_intros intro!: kept_andThen split: kept_splits)

lemma kept_free_regex [kept_intros]: "kept v ed \<Longrightarrow> kept v (free_regex a b ed)"
  by (auto simp: free_regex_def Let_def case_prod_beta kept_intros intro!: kept_andThen split: kept_splits)

lemma kept_keep_regex [kept_intros]: "kept v ed \<Longrightarrow> kept v (keep_regex ty re ed)"
  by (auto simp: keep_regex_def Let_def case_prod_beta kept_intros intro!: kept_andThen split: kept_splits)

lemma kept_get_compiled_regex [kept_intros]: "kept v ed \<Longrightarrow> kept v (snd (get_compiled_regex lib dc ty ed))"
  by (auto simp: get_compiled_regex_def Let_def case_prod_beta kept_intros intro!: kept_andThen split: kept_splits)

lemma kept_search_loop [kept_intros]: "kept v ed \<Longrightarrow> kept v (snd (search_loop lib re dir k a ed))"
  by (induction k arbitrary: re dir a ed)
    (auto simp: Let_def case_prod_beta kept_intros intro!: kept_andThen split: kept_splits)

lemma kept_get_matching_node_address [kept_intros]: "kept v ed \<Longrightarrow> kept v (snd (get_matching_node_address lib re dir ed))"
  by (auto simp: get_matching_node_address_def Let_def case_prod_beta kept_intros intro!: kept_andThen split: kept_splits)

lemma kept_SKIP_WHITESPACE [kept_intros]: "kept v ed \<Longrightarrow> kept v (SKIP_WHITESPACE ed)"
  by (auto simp: SKIP_WHITESPACE_def Let_def case_prod_beta kept_intros intro!: kept_andThen split: kept_splits)

lemma kept_check_address_bounds [kept_intros]: "kept v ed \<Longrightarrow> kept v (snd (check_address_bounds a ed))"
  by (auto simp: check_address_bounds_def Let_def case_prod_beta kept_intros intro!: kept_andThen split: kept_splits)

lemma kept_signed_offset [kept_intros]: "kept v ed \<Longrightarrow> kept v (snd (signed_offset ed))"
  by (auto simp: signed_offset_def Let_def case_prod_beta kept_intros intro!: kept_andThen split: kept_splits)

lemma kept_offset_loop [kept_intros]: "kept v ed \<Longrightarrow> kept v (snd (offset_loop k a ed))"
  by (induction k arbitrary: a ed)
    (auto simp: Let_def case_prod_beta kept_intros intro!: kept_andThen split: kept_splits)

lemma kept_address_offset [kept_intros]: "kept v ed \<Longrightarrow> kept v (snd (address_offset a ed))"
  by (auto simp: address_offset_def Let_def case_prod_beta kept_intros intro!: kept_andThen split: kept_splits)

lemma kept_line_address [kept_intros]: "kept v ed \<Longrightarrow> kept v (snd (line_address lib a ed))"
  by (auto simp: line_address_def Let_def case_prod_beta kept_intros intro!: kept_andThen split: kept_splits)

lemma kept_next_address [kept_intros]: "kept v ed \<Longrightarrow> kept v (snd (next_address lib a ed))"
  by (auto simp: next_address_def Let_def case_prod_beta kept_intros intro!: kept_andThen split: kept_splits)

lemma kept_range_loop [kept_intros]: "kept v ed \<Longrightarrow> kept v (snd (range_loop lib k b x ed))"
  by (induction k arbitrary: b x ed)
    (auto simp: Let_def case_prod_beta kept_intros intro!: kept_andThen split: kept_splits)

lemma kept_set_range [kept_intros]: "kept v ed \<Longrightarrow> kept v (snd (set_range a b c ed))"
  by (auto simp: set_range_def Let_def case_prod_beta kept_intros intro!: kept_andThen split: kept_splits)

lemma kept_address_range [kept_intros]: "kept v ed \<Longrightarrow> kept v (snd (address_range lib ed))"
  by (auto simp: address_range_def Let_def case_prod_beta kept_intros intro!: kept_andThen split: kept_splits)

section \<open>Streams\<close>

lemma kept_getc [kept_intros]: "kept v ed \<Longrightarrow> kept v (snd (getc fp ed))"
  by (auto simp: getc_def Let_def case_prod_beta kept_intros intro!: kept_andThen split: kept_splits)

lemma kept_get_chars [kept_intros]: "kept v ed \<Longrightarrow> kept v (snd (get_chars k fp tb ed))"
  by (induction k arbitrary: fp tb ed)
    (auto simp: Let_def case_prod_beta kept_intros intro!: kept_andThen split: kept_splits)

lemma kept_get_stream_line [kept_intros]: "kept v ed \<Longrightarrow> kept v (snd (get_stream_line fp ed))"
  by (auto simp: get_stream_line_def Let_def case_prod_beta kept_intros intro!: kept_andThen split: kept_splits)

lemma kept_get_stdin_line [kept_intros]: "kept v ed \<Longrightarrow> kept v (snd (get_stdin_line ed))"
  by (auto simp: get_stdin_line_def Let_def case_prod_beta kept_intros intro!: kept_andThen split: kept_splits)

lemma kept_extend_loop [kept_intros]: "kept v ed \<Longrightarrow> kept v (snd (extend_loop k a b xl p ed))"
  by (induction k arbitrary: a b xl p ed)
    (auto simp: Let_def case_prod_beta kept_intros intro!: kept_andThen split: kept_splits)

lemma kept_get_extended_line [kept_intros]: "kept v ed \<Longrightarrow> kept v (snd (get_extended_line a b c ed))"
  by (auto simp: get_extended_line_def Let_def case_prod_beta kept_intros intro!: kept_andThen split: kept_splits)

lemma kept_file_name [kept_intros]: "kept v ed \<Longrightarrow> kept v (snd (file_name ed))"
  by (auto simp: file_name_def Let_def case_prod_beta kept_intros intro!: kept_andThen split: kept_splits)

lemma kept_PUT_BUFFER_LINE [kept_intros]: "kept v ed \<Longrightarrow> kept v (snd (PUT_BUFFER_LINE lp tb up ed))"
  by (auto simp: PUT_BUFFER_LINE_def Let_def case_prod_beta kept_intros intro!: kept_andThen split: kept_splits)

lemma kept_read_loop [kept_intros]: "kept v ed \<Longrightarrow> kept v (snd (read_loop k fp lp up sz ed))"
  by (induction k arbitrary: fp lp up sz ed)
    (auto simp: Let_def case_prod_beta kept_intros intro!: kept_andThen split: kept_splits)

lemma kept_read_finish [kept_intros]: "kept v ed \<Longrightarrow> kept v (snd (read_finish b sz ed))"
  by (auto simp: read_finish_def Let_def case_prod_beta kept_intros intro!: kept_andThen split: kept_splits)

lemma kept_read_stream [kept_intros]: "kept v ed \<Longrightarrow> kept v (snd (read_stream fp a ed))"
  by (auto simp: read_stream_def Let_def case_prod_beta kept_intros intro!: kept_andThen split: kept_splits)

lemma kept_put_stream_line [kept_intros]: "kept v ed \<Longrightarrow> kept v (snd (put_stream_line fp s ed))"
  by (induction s arbitrary: fp ed)
    (auto simp: Let_def case_prod_beta kept_intros intro!: kept_andThen split: kept_splits)

lemma kept_write_loop [kept_intros]: "kept v ed \<Longrightarrow> kept v (snd (write_loop k fp lp sz ed))"
  by (induction k arbitrary: fp lp sz ed)
    (auto simp: Let_def case_prod_beta kept_intros intro!: kept_andThen split: kept_splits)

lemma kept_write_stream [kept_intros]: "kept v ed \<Longrightarrow> kept v (snd (write_stream fp lp n ed))"
  by (auto simp: write_stream_def Let_def case_prod_beta kept_intros intro!: kept_andThen split: kept_splits)

lemma kept_copy_chunks [kept_intros]: "kept v ed \<Longrightarrow> kept v (snd (copy_chunks k a b sz c ed))"
  by (induction k arbitrary: a b sz c ed)
    (auto simp: Let_def case_prod_beta kept_intros intro!: kept_andThen split: kept_splits)

lemma kept_append_stream [kept_intros]: "kept v ed \<Longrightarrow> kept v (snd (append_stream a b ed))"
  by (auto simp: append_stream_def Let_def case_prod_beta kept_intros intro!: kept_andThen split: kept_splits)

lemma kept_create_disk_buffer [kept_intros]: "kept v ed \<Longrightarrow> kept v (snd (create_disk_buffer ed))"
  by (auto simp: create_disk_buffer_def Let_def case_prod_beta kept_intros intro!: kept_andThen split: kept_splits)

lemma kept_init_core_buffer [kept_intros]: "kept v ed \<Longrightarrow> kept v (snd (init_core_buffer ed))"
  by (auto simp: init_core_buffer_def Let_def case_prod_beta kept_intros intro!: kept_andThen split: kept_splits)

lemma kept_close_ed_buffer [kept_intros]: "kept v ed \<Longrightarrow> kept v (snd (close_ed_buffer ed))"
  by (auto simp: close_ed_buffer_def Let_def case_prod_beta kept_intros intro!: kept_andThen split: kept_splits)

lemma kept_reopen_ed_buffer [kept_intros]: "kept v ed \<Longrightarrow> kept v (snd (reopen_ed_buffer ed))"
  by (auto simp: reopen_ed_buffer_def Let_def case_prod_beta kept_intros intro!: kept_andThen split: kept_splits)

lemma kept_init_ed_command [kept_intros]: "kept v ed \<Longrightarrow> kept v (init_ed_command ed)"
  by (auto simp: init_ed_command_def Let_def case_prod_beta kept_intros intro!: kept_andThen split: kept_splits)

section \<open>Substitution\<close>

lemma kept_resubst_loop [kept_intros]: "kept v ed \<Longrightarrow> kept v (snd (resubst_loop k g a ed))"
  by (induction k arbitrary: g a ed)
    (auto simp: Let_def case_prod_beta kept_intros intro!: kept_andThen split: kept_splits)

lemma kept_resubstitute [kept_intros]: "kept v ed \<Longrightarrow> kept v (snd (resubstitute a ed))"
  by (auto simp: resubstitute_def Let_def case_prod_beta kept_intros intro!: kept_andThen split: kept_splits)

lemma kept_substitution_lhs [kept_intros]: "kept v ed \<Longrightarrow> kept v (snd (substitution_lhs lib re f ed))"
  by (auto simp: substitution_lhs_def Let_def case_prod_beta kept_intros intro!: kept_andThen split: kept_splits)

lemma kept_substitution_template [kept_intros]: "kept v ed \<Longrightarrow> kept v (snd (substitution_template dc ed))"
  by (auto simp: substitution_template_def Let_def case_prod_beta kept_intros intro!: kept_andThen split: kept_splits)

lemma kept_modifiers_loop [kept_intros]: "kept v ed \<Longrightarrow> kept v (snd (modifiers_loop k a ed))"
  by (induction k arbitrary: a ed)
    (auto simp: Let_def case_prod_beta kept_intros intro!: kept_andThen split: kept_splits)

lemma kept_substitution_modifiers [kept_intros]: "kept v ed \<Longrightarrow> kept v (snd (substitution_modifiers a ed))"
  by (auto simp: substitution_modifiers_def Let_def case_prod_beta kept_intros intro!: kept_andThen split: kept_splits)

lemma kept_substitution_rhs [kept_intros]:
  assumes "kept v ed"
  shows "kept v (snd (substitution_rhs a ed))"
proof -
  define r where "r = (if global (exec ed) = {} \<or> macro_in_global (exec ed) \<noteq> {}
    then andThen (get_extended_line False False False (set_input_is_binary False ed)) (\<lambda>xl ed. (Inr (), set_input xl ed))
    else (Inr (), set_input_is_binary False ed))"
  have "kept v (snd r)" using assms by (auto simp: r_def kept_intros intro!: kept_andThen)
  then show ?thesis
    by (cases r) (auto simp: substitution_rhs_def Let_def r_def [symmetric] kept_intros intro!: kept_andThen split: sum.split)
qed

lemma kept_count_matches [kept_intros]: "kept v ed \<Longrightarrow> kept v (snd (count_matches lib re s ed))"
  by (auto simp: count_matches_def Let_def case_prod_beta kept_intros intro!: kept_andThen split: kept_splits)

lemma kept_substitute_matching [kept_intros]: "kept v ed \<Longrightarrow> kept v (snd (substitute_matching lib re lp a ed))"
  by (auto simp: substitute_matching_def Let_def case_prod_beta kept_intros intro!: kept_andThen split: kept_splits)

lemma kept_put_subst_lines [kept_intros]: "kept v ed \<Longrightarrow> kept v (snd (put_subst_lines k lp up s ed))"
  by (induction k arbitrary: lp up s ed)
    (auto simp: Let_def case_prod_beta kept_intros intro!: kept_andThen split: kept_splits)

lemma kept_subst_range [kept_intros]: "kept v ed \<Longrightarrow> kept v (snd (subst_range lib re a k dt n ed))"
  by (induction k arbitrary: re a dt n ed)
    (auto simp: Let_def case_prod_beta kept_intros intro!: kept_andThen split: kept_splits)

lemma kept_substitute_lines [kept_intros]: "kept v ed \<Longrightarrow> kept v (snd (substitute_lines lib a b re x ed))"
  by (auto simp: substitute_lines_def Let_def case_prod_beta kept_intros intro!: kept_andThen split: kept_splits)

section \<open>Appending and registers\<close>

lemma kept_append_argument [kept_intros]: "kept v ed \<Longrightarrow> kept v (snd (append_argument ed))"
  by (auto simp: append_argument_def Let_def case_prod_beta kept_intros intro!: kept_andThen split: kept_splits)

lemma kept_append_input [kept_intros]: "kept v ed \<Longrightarrow> kept v (snd (append_input h ed))"
  by (auto simp: append_input_def Let_def case_prod_beta kept_intros intro!: kept_andThen split: kept_splits)

lemma kept_append_flags [kept_intros]: "kept v ed \<Longrightarrow> kept v (append_flags a ed)"
  by (auto simp: append_flags_def Let_def case_prod_beta kept_intros intro!: kept_andThen split: kept_splits)

lemma kept_append_line [kept_intros]: "kept v ed \<Longrightarrow> kept v (snd (append_line a n up ed))"
  by (auto simp: append_line_def Let_def case_prod_beta kept_intros intro!: kept_andThen split: kept_splits)

lemma kept_append_loop [kept_intros]: "kept v ed \<Longrightarrow> kept v (snd (append_loop k h a up ed))"
  by (induction k arbitrary: h a up ed)
    (auto simp: Let_def case_prod_beta kept_intros intro!: kept_andThen split: kept_splits)

lemma kept_append_lines [kept_intros]: "kept v ed \<Longrightarrow> kept v (snd (append_lines a ed))"
  by (auto simp: append_lines_def Let_def case_prod_beta kept_intros intro!: kept_andThen split: kept_splits)

lemma kept_register_fp [kept_intros]: "kept v ed \<Longrightarrow> kept v (snd (register_fp i ed))"
  by (auto simp: register_fp_def Let_def case_prod_beta kept_intros intro!: kept_andThen split: kept_splits)

lemma kept_set_register_fp [kept_intros]: "kept v ed \<Longrightarrow> kept v (set_register_fp i fp ed)"
  by (auto simp: set_register_fp_def Let_def case_prod_beta kept_intros intro!: kept_andThen split: kept_splits)

lemma kept_seek_or_error [kept_intros]: "kept v ed \<Longrightarrow> kept v (snd (seek_or_error fp f ed))"
  by (auto simp: seek_or_error_def Let_def case_prod_beta kept_intros intro!: kept_andThen split: kept_splits)

lemma kept_init_register_buffer [kept_intros]: "kept v ed \<Longrightarrow> kept v (snd (init_register_buffer i ed))"
  by (auto simp: init_register_buffer_def Let_def case_prod_beta kept_intros intro!: kept_andThen split: kept_splits)

lemma kept_reset_register_buffer [kept_intros]: "kept v ed \<Longrightarrow> kept v (snd (reset_register_buffer i ed))"
  by (auto simp: reset_register_buffer_def Let_def case_prod_beta kept_intros intro!: kept_andThen split: kept_splits)

lemma kept_append_from_register [kept_intros]: "kept v ed \<Longrightarrow> kept v (snd (append_from_register a ed))"
  by (auto simp: append_from_register_def Let_def case_prod_beta kept_intros intro!: kept_andThen split: kept_splits)

lemma kept_prepare_register [kept_intros]: "kept v ed \<Longrightarrow> kept v (snd (prepare_register b i fp ed))"
  by (auto simp: prepare_register_def Let_def case_prod_beta kept_intros intro!: kept_andThen split: kept_splits)

lemma kept_register_for_writing [kept_intros]: "kept v ed \<Longrightarrow> kept v (snd (register_for_writing i fp ed))"
  by (auto simp: register_for_writing_def Let_def case_prod_beta kept_intros intro!: kept_andThen split: kept_splits)

lemma kept_append_to_register [kept_intros]: "kept v ed \<Longrightarrow> kept v (snd (append_to_register a b c ed))"
  by (auto simp: append_to_register_def Let_def case_prod_beta kept_intros intro!: kept_andThen split: kept_splits)

lemma kept_inter_register_copy [kept_intros]: "kept v ed \<Longrightarrow> kept v (snd (inter_register_copy b ed))"
  by (auto simp: inter_register_copy_def Let_def case_prod_beta kept_intros intro!: kept_andThen split: kept_splits)

lemma kept_inter_register_move [kept_intros]: "kept v ed \<Longrightarrow> kept v (snd (inter_register_move b ed))"
  by (auto simp: inter_register_move_def Let_def case_prod_beta kept_intros intro!: kept_andThen split: kept_splits)

lemma kept_init_script_buffer [kept_intros]: "kept v ed \<Longrightarrow> kept v (snd (init_script_buffer ed))"
  by (auto simp: init_script_buffer_def Let_def case_prod_beta kept_intros intro!: kept_andThen split: kept_splits)

lemma kept_init_stdio [kept_intros]: "kept v ed \<Longrightarrow> kept v (snd (init_stdio b ed))"
  by (auto simp: init_stdio_def Let_def case_prod_beta kept_intros intro!: kept_andThen split: kept_splits)

lemma kept_push_stack_frame [kept_intros]: "kept v ed \<Longrightarrow> kept v (snd (push_stack_frame ed))"
  by (auto simp: push_stack_frame_def Let_def case_prod_beta kept_intros intro!: kept_andThen split: kept_splits)

lemma kept_restore_script [kept_intros]: "kept v ed \<Longrightarrow> kept v (snd (restore_script f ed))"
  by (auto simp: restore_script_def Let_def case_prod_beta kept_intros intro!: kept_andThen split: kept_splits)

lemma kept_pop_stack_frame [kept_intros]: "kept v ed \<Longrightarrow> kept v (snd (pop_stack_frame ed))"
  by (auto simp: pop_stack_frame_def Let_def case_prod_beta kept_intros intro!: kept_andThen split: kept_splits)

lemma kept_unwind_stack_frame [kept_intros]: "kept v ed \<Longrightarrow> kept v (snd (unwind_stack_frame e ed))"
  by (auto simp: unwind_stack_frame_def Let_def case_prod_beta kept_intros intro!: kept_andThen split: kept_splits)

lemma kept_script_from_register [kept_intros]: "kept v ed \<Longrightarrow> kept v (snd (script_from_register b ed))"
  by (auto simp: script_from_register_def Let_def case_prod_beta kept_intros intro!: kept_andThen split: kept_splits)

section \<open>Display and pipes\<close>

lemma kept_putchar [kept_intros]: "kept v ed \<Longrightarrow> kept v (snd (putchar c ed))"
  by (auto simp: putchar_def Let_def case_prod_beta kept_intros intro!: kept_andThen split: kept_splits)

lemma kept_put_chars [kept_intros]: "kept v ed \<Longrightarrow> kept v (snd (put_chars s ed))"
  by (induction s arbitrary:  ed)
    (auto simp: Let_def case_prod_beta kept_intros intro!: kept_andThen split: kept_splits)

lemma kept_put_tty_line [kept_intros]: "kept v ed \<Longrightarrow> kept v (snd (put_tty_line lp n ed))"
  by (auto simp: put_tty_line_def Let_def case_prod_beta kept_intros intro!: kept_andThen split: kept_splits)

lemma kept_display_loop [kept_intros]: "kept v ed \<Longrightarrow> kept v (snd (display_loop k a b n ed))"
proof (induction k arbitrary: a b n ed)
  case 0
  then show ?case by (simp add: display_loop.simps [of 0])
next
  case (Suc k)
  then show ?case by (auto simp: display_loop.simps [of "Suc k"] kept_intros intro!: kept_andThen)
qed

lemma kept_display_lines [kept_intros]: "kept v ed \<Longrightarrow> kept v (snd (display_lines a b ed))"
  by (auto simp: display_lines_def Let_def case_prod_beta kept_intros intro!: kept_andThen split: kept_splits)

lemma kept_print_size [kept_intros]: "kept v ed \<Longrightarrow> kept v (print_size f n ed)"
  by (auto simp: print_size_def Let_def case_prod_beta kept_intros intro!: kept_andThen split: kept_splits)

lemma kept_note_exit [kept_intros]: "kept v ed \<Longrightarrow> kept v (note_exit n ed)"
  by (auto simp: note_exit_def Let_def case_prod_beta kept_intros intro!: kept_andThen split: kept_splits)

lemma kept_shell_prompt [kept_intros]: "kept v ed \<Longrightarrow> kept v (shell_prompt ed)"
  by (auto simp: shell_prompt_def Let_def case_prod_beta kept_intros intro!: kept_andThen split: kept_splits)

lemma kept_open_stream [kept_intros]: "kept v ed \<Longrightarrow> kept v (snd (open_stream s ed))"
  by (auto simp: open_stream_def Let_def case_prod_beta kept_intros intro!: kept_andThen split: kept_splits)

lemma kept_fopen_read [kept_intros]: "kept v ed \<Longrightarrow> kept v (snd (fopen_read fn ed))"
  by (auto simp: fopen_read_def Let_def case_prod_beta kept_intros intro!: kept_andThen split: kept_splits)

lemma kept_read_file [kept_intros]: "kept v ed \<Longrightarrow> kept v (snd (read_file os fn a ed))"
  by (auto simp: read_file_def Let_def case_prod_beta kept_intros intro!: kept_andThen split: kept_splits)

lemma kept_append_text_node [kept_intros]: "kept v ed \<Longrightarrow> kept v (snd (append_text_node th s ed))"
  by (auto simp: append_text_node_def Let_def case_prod_beta kept_intros intro!: kept_andThen split: kept_splits)

lemma kept_shift_text_node [kept_intros]: "kept v ed \<Longrightarrow> kept v (snd (shift_text_node th ed))"
  by (auto simp: shift_text_node_def Let_def case_prod_beta kept_intros intro!: kept_andThen split: kept_splits)

lemma kept_APPEND_TEXT_NODE [kept_intros]: "kept v ed \<Longrightarrow> kept v (snd (APPEND_TEXT_NODE th s ed))"
  by (auto simp: APPEND_TEXT_NODE_def Let_def case_prod_beta kept_intros intro!: kept_andThen split: kept_splits)

lemma kept_read_texts [kept_intros]: "kept v ed \<Longrightarrow> kept v (snd (read_texts k fp th sz ed))"
  by (induction k arbitrary: fp th sz ed)
    (auto simp: Let_def case_prod_beta kept_intros intro!: kept_andThen split: kept_splits)

lemma kept_put_texts [kept_intros]: "kept v ed \<Longrightarrow> kept v (snd (put_texts th lp up ed))"
  by (induction th arbitrary: lp up ed)
    (auto simp: Let_def case_prod_beta kept_intros intro!: kept_andThen split: kept_splits)

lemma kept_read_stream_r [kept_intros]: "kept v ed \<Longrightarrow> kept v (snd (read_stream_r fp a ed))"
  by (auto simp: read_stream_r_def Let_def case_prod_beta kept_intros intro!: kept_andThen split: kept_splits)

lemma kept_empty_if_no_lines [kept_intros]: "kept v ed \<Longrightarrow> kept v (empty_if_no_lines ed)"
  by (auto simp: empty_if_no_lines_def Let_def case_prod_beta kept_intros intro!: kept_andThen split: kept_splits)

lemma kept_expand_command [kept_intros]: "kept v ed \<Longrightarrow> kept v (snd (expand_command xl ed))"
  by (auto simp: expand_command_def Let_def case_prod_beta kept_intros intro!: kept_andThen split: kept_splits)

lemma kept_expand_shell_command [kept_intros]: "kept v ed \<Longrightarrow> kept v (snd (expand_shell_command ed))"
  by (auto simp: expand_shell_command_def Let_def case_prod_beta kept_intros intro!: kept_andThen split: kept_splits)

lemma kept_FILE_NAME [kept_intros]: "kept v ed \<Longrightarrow> kept v (snd (FILE_NAME ed))"
  by (auto simp: FILE_NAME_def Let_def case_prod_beta kept_intros intro!: kept_andThen split: kept_splits)

end
