(* ===== verification/Exec_Frames.thy ===== *)
theory Exec_Frames
  imports Frames
begin

text \<open>
  What the commands leave alone: those that are not about files, and do not run others, keep the
  options but \<open>VERBOSE\<close> and \<open>PROMPT\<close>, the file name and the files.
\<close>

section \<open>Suffixes, ranges and registers\<close>

lemma kept_If: "kept v (snd x) \<Longrightarrow> kept v (snd y) \<Longrightarrow> kept v (snd (if b then x else y))"
  by simp

lemma kept_COMMAND_SUFFIX [kept_intros]: "kept v ed \<Longrightarrow> kept v (snd (COMMAND_SUFFIX f ed))"
  by (auto simp: COMMAND_SUFFIX_def Let_def case_prod_beta kept_intros intro!: kept_andThen del: equalityI split: kept_splits)

lemma kept_display_suffix [kept_intros]: "kept v ed \<Longrightarrow> kept v (snd (display_suffix ed))"
  by (auto simp: display_suffix_def Let_def case_prod_beta kept_intros intro!: kept_andThen del: equalityI split: kept_splits)

lemma kept_COMMAND_SUFFIX_WITH_ARG [kept_intros]: "kept v ed \<Longrightarrow> kept v (snd (COMMAND_SUFFIX_WITH_ARG ed))"
  by (auto simp: COMMAND_SUFFIX_WITH_ARG_def Let_def case_prod_beta kept_intros intro!: kept_andThen del: equalityI split: kept_splits)

lemma kept_is_valid_range [kept_intros]: "kept v ed \<Longrightarrow> kept v (snd (is_valid_range a b ed))"
  by (auto simp: is_valid_range_def Let_def case_prod_beta kept_intros intro!: kept_andThen del: equalityI split: kept_splits)

lemma kept_valid_range_or_empty [kept_intros]: "kept v ed \<Longrightarrow> kept v (snd (valid_range_or_empty a b ed))"
  by (auto simp: valid_range_or_empty_def Let_def case_prod_beta kept_intros intro!: kept_andThen del: equalityI split: kept_splits)

lemma kept_register_index [kept_intros]: "kept v ed \<Longrightarrow> kept v (snd (register_index f ed))"
  by (auto simp: register_index_def Let_def case_prod_beta kept_intros intro!: kept_andThen del: equalityI split: kept_splits)

lemma kept_GET_INPUT_REGISTER [kept_intros]: "kept v ed \<Longrightarrow> kept v (snd (GET_INPUT_REGISTER ed))"
  by (auto simp: GET_INPUT_REGISTER_def Let_def case_prod_beta kept_intros intro!: kept_andThen del: equalityI split: kept_splits)

lemma kept_DESTINATION_ADDRESS [kept_intros]: "kept v ed \<Longrightarrow> kept v (snd (DESTINATION_ADDRESS lib ed))"
  by (auto simp: DESTINATION_ADDRESS_def Let_def case_prod_beta kept_intros intro!: kept_andThen del: equalityI split: kept_splits)

lemma kept_start_undo [kept_intros]: "kept v ed \<Longrightarrow> kept v (snd (start_undo ed))"
  by (auto simp: start_undo_def Let_def case_prod_beta kept_intros intro!: kept_andThen del: equalityI split: kept_splits)

lemma kept_delete_range [kept_intros]: "kept v ed \<Longrightarrow> kept v (snd (delete_range ed))"
  by (auto simp: delete_range_def Let_def case_prod_beta kept_intros intro!: kept_andThen del: equalityI split: kept_splits)

section \<open>Commands\<close>

lemma kept_c_cmd [kept_intros]: "kept v ed \<Longrightarrow> kept v (snd (c_cmd ed))"
  by (auto simp: c_cmd_def Let_def case_prod_beta kept_intros intro!: kept_andThen del: equalityI split: kept_splits)

lemma kept_a_cmd [kept_intros]: "kept v ed \<Longrightarrow> kept v (snd (a_cmd ed))"
  by (auto simp: a_cmd_def Let_def case_prod_beta kept_intros intro!: kept_andThen del: equalityI split: kept_splits)

lemma kept_d_cmd [kept_intros]: "kept v ed \<Longrightarrow> kept v (snd (d_cmd ed))"
  by (auto simp: d_cmd_def Let_def case_prod_beta kept_intros intro!: kept_andThen del: equalityI split: kept_splits)

lemma kept_i_cmd [kept_intros]: "kept v ed \<Longrightarrow> kept v (snd (i_cmd ed))"
  by (auto simp: i_cmd_def Let_def case_prod_beta kept_intros intro!: kept_andThen del: equalityI split: kept_splits)

lemma kept_j_cmd [kept_intros]: "kept v ed \<Longrightarrow> kept v (snd (j_cmd ed))"
  by (auto simp: j_cmd_def Let_def case_prod_beta kept_intros intro!: kept_andThen del: equalityI split: kept_splits)

lemma kept_k_cmd [kept_intros]: "kept v ed \<Longrightarrow> kept v (snd (k_cmd ed))"
  by (auto simp: k_cmd_def Let_def case_prod_beta kept_intros intro!: kept_andThen del: equalityI split: kept_splits)

lemma kept_u_cmd [kept_intros]: "kept v ed \<Longrightarrow> kept v (snd (u_cmd ed))"
  by (auto simp: u_cmd_def Let_def case_prod_beta kept_intros intro!: kept_andThen del: equalityI split: kept_splits)

lemma kept_after_move [kept_intros]: "kept v ed \<Longrightarrow> kept v (after_move ed)"
  by (auto simp: after_move_def Let_def case_prod_beta kept_intros intro!: kept_andThen del: equalityI split: kept_splits)

lemma kept_move_by_register [kept_intros]: "kept v ed \<Longrightarrow> kept v (snd (move_by_register a b ed))"
  unfolding move_by_register_def by (intro kept_If kept_andThen) (simp_all add: kept_intros)

lemma kept_m_cmd [kept_intros]: "kept v ed \<Longrightarrow> kept v (snd (m_cmd lib ed))"
  by (auto simp: m_cmd_def Let_def case_prod_beta kept_intros intro!: kept_andThen del: equalityI split: kept_splits)

lemma kept_copy_by_register [kept_intros]: "kept v ed \<Longrightarrow> kept v (snd (copy_by_register a b ed))"
  unfolding copy_by_register_def by (intro kept_If kept_andThen) (simp_all add: kept_intros)

lemma kept_t_cmd [kept_intros]: "kept v ed \<Longrightarrow> kept v (snd (t_cmd lib ed))"
  by (auto simp: t_cmd_def Let_def case_prod_beta kept_intros intro!: kept_andThen del: equalityI split: kept_splits)

lemma kept_no_print [kept_intros]: "kept v (snd r) \<Longrightarrow> kept v (snd (no_print r))"
  by (auto simp: no_print_def intro!: kept_andThen)

lemma kept_print_cmd [kept_intros]: "kept v ed \<Longrightarrow> kept v (snd (print_cmd f ed))"
  by (auto simp: print_cmd_def Let_def case_prod_beta kept_intros intro!: kept_andThen del: equalityI split: kept_splits)

lemma kept_l_cmd [kept_intros]: "kept v ed \<Longrightarrow> kept v (snd (l_cmd ed))"
  by (auto simp: l_cmd_def Let_def case_prod_beta kept_intros intro!: kept_andThen del: equalityI split: kept_splits)

lemma kept_n_cmd [kept_intros]: "kept v ed \<Longrightarrow> kept v (snd (n_cmd ed))"
  by (auto simp: n_cmd_def Let_def case_prod_beta kept_intros intro!: kept_andThen del: equalityI split: kept_splits)

lemma kept_p_cmd [kept_intros]: "kept v ed \<Longrightarrow> kept v (snd (p_cmd ed))"
  by (auto simp: p_cmd_def Let_def case_prod_beta kept_intros intro!: kept_andThen del: equalityI split: kept_splits)

lemma kept_newline_cmd [kept_intros]: "kept v ed \<Longrightarrow> kept v (snd (newline_cmd ed))"
  by (auto simp: newline_cmd_def Let_def case_prod_beta kept_intros intro!: kept_andThen del: equalityI split: kept_splits)

lemma kept_address_cmd [kept_intros]: "kept v ed \<Longrightarrow> kept v (snd (address_cmd ed))"
  by (auto simp: address_cmd_def Let_def case_prod_beta kept_intros intro!: kept_andThen del: equalityI split: kept_splits)

lemma kept_print_error [kept_intros]: "kept v ed \<Longrightarrow> kept v (print_error ed)"
  by (auto simp: print_error_def Let_def case_prod_beta kept_intros intro!: kept_andThen del: equalityI split: kept_splits)

lemma kept_H_cmd [kept_intros]: "kept v ed \<Longrightarrow> kept v (snd (H_cmd ed))"
  by (auto simp: H_cmd_def Let_def case_prod_beta kept_intros intro!: kept_andThen del: equalityI split: kept_splits)

lemma kept_h_cmd [kept_intros]: "kept v ed \<Longrightarrow> kept v (snd (h_cmd ed))"
  by (auto simp: h_cmd_def Let_def case_prod_beta kept_intros intro!: kept_andThen del: equalityI split: kept_splits)

lemma kept_P_cmd [kept_intros]: "kept v ed \<Longrightarrow> kept v (snd (P_cmd ed))"
  by (auto simp: P_cmd_def Let_def case_prod_beta kept_intros intro!: kept_andThen del: equalityI split: kept_splits)

lemma kept_q_cmd [kept_intros]: "kept v ed \<Longrightarrow> kept v (snd (q_cmd c ed))"
  by (auto simp: q_cmd_def Let_def case_prod_beta kept_intros intro!: kept_andThen del: equalityI split: kept_splits)

lemma kept_comment_cmd [kept_intros]: "kept v ed \<Longrightarrow> kept v (snd (comment_cmd ed))"
  by (auto simp: comment_cmd_def Let_def case_prod_beta kept_intros intro!: kept_andThen del: equalityI split: kept_splits)

lemma kept_invalid_cmd [kept_intros]: "kept v ed \<Longrightarrow> kept v (snd (invalid_cmd lib ed))"
  by (auto simp: invalid_cmd_def Let_def case_prod_beta kept_intros intro!: kept_andThen del: equalityI split: kept_splits)

lemma kept_reset_exit_status [kept_intros]: "kept v ed \<Longrightarrow> kept v (reset_exit_status ed)"
  by (auto simp: reset_exit_status_def Let_def case_prod_beta kept_intros intro!: kept_andThen del: equalityI split: kept_splits)

lemma kept_E_clear [kept_intros]: "kept v ed \<Longrightarrow> kept v (snd (E_clear ed))"
  by (auto simp: E_clear_def Let_def case_prod_beta kept_intros intro!: kept_andThen del: equalityI split: kept_splits)

lemma kept_print_name [kept_intros]: "kept v ed \<Longrightarrow> kept v (snd (print_name ed))"
  by (auto simp: print_name_def Let_def case_prod_beta kept_intros intro!: kept_andThen del: equalityI split: kept_splits)

lemma kept_r_prepare [kept_intros]: "kept v ed \<Longrightarrow> kept v (snd (r_prepare ed))"
  by (auto simp: r_prepare_def Let_def case_prod_beta kept_intros intro!: kept_andThen del: equalityI split: kept_splits)

lemma kept_is_short_form_substitution [kept_intros]: "kept v ed \<Longrightarrow> kept v (snd (is_short_form_substitution lib ed))"
  by (auto simp: is_short_form_substitution_def Let_def case_prod_beta kept_intros intro!: kept_andThen del: equalityI split: kept_splits)

lemma kept_s_parse [kept_intros]: "kept v ed \<Longrightarrow> kept v (snd (s_parse lib ed))"
  by (auto simp: s_parse_def Let_def case_prod_beta kept_intros intro!: kept_andThen del: equalityI split: kept_splits)

lemma kept_s_cmd [kept_intros]: "kept v ed \<Longrightarrow> kept v (snd (s_cmd lib ed))"
  by (auto simp: s_cmd_def Let_def case_prod_beta kept_intros intro!: kept_andThen del: equalityI split: kept_splits)

section \<open>Scrolling\<close>

lemma kept_STRTOUL_THROW [kept_intros]: "kept v ed \<Longrightarrow> kept v (snd (STRTOUL_THROW ed))"
  by (auto simp: STRTOUL_THROW_def Let_def case_prod_beta kept_intros intro!: kept_andThen del: equalityI split: kept_splits)

lemma kept_window_size [kept_intros]: "kept v ed \<Longrightarrow> kept v (snd (window_size ed))"
  by (auto simp: window_size_def Let_def case_prod_beta kept_intros intro!: kept_andThen del: equalityI split: kept_splits)

lemma kept_paging_suffix [kept_intros]: "kept v ed \<Longrightarrow> kept v (snd (paging_suffix ed))"
  by (auto simp: paging_suffix_def Let_def case_prod_beta kept_intros intro!: kept_andThen del: equalityI split: kept_splits)

lemma kept_Z_address [kept_intros]: "kept v ed \<Longrightarrow> kept v (snd (Z_address c ed))"
  by (auto simp: Z_address_def Let_def case_prod_beta kept_intros intro!: kept_andThen del: equalityI split: kept_splits)

lemma kept_Z_cmd [kept_intros]: "kept v ed \<Longrightarrow> kept v (snd (Z_cmd c ed))"
  by (auto simp: Z_cmd_def Let_def case_prod_beta kept_intros intro!: kept_andThen del: equalityI split: kept_splits)

lemma kept_z_address [kept_intros]: "kept v ed \<Longrightarrow> kept v (snd (z_address c ed))"
  by (auto simp: z_address_def Let_def case_prod_beta kept_intros intro!: kept_andThen del: equalityI split: kept_splits)

lemma kept_z_last [kept_intros]: "kept v ed \<Longrightarrow> kept v (snd (z_last c a ed))"
  by (auto simp: z_last_def Let_def case_prod_beta kept_intros intro!: kept_andThen del: equalityI split: kept_splits)

lemma kept_z_cmd [kept_intros]: "kept v ed \<Longrightarrow> kept v (snd (z_cmd c ed))"
  by (auto simp: z_cmd_def Let_def case_prod_beta kept_intros intro!: kept_andThen del: equalityI split: kept_splits)

lemma kept_first_page_addr [kept_intros]: "kept v ed \<Longrightarrow> kept v (first_page_addr ed)"
  by (auto simp: first_page_addr_def Let_def case_prod_beta kept_intros intro!: kept_andThen del: equalityI split: kept_splits)

section \<open>Global commands and macros\<close>

lemma kept_mark_matching [kept_intros]: "kept v ed \<Longrightarrow> kept v (snd (mark_matching lib re w k lp ed))"
  by (induction k arbitrary: lp ed) (auto simp: Let_def case_prod_beta kept_intros intro!: kept_andThen)

lemma kept_set_global_lines [kept_intros]: "kept v ed \<Longrightarrow> kept v (snd (set_global_lines lib w ed))"
  by (auto simp: set_global_lines_def Let_def case_prod_beta kept_intros intro!: kept_andThen del: equalityI split: kept_splits)

lemma kept_ask_commands [kept_intros]: "kept v ed \<Longrightarrow> kept v (snd (ask_commands ed))"
  by (auto simp: ask_commands_def Let_def case_prod_beta kept_intros intro!: kept_andThen del: equalityI split: kept_splits)

lemma kept_next_pass [kept_intros]: "kept v ed \<Longrightarrow> kept v (next_pass ed)"
  by (auto simp: next_pass_def Let_def case_prod_beta kept_intros intro!: kept_andThen del: equalityI split: kept_splits)

lemma kept_save_global_context [kept_intros]: "kept v ed \<Longrightarrow> kept v (save_global_context ed)"
  by (auto simp: save_global_context_def Let_def case_prod_beta kept_intros intro!: kept_andThen del: equalityI split: kept_splits)

lemma kept_command_prefix [kept_intros]: "kept v ed \<Longrightarrow> kept v (snd (command_prefix ed))"
  by (auto simp: command_prefix_def Let_def case_prod_beta kept_intros intro!: kept_andThen del: equalityI split: kept_splits)

lemma kept_reset_command [kept_intros]: "kept v ed \<Longrightarrow> kept v (reset_command ed)"
  by (auto simp: reset_command_def Let_def case_prod_beta kept_intros intro!: kept_andThen del: equalityI split: kept_splits)

end
