(* ===== verification/Restricted.thy ===== *)
theory Restricted
  imports Exec_Frames
begin

text \<open>
  The restricted editor (\<open>red\<close>).  Its promise: no shell command runs and no file outside of the
  working directory is changed.  \<open>confined F ed\<close> says that the editor is restricted, that
  its file name is no shell command and has no slash, and that the files whose names have a slash
  are those of \<open>F\<close>.  A locale states the contract of a command runner; \<open>exec_command\<close> keeps it at
  every depth.
\<close>

section \<open>Confinement\<close>

definition plain_name :: "string \<Rightarrow> bool" where
  "plain_name s \<longleftrightarrow> cur s \<noteq> CHR ''!'' \<and> CHR ''/'' \<notin> set s"

definition confined :: "(string \<Rightarrow> string option) \<Rightarrow> ed_buffer \<Rightarrow> bool" where
  "confined F ed \<longleftrightarrow>
     RESTRICTED \<in> opt (exec ed) \<and> (\<forall>s. name_of ed = Some s \<longrightarrow> plain_name s) \<and>
     (\<forall>fn. CHR ''/'' \<in> set fn \<longrightarrow> files ed fn = F fn)"

lemma confined_kept: "(\<And>v. kept v ed \<Longrightarrow> kept v e) \<Longrightarrow> confined F ed \<Longrightarrow> confined F e"
proof -
  assume *: "\<And>v. kept v ed \<Longrightarrow> kept v e" and ed: "confined F ed"
  have "env_of e = env_of ed" using * [of "env_of ed"] by (simp add: kept_def)
  then have "opt (exec e) - {EXIT_ON_ERROR, VERBOSE, PROMPT} = opt (exec ed) - {EXIT_ON_ERROR, VERBOSE, PROMPT}"
    "name_of e = name_of ed" "files e = files ed" by (simp_all add: env_of_def)
  then show ?thesis using ed by (auto simp: confined_def)
qed

lemma confined_restricted: "confined F ed \<Longrightarrow> RESTRICTED \<in> opt (exec ed)"
  by (simp add: confined_def)

lemma confined_name: "plain_name s \<Longrightarrow> confined F ed \<Longrightarrow> confined F (set_name s ed)"
  by (simp add: confined_def)

lemma confined_pipe: "plain_name fn \<Longrightarrow> confined F ed \<Longrightarrow> pipe_name fn ed = None"
  by (auto simp: pipe_name_def confined_def plain_name_def split: option.split)

lemmas confined_andThen = andThen_keeps [where I = "confined F" for F]

section \<open>File names\<close>

lemma cur_butlast: "cur (butlast s) = cur s \<or> butlast s = []"
  by (cases s) auto

lemma cur_cstr: "cur (cstr s) = cur s"
  by (cases s) auto

lemma cur_snoc_append: "cur xl \<noteq> CHR ''!'' \<Longrightarrow> cur (take m xl @ LINE_FEED # line) \<noteq> CHR ''!''"
  by (cases xl; cases m) auto

lemma extend_loop_cur:
  "extend_loop k nonl escape xl p ed = (Inr s, e) \<Longrightarrow> cur xl \<noteq> CHR ''!'' \<Longrightarrow> cur s \<noteq> CHR ''!''"
proof (induction k arbitrary: xl p ed)
  case (Suc k)
  have "extend_loop k nonl escape (take m xl @ LINE_FEED # line) q e1 = (Inr s, e) \<Longrightarrow> cur s \<noteq> CHR ''!''" for m line q e1
    using Suc.IH cur_snoc_append [OF Suc.prems(2)] by blast
  then show ?case
    using Suc.prems by (auto simp: Let_def throw_def split: if_splits prod.splits sum.splits)
qed simp

lemma get_extended_line_cur:
  assumes "get_extended_line nonl escape nt ed = (Inr s, e)" "cur (input ed) \<noteq> CHR ''!''"
  shows "cur s \<noteq> CHR ''!''"
proof -
  have "cur (takeWhile (\<lambda>c. c \<noteq> LINE_FEED) (input ed) @ [LINE_FEED]) \<noteq> CHR ''!''"
    using assms(2) by (cases "input ed") auto
  moreover have "cur (butlast t) = CHR ''!'' \<Longrightarrow> cur t = CHR ''!''" for t
    using cur_butlast [of t] by auto
  ultimately show ?thesis
    using assms cur_cstr [of "input ed"]
    by (auto simp: get_extended_line_def Let_def andThen_eq_Inr simp del: extend_loop.simps dest!: extend_loop_cur split: if_splits)
qed

lemma FILE_NAME_plain:
  assumes "FILE_NAME ed = (Inr fn, e)" "confined F ed"
  shows "plain_name fn"
proof -
  have shell: "cur (input ed) \<noteq> CHR ''!''"
    using assms confined_restricted [OF assms(2)] by (auto simp: FILE_NAME_def expand_shell_command_def throw_def)
  then obtain e' where "file_name ed = (Inr fn, e')"
    using assms(1) by (auto simp: FILE_NAME_def split: prod.splits sum.splits)
  then obtain xl e1 where xl: "get_extended_line True False True ed = (Inr xl, e1)" "fn = cstr xl"
    "\<not> (RESTRICTED \<in> opt (exec e1) \<and> (cstr xl = ''..'' \<or> CHR ''/'' \<in> set (cstr xl)))"
    by (auto simp: file_name_def andThen_eq_Inr throw_def split: if_splits)
  have "confined F (snd (get_extended_line True False True ed))"
    by (rule confined_kept [OF kept_get_extended_line assms(2)])
  then have "confined F e1" using xl(1) by simp
  then show ?thesis
    using xl get_extended_line_cur [OF xl(1) shell] by (simp add: plain_name_def cur_cstr confined_def)
qed


section \<open>The library does not depend on the shell\<close>

abbreviation other_shell :: "(string \<Rightarrow> string \<Rightarrow> string \<times> nat) \<Rightarrow> 'x os_scheme \<Rightarrow> 'x os_scheme" where
  "other_shell sh \<equiv> os_shell_update (\<lambda>_. sh)"

named_theorems shell_free "operations that use the library only"

lemma sf_selectors [shell_free]:
  "re_compile (other_shell sh os) = re_compile os" "re_exec (other_shell sh os) = re_exec os"
  "os_fifo (other_shell sh os) = os_fifo os" "os_writable (other_shell sh os) = os_writable os"
  "os_seekable (other_shell sh os) = os_seekable os"
  by simp_all

lemma sf_matches [shell_free]: "re_matches (other_shell sh os) re s = re_matches os re s"
  unfolding re_matches_def shell_free ..

lemma sf_compiled [shell_free]: "get_compiled_regex (other_shell sh os) dc ty ed = get_compiled_regex os dc ty ed"
  unfolding get_compiled_regex_def shell_free ..

lemma sf_search [shell_free]: "search_loop (other_shell sh os) re dir k a ed = search_loop os re dir k a ed"
proof (induction k arbitrary: a ed)
  case (Suc k)
  show ?case unfolding search_loop.simps shell_free Suc.IH ..
qed simp

lemma sf_matching [shell_free]:
  "get_matching_node_address (other_shell sh os) re dir ed = get_matching_node_address os re dir ed"
  unfolding get_matching_node_address_def shell_free ..

lemma sf_line_address [shell_free]: "line_address (other_shell sh os) a ed = line_address os a ed"
  unfolding line_address_def shell_free ..

lemma sf_next_address [shell_free]: "next_address (other_shell sh os) a ed = next_address os a ed"
  unfolding next_address_def shell_free ..

lemma sf_range_loop [shell_free]: "range_loop (other_shell sh os) k b x ed = range_loop os k b x ed"
proof (induction k arbitrary: b x ed)
  case (Suc k)
  show ?case unfolding range_loop.simps shell_free Suc.IH ..
qed simp

lemma sf_address_range [shell_free]: "address_range (other_shell sh os) ed = address_range os ed"
  unfolding address_range_def shell_free ..

lemma sf_lhs [shell_free]: "substitution_lhs (other_shell sh os) re f ed = substitution_lhs os re f ed"
  unfolding substitution_lhs_def shell_free ..

lemma sf_count_loop [shell_free]: "count_loop (other_shell sh os) re k b s c d n = count_loop os re k b s c d n"
proof (induction k arbitrary: b s c d n)
  case (Suc k)
  show ?case unfolding count_loop.simps shell_free Suc.IH ..
qed simp

lemma sf_count [shell_free]: "count_matches (other_shell sh os) re s ed = count_matches os re s ed"
  unfolding count_matches_def shell_free ..

lemma sf_subst_loop [shell_free]:
  "subst_loop (other_shell sh os) re tpl nt md g k nb out t c ch mp nn u = subst_loop os re tpl nt md g k nb out t c ch mp nn u"
proof (induction k arbitrary: nb out t c ch mp nn u)
  case (Suc k)
  show ?case unfolding subst_loop.simps shell_free Suc.IH ..
qed simp

lemma sf_substitute_matching [shell_free]:
  "substitute_matching (other_shell sh os) re lp a ed = substitute_matching os re lp a ed"
  unfolding substitute_matching_def shell_free ..

lemma sf_subst_range [shell_free]: "subst_range (other_shell sh os) re a k dt n ed = subst_range os re a k dt n ed"
proof (induction k arbitrary: dt n ed)
  case (Suc k)
  show ?case unfolding subst_range.simps shell_free Suc.IH ..
qed simp

lemma sf_substitute_lines [shell_free]: "substitute_lines (other_shell sh os) a b re x ed = substitute_lines os a b re x ed"
  unfolding substitute_lines_def shell_free ..

lemma sf_short_form [shell_free]: "is_short_form_substitution (other_shell sh os) ed = is_short_form_substitution os ed"
  unfolding is_short_form_substitution_def shell_free ..

lemma sf_s_parse [shell_free]: "s_parse (other_shell sh os) ed = s_parse os ed"
  unfolding s_parse_def shell_free ..

lemma sf_s_cmd [shell_free]: "s_cmd (other_shell sh os) ed = s_cmd os ed"
  unfolding s_cmd_def shell_free ..

lemma sf_destination [shell_free]: "DESTINATION_ADDRESS (other_shell sh os) ed = DESTINATION_ADDRESS os ed"
  unfolding DESTINATION_ADDRESS_def shell_free ..

lemma sf_m_cmd [shell_free]: "m_cmd (other_shell sh os) ed = m_cmd os ed"
  unfolding m_cmd_def shell_free ..

lemma sf_t_cmd [shell_free]: "t_cmd (other_shell sh os) ed = t_cmd os ed"
  unfolding t_cmd_def shell_free ..

lemma sf_invalid [shell_free]: "invalid_cmd (other_shell sh os) ed = invalid_cmd os ed"
  unfolding invalid_cmd_def shell_free ..

lemma sf_mark_matching [shell_free]: "mark_matching (other_shell sh os) re w k lp ed = mark_matching os re w k lp ed"
proof (induction k arbitrary: lp ed)
  case (Suc k)
  show ?case unfolding mark_matching.simps shell_free Suc.IH ..
qed simp

lemma sf_set_global [shell_free]: "set_global_lines (other_shell sh os) w ed = set_global_lines os w ed"
  unfolding set_global_lines_def shell_free ..

lemma sf_read_file [shell_free]: "read_file (other_shell sh os) fn a ed = read_file os fn a ed"
  unfolding read_file_def shell_free ..

section \<open>Runs with two shells\<close>

text \<open>Two runs that end in the same way and leave the editor confined\<close>

definition same :: "(string \<Rightarrow> string option) \<Rightarrow> 'a \<times> ed_buffer \<Rightarrow> 'a \<times> ed_buffer \<Rightarrow> bool" where
  "same F p q \<longleftrightarrow> q = p \<and> confined F (snd p)"

lemma sameD: "same F p q \<Longrightarrow> q = p" "same F p q \<Longrightarrow> confined F (snd p)"
  by (simp_all add: same_def)

lemma same_kept: "(\<And>v. kept v ed \<Longrightarrow> kept v (snd p)) \<Longrightarrow> confined F ed \<Longrightarrow> same F p p"
  unfolding same_def by (intro conjI refl) (rule confined_kept [of ed]; assumption?)

lemma same_leaf: "confined F s \<Longrightarrow> same F (x, s) (x, s)"
  by (simp add: same_def)

lemma same_throw: "confined F s \<Longrightarrow> same F (throw msg s) (throw msg s)"
  by (rule same_kept [of s]) simp_all

lemma same_case:
  "same F r r' \<Longrightarrow> (\<And>a s. confined F s \<Longrightarrow> same F (g a s) (g' a s)) \<Longrightarrow>
     same F (case r of (a, s) \<Rightarrow> g a s) (case r' of (a, s) \<Rightarrow> g' a s)"
  by (cases r) (simp add: same_def)

lemma same_sum:
  "(\<And>e. same F (f e) (f' e)) \<Longrightarrow> (\<And>a. same F (g a) (g' a)) \<Longrightarrow>
     same F (case x of Inl e \<Rightarrow> f e | Inr a \<Rightarrow> g a) (case x of Inl e \<Rightarrow> f' e | Inr a \<Rightarrow> g' a)"
  by (cases x) simp_all

lemma same_option:
  "same F f f' \<Longrightarrow> (\<And>a. same F (g a) (g' a)) \<Longrightarrow>
     same F (case x of None \<Rightarrow> f | Some a \<Rightarrow> g a) (case x of None \<Rightarrow> f' | Some a \<Rightarrow> g' a)"
  by (cases x) simp_all

lemma same_bool:
  "same F f f' \<Longrightarrow> same F g g' \<Longrightarrow> same F (case x of True \<Rightarrow> f | False \<Rightarrow> g) (case x of True \<Rightarrow> f' | False \<Rightarrow> g')"
  by (cases x) simp_all

lemma same_if: "same F p p' \<Longrightarrow> same F q q' \<Longrightarrow> same F (if b then p else q) (if b then p' else q')"
  by simp

lemma same_error:
  "same F a a' \<Longrightarrow> same F b b' \<Longrightarrow> same F c c' \<Longrightarrow> same F d d' \<Longrightarrow> same F e e' \<Longrightarrow> same F f f' \<Longrightarrow> same F g g' \<Longrightarrow>
     same F (case_ed_command_error a b c d e f g x) (case_ed_command_error a' b' c' d' e' f' g' x)"
  by (cases x) simp_all

lemma same_Let: "same F (g x) (g' x) \<Longrightarrow> same F (Let x g) (Let x g')"
  by simp

lemma same_andThen:
  "same F r r' \<Longrightarrow> (\<And>a s. confined F s \<Longrightarrow> same F (g a s) (g' a s)) \<Longrightarrow> same F (andThen r g) (andThen r' g')"
  unfolding andThen_def by (intro same_case same_sum same_leaf) auto

lemmas same_rules = same_andThen same_case same_sum same_option same_bool same_if same_error same_Let same_throw same_leaf

section \<open>The commands on files\<close>

lemma confined_updates [simp]:
  "confined F (set_input s ed) = confined F ed" "confined F (set_dot n ed) = confined F ed"
  "confined F (puts s ed) = confined F ed" "confined F (spl0 ed) = confined F ed" "confined F (spl1 ed) = confined F ed"
  "confined F (state_update f1 ed) = confined F ed" "confined F (state1_update f1 ed) = confined F ed"
  "confined F (display_update f2 ed) = confined F ed" "confined F (core_update f3 ed) = confined F ed"
  "confined F (statics_update f5 ed) = confined F ed" "confined F (set_global f4 ed) = confined F ed"
  "confined F (set_err msg ed) = confined F ed" "confined F (clearerr fp ed) = confined F ed"
  "confined F (exec_update (first_pass_update g) ed) = confined F ed" "confined F (set_macro_in_global f4 ed) = confined F ed"
  "confined F (exec_update (err_update g1) ed) = confined F ed" "confined F (set_addrs n ed) = confined F ed"
  "confined F (exec_update (macro_in_global_update g2 \<circ> global_update g3) ed) = confined F ed"
  "confined F (exec_update (region_update g4 \<circ> region_update g5) ed) = confined F ed"
  by (simp_all add: confined_def puts_def print_def spl0_def spl1_def clearerr_def upd_stream_def)

lemma confined_skip [simp]: "confined F (SKIP_WHITESPACE ed) = confined F ed"
  by (simp add: SKIP_WHITESPACE_def)

lemma confined_print_size [simp]: "confined F (print_size q sz ed) = confined F ed"
  by (simp add: print_size_def)

lemma confined_reset_exit [simp]: "confined F (reset_exit_status ed) = confined F ed"
  by (simp add: reset_exit_status_def confined_def)

lemma same_FILE_NAME:
  assumes "confined F ed" "\<And>fn s. plain_name fn \<Longrightarrow> confined F s \<Longrightarrow> same F (g fn s) (g' fn s)"
  shows "same F (andThen (FILE_NAME ed) g) (andThen (FILE_NAME ed) g')"
proof -
  have c: "confined F (snd (FILE_NAME ed))" by (rule confined_kept [OF kept_FILE_NAME assms(1)])
  then show ?thesis
    using assms(2) FILE_NAME_plain [OF _ assms(1)] by (cases "FILE_NAME ed"; cases "fst (FILE_NAME ed)") (auto simp: same_def)
qed

text \<open>The operations that keep options, name and files are the same with themselves.\<close>

named_theorems same_intros "operations that do not depend on the shell"

lemma same_read_file [same_intros]: "confined F ed \<Longrightarrow> same F (read_file os fn a ed) (read_file os fn a ed)"
  by (rule same_kept [OF kept_read_file])

lemma same_E_clear [same_intros]: "confined F ed \<Longrightarrow> same F (E_clear ed) (E_clear ed)"
  by (rule same_kept [OF kept_E_clear])

lemma same_reopen_ed_buffer [same_intros]: "confined F ed \<Longrightarrow> same F (reopen_ed_buffer ed) (reopen_ed_buffer ed)"
  by (rule same_kept [OF kept_reopen_ed_buffer])

lemma same_r_prepare [same_intros]: "confined F ed \<Longrightarrow> same F (r_prepare ed) (r_prepare ed)"
  by (rule same_kept [OF kept_r_prepare])

lemma same_print_name [same_intros]: "confined F ed \<Longrightarrow> same F (print_name ed) (print_name ed)"
  by (rule same_kept [OF kept_print_name])

lemma same_valid_range_or_empty [same_intros]: "confined F ed \<Longrightarrow> same F (valid_range_or_empty a b ed) (valid_range_or_empty a b ed)"
  by (rule same_kept [OF kept_valid_range_or_empty])

lemma same_is_valid_range [same_intros]: "confined F ed \<Longrightarrow> same F (is_valid_range a b ed) (is_valid_range a b ed)"
  by (rule same_kept [OF kept_is_valid_range])

lemma same_write_stream [same_intros]: "confined F ed \<Longrightarrow> same F (write_stream fp lp n ed) (write_stream fp lp n ed)"
  by (rule same_kept [OF kept_write_stream])

lemma same_get_line_node [same_intros]: "confined F ed \<Longrightarrow> same F (get_line_node n ed) (get_line_node n ed)"
  by (rule same_kept [OF kept_get_line_node])

lemma same_display_lines [same_intros]: "confined F ed \<Longrightarrow> same F (display_lines a b ed) (display_lines a b ed)"
  by (rule same_kept [OF kept_display_lines])

lemma same_display_suffix [same_intros]: "confined F ed \<Longrightarrow> same F (display_suffix ed) (display_suffix ed)"
  by (rule same_kept [OF kept_display_suffix])

lemma same_COMMAND_SUFFIX [same_intros]: "confined F ed \<Longrightarrow> same F (COMMAND_SUFFIX f ed) (COMMAND_SUFFIX f ed)"
  by (rule same_kept [OF kept_COMMAND_SUFFIX])

lemma same_GET_INPUT_REGISTER [same_intros]: "confined F ed \<Longrightarrow> same F (GET_INPUT_REGISTER ed) (GET_INPUT_REGISTER ed)"
  by (rule same_kept [OF kept_GET_INPUT_REGISTER])

lemma same_start_undo [same_intros]: "confined F ed \<Longrightarrow> same F (start_undo ed) (start_undo ed)"
  by (rule same_kept [OF kept_start_undo])

lemma same_reset_undo_queue [same_intros]: "confined F ed \<Longrightarrow> same F (reset_undo_queue ed) (reset_undo_queue ed)"
  by (rule same_kept [OF kept_reset_undo_queue])

lemma same_get_extended_line [same_intros]: "confined F ed \<Longrightarrow> same F (get_extended_line a b c ed) (get_extended_line a b c ed)"
  by (rule same_kept [OF kept_get_extended_line])

lemma same_next_global_line [same_intros]: "confined F ed \<Longrightarrow> same F (next_global_line ed) (next_global_line ed)"
  by (rule same_kept [OF kept_next_global_line])

lemma same_get_line_node_address [same_intros]: "confined F ed \<Longrightarrow> same F (get_line_node_address lp ed) (get_line_node_address lp ed)"
  by (rule same_kept [OF kept_get_line_node_address])

lemma same_ask_commands [same_intros]: "confined F ed \<Longrightarrow> same F (ask_commands ed) (ask_commands ed)"
  by (rule same_kept [OF kept_ask_commands])

lemma same_get_stdin_line [same_intros]: "confined F ed \<Longrightarrow> same F (get_stdin_line ed) (get_stdin_line ed)"
  by (rule same_kept [OF kept_get_stdin_line])

lemma same_fseek [same_intros]: "confined F ed \<Longrightarrow> same F (fseek fp f ed) (fseek fp f ed)"
  by (rule same_kept [OF kept_fseek])

lemma same_script_from_register [same_intros]: "confined F ed \<Longrightarrow> same F (script_from_register b ed) (script_from_register b ed)"
  by (rule same_kept [OF kept_script_from_register])

lemma same_pop_stack_frame [same_intros]: "confined F ed \<Longrightarrow> same F (pop_stack_frame ed) (pop_stack_frame ed)"
  by (rule same_kept [OF kept_pop_stack_frame])

lemma same_unwind_stack_frame [same_intros]: "confined F ed \<Longrightarrow> same F (unwind_stack_frame e ed) (unwind_stack_frame e ed)"
  by (rule same_kept [OF kept_unwind_stack_frame])

lemma same_command_prefix [same_intros]: "confined F ed \<Longrightarrow> same F (command_prefix ed) (command_prefix ed)"
  by (rule same_kept [OF kept_command_prefix])

lemma same_set_global_lines [same_intros]: "confined F ed \<Longrightarrow> same F (set_global_lines lib w ed) (set_global_lines lib w ed)"
  by (rule same_kept [OF kept_set_global_lines])

lemma same_address_range [same_intros]: "confined F ed \<Longrightarrow> same F (address_range lib ed) (address_range lib ed)"
  by (rule same_kept [OF kept_address_range])

lemma same_paging_suffix [same_intros]: "confined F ed \<Longrightarrow> same F (paging_suffix ed) (paging_suffix ed)"
  by (rule same_kept [OF kept_paging_suffix])

lemma same_invalid_cmd [same_intros]: "confined F ed \<Longrightarrow> same F (invalid_cmd lib ed) (invalid_cmd lib ed)"
  by (rule same_kept [OF kept_invalid_cmd])

lemma same_Z_cmd [same_intros]: "confined F ed \<Longrightarrow> same F (Z_cmd c ed) (Z_cmd c ed)"
  by (rule same_kept [OF kept_Z_cmd])

lemma same_z_cmd [same_intros]: "confined F ed \<Longrightarrow> same F (z_cmd c ed) (z_cmd c ed)"
  by (rule same_kept [OF kept_z_cmd])

lemma same_address_cmd [same_intros]: "confined F ed \<Longrightarrow> same F (address_cmd ed) (address_cmd ed)"
  by (rule same_kept [OF kept_address_cmd])

lemma same_H_cmd [same_intros]: "confined F ed \<Longrightarrow> same F (H_cmd ed) (H_cmd ed)"
  by (rule same_kept [OF kept_H_cmd])

lemma same_h_cmd [same_intros]: "confined F ed \<Longrightarrow> same F (h_cmd ed) (h_cmd ed)"
  by (rule same_kept [OF kept_h_cmd])

lemma same_P_cmd [same_intros]: "confined F ed \<Longrightarrow> same F (P_cmd ed) (P_cmd ed)"
  by (rule same_kept [OF kept_P_cmd])

lemma same_q_cmd [same_intros]: "confined F ed \<Longrightarrow> same F (q_cmd c ed) (q_cmd c ed)"
  by (rule same_kept [OF kept_q_cmd])

lemma same_comment_cmd [same_intros]: "confined F ed \<Longrightarrow> same F (comment_cmd ed) (comment_cmd ed)"
  by (rule same_kept [OF kept_comment_cmd])

lemma same_newline_cmd [same_intros]: "confined F ed \<Longrightarrow> same F (newline_cmd ed) (newline_cmd ed)"
  by (rule same_kept [OF kept_newline_cmd])

lemma same_a_cmd [same_intros]: "confined F ed \<Longrightarrow> same F (a_cmd ed) (a_cmd ed)"
  by (rule same_kept [OF kept_a_cmd])

lemma same_c_cmd [same_intros]: "confined F ed \<Longrightarrow> same F (c_cmd ed) (c_cmd ed)"
  by (rule same_kept [OF kept_c_cmd])

lemma same_d_cmd [same_intros]: "confined F ed \<Longrightarrow> same F (d_cmd ed) (d_cmd ed)"
  by (rule same_kept [OF kept_d_cmd])

lemma same_i_cmd [same_intros]: "confined F ed \<Longrightarrow> same F (i_cmd ed) (i_cmd ed)"
  by (rule same_kept [OF kept_i_cmd])

lemma same_j_cmd [same_intros]: "confined F ed \<Longrightarrow> same F (j_cmd ed) (j_cmd ed)"
  by (rule same_kept [OF kept_j_cmd])

lemma same_k_cmd [same_intros]: "confined F ed \<Longrightarrow> same F (k_cmd ed) (k_cmd ed)"
  by (rule same_kept [OF kept_k_cmd])

lemma same_l_cmd [same_intros]: "confined F ed \<Longrightarrow> same F (l_cmd ed) (l_cmd ed)"
  by (rule same_kept [OF kept_l_cmd])

lemma same_n_cmd [same_intros]: "confined F ed \<Longrightarrow> same F (n_cmd ed) (n_cmd ed)"
  by (rule same_kept [OF kept_n_cmd])

lemma same_p_cmd [same_intros]: "confined F ed \<Longrightarrow> same F (p_cmd ed) (p_cmd ed)"
  by (rule same_kept [OF kept_p_cmd])

lemma same_u_cmd [same_intros]: "confined F ed \<Longrightarrow> same F (u_cmd ed) (u_cmd ed)"
  by (rule same_kept [OF kept_u_cmd])

lemma same_m_cmd [same_intros]: "confined F ed \<Longrightarrow> same F (m_cmd lib ed) (m_cmd lib ed)"
  by (rule same_kept [OF kept_m_cmd])

lemma same_t_cmd [same_intros]: "confined F ed \<Longrightarrow> same F (t_cmd lib ed) (t_cmd lib ed)"
  by (rule same_kept [OF kept_t_cmd])

lemma same_s_cmd [same_intros]: "confined F ed \<Longrightarrow> same F (s_cmd lib ed) (s_cmd lib ed)"
  by (rule same_kept [OF kept_s_cmd])

lemma same_E_read:
  "plain_name fn \<Longrightarrow> confined F ed \<Longrightarrow> same F (E_read os fn ed) (E_read (other_shell sh os) fn ed)"
  by (simp add: E_read_def confined_pipe shell_free Let_def same_read_file confined_name)

lemma same_E_cmd [same_intros]: "confined F ed \<Longrightarrow> same F (E_cmd os ed) (E_cmd (other_shell sh os) ed)"
  unfolding E_cmd_def
  by (intro same_if same_throw same_FILE_NAME; (intro same_rules same_intros same_E_read)?)
    (auto simp: same_leaf confined_kept [OF kept_init_ed_command])

lemma same_e_cmd [same_intros]: "confined F ed \<Longrightarrow> same F (e_cmd os ed) (e_cmd (other_shell sh os) ed)"
  unfolding e_cmd_def by (intro same_rules same_intros)

lemma same_f_cmd [same_intros]: "confined F ed \<Longrightarrow> same F (f_cmd ed) (f_cmd ed)"
  unfolding f_cmd_def
  by (intro same_rules same_FILE_NAME same_intros) (auto simp: confined_name)

text \<open>Writing stores under a plain name, or nowhere.\<close>

definition may_write :: "string \<Rightarrow> bool" where
  "may_write fn \<longleftrightarrow> fn = ''/dev/null'' \<or> CHR ''/'' \<notin> set fn"

lemma confined_store: "may_write fn \<Longrightarrow> confined F ed \<Longrightarrow> confined F (store_file fn s ed)"
  by (auto simp: confined_def store_file_def may_write_def)

lemma confined_open_stream [simp]: "confined F (snd (open_stream s ed)) = confined F ed"
  by (simp add: open_stream_def confined_def upd_stream_def)

lemma same_fopen_write: "may_write fn \<Longrightarrow> confined F ed \<Longrightarrow> same F (fopen_write fn m ed) (fopen_write fn m ed)"
proof -
  assume fn: "may_write fn" and ed: "confined F ed"
  have "confined F (snd (sys_call ed))" using ed by (simp add: sys_call_def confined_def)
  then show ?thesis
    using fn by (auto simp: fopen_write_def same_def Let_def case_prod_beta confined_store upd_stream_def confined_def
        intro: confined_store split: bool.split)
      (auto simp: open_stream_def upd_stream_def store_file_def may_write_def)
qed

lemma same_fclose_write: "may_write fn \<Longrightarrow> confined F ed \<Longrightarrow> same F (fclose_write fn fp ed) (fclose_write fn fp ed)"
proof -
  assume fn: "may_write fn" and ed: "confined F ed"
  have "confined F (snd (sys_call ed))" using ed by (simp add: sys_call_def confined_def)
  then show ?thesis
    using fn by (auto simp: fclose_write_def same_def case_prod_beta intro: confined_store split: bool.split)
qed

lemma same_write_file:
  "may_write fn \<Longrightarrow> confined F ed \<Longrightarrow> same F (write_file fn a b m ed) (write_file fn a b m ed)"
  unfolding write_file_def
  by (intro same_rules same_fopen_write same_fclose_write same_intros)

lemma same_r_read:
  "plain_name fn \<Longrightarrow> confined F ed \<Longrightarrow> same F (r_read os fn ed) (r_read (other_shell sh os) fn ed)"
  by (auto simp: r_read_def confined_pipe shell_free Let_def confined_name case_prod_beta
      intro!: same_andThen same_read_file same_leaf)

lemma same_r_cmd [same_intros]: "confined F ed \<Longrightarrow> same F (r_cmd os ed) (r_cmd (other_shell sh os) ed)"
  unfolding r_cmd_def
  by (intro same_if same_throw same_FILE_NAME; (intro same_rules same_intros same_r_read)?) (auto simp: Let_def intro!: same_leaf)

lemma w_target_ok:
  assumes "plain_name fn" "confined F ed" "w_target fn ed = ((target, named), e)"
  shows "may_write target \<and> confined F e"
  using assms by (auto simp: w_target_def Let_def may_write_def plain_name_def confined_def split: if_splits)

lemma same_w_write:
  assumes "plain_name fn" "confined F ed"
  shows "same F (w_write os c fn ed) (w_write (other_shell sh os) c fn ed)"
proof -
  obtain target named e where t: "w_target fn ed = ((target, named), e)" by (metis prod.collapse)
  note ok = w_target_ok [OF assms t]
  show ?thesis
    unfolding w_write_def Let_def t confined_pipe [OF assms] option.case prod.case
    by (intro same_andThen same_write_file) (use ok in \<open>auto intro!: same_leaf\<close>)
qed

lemma same_w_cmd [same_intros]: "confined F ed \<Longrightarrow> same F (w_cmd os c ed) (w_cmd (other_shell sh os) c ed)"
  unfolding w_cmd_def Let_def
  by (intro same_andThen [OF same_valid_range_or_empty] same_if same_throw same_FILE_NAME;
      (intro same_rules same_w_write)?) auto

lemma same_shell_cmd [same_intros]: "confined F ed \<Longrightarrow> same F (shell_cmd os ed) (shell_cmd (other_shell sh os) ed)"
  by (simp add: shell_cmd_def FILE_NAME_def expand_shell_command_def throw_def confined_restricted same_def)

section \<open>Commands that run commands\<close>

locale confined_runner =
  fixes run run' :: runner
  assumes run_same: "confined F ed \<Longrightarrow> same F (run ed) (run' ed)"
begin

lemma exec_one_same: "confined F ed \<Longrightarrow> same F (exec_one os run ed) (exec_one (other_shell sh os) run' ed)"
  unfolding exec_one_def shell_free Let_def by (intro same_rules same_intros run_same) auto

lemma global_list_same: "confined F ed \<Longrightarrow> same F (global_list os run k ed) (global_list (other_shell sh os) run' k ed)"
proof (induction k arbitrary: ed)
  case (Suc k)
  show ?case unfolding global_list.simps by (intro same_rules exec_one_same Suc)
qed (simp add: same_leaf)

lemma global_loop_same:
  "confined F ed \<Longrightarrow> same F (global_loop os run i k first ed) (global_loop (other_shell sh os) run' i k first ed)"
proof (induction k arbitrary: first ed)
  case (Suc k)
  show ?case
    unfolding global_loop.simps Let_def
    by (intro same_rules global_list_same Suc.IH same_intros) (auto simp: next_pass_def Suc.prems)
qed (simp add: same_leaf)

lemma exec_global_same: "confined F ed \<Longrightarrow> same F (exec_global os run ed) (exec_global (other_shell sh os) run' ed)"
  unfolding exec_global_def Let_def by (intro same_rules global_loop_same same_intros) auto

lemma global_cmd_same: "confined F ed \<Longrightarrow> same F (global_cmd os run c ed) (global_cmd (other_shell sh os) run' c ed)"
  unfolding global_cmd_def Let_def shell_free by (intro same_rules exec_global_same same_intros) auto

lemma macro_body_same: "confined F ed \<Longrightarrow> same F (macro_body os run k ed) (macro_body (other_shell sh os) run' k ed)"
proof (induction k arbitrary: ed)
  case (Suc k)
  show ?case
    unfolding macro_body.simps Let_def
    by (intro same_rules exec_one_same Suc.IH same_intros) (auto simp: Suc.prems)
qed (simp add: same_leaf)

lemma macro_lines_same:
  "confined F ed \<Longrightarrow> same F (macro_lines os run n a st ed) (macro_lines (other_shell sh os) run' n a st ed)"
proof (induction n arbitrary: a st ed)
  case (Suc n)
  show ?case
    unfolding macro_lines.simps
    by (intro same_rules macro_body_same Suc.IH same_intros) (auto simp: Suc.prems)
qed (simp add: same_leaf)

lemma exec_macro_same: "confined F ed \<Longrightarrow> same F (exec_macro os run ed) (exec_macro (other_shell sh os) run' ed)"
  unfolding exec_macro_def Let_def shell_free by (intro same_rules macro_lines_same same_intros) auto

lemma macro_cmd_same: "confined F ed \<Longrightarrow> same F (macro_cmd os run ed) (macro_cmd (other_shell sh os) run' ed)"
  unfolding macro_cmd_def Let_def no_print_def
  by (intro same_rules exec_macro_same same_intros) (auto simp: confined_kept [OF kept_save_global_context])

lemma normalize_same:
  "confined F ed \<Longrightarrow> same F (normalize_frame_buffer os run ed) (normalize_frame_buffer (other_shell sh os) run' ed)"
  unfolding normalize_frame_buffer_def Let_def shell_free by (intro same_rules run_same same_intros) auto

lemma hidden_page_same:
  "confined F ed \<Longrightarrow> same F (hidden_page os run c ed) (hidden_page (other_shell sh os) run' c ed)"
  unfolding hidden_page_def by (intro same_rules normalize_same same_intros) auto

lemma scroll_same:
  "confined F ed \<Longrightarrow> same F (scroll_backward_half os run c ed) (scroll_backward_half (other_shell sh os) run' c ed)"
  "confined F ed \<Longrightarrow> same F (scroll_forward_half os run c ed) (scroll_forward_half (other_shell sh os) run' c ed)"
  unfolding scroll_backward_half_def scroll_forward_half_def Let_def
  by (intro same_rules hidden_page_same same_intros; auto simp: confined_kept [OF kept_first_page_addr])+

lemma ed_cmd_same:
  assumes "confined F ed" "i < 64"
  shows "same F ((ed_cmd os run c ! i) ed) ((ed_cmd (other_shell sh os) run' c ! i) ed)"
proof -
  have "list_all2 (\<lambda>f g. same F (f ed) (g ed)) (ed_cmd os run c) (ed_cmd (other_shell sh os) run' c)"
    unfolding ed_cmd_def list.rel_inject shell_free
    using assms(1) by (intro conjI same_intros macro_cmd_same global_cmd_same scroll_same) (simp_all add: same_intros)
  moreover have "length (ed_cmd os run c) = 64" by (simp add: ed_cmd_def)
  ultimately show ?thesis using assms(2) list_all2_nthD by fastforce
qed

lemma dispatch_same: "confined F ed \<Longrightarrow> same F (dispatch os run c ed) (dispatch (other_shell sh os) run' c ed)"
  unfolding dispatch_def shell_free
  by (auto simp: ED_KEY_MASK_def same_intros intro!: ed_cmd_same)

lemma exec_key_same: "confined F ed \<Longrightarrow> same F (exec_key os run ed) (exec_key (other_shell sh os) run' ed)"
  unfolding exec_key_def Let_def shell_free by (intro same_rules dispatch_same same_intros) auto

end

lemma exec_command_same: "confined F ed \<Longrightarrow> same F (exec_command os k ed) (exec_command (other_shell sh os) k ed)"
proof (induction k arbitrary: F ed)
  case (Suc k)
  have "confined_runner (exec_command os k) (exec_command (other_shell sh os) k)"
    by unfold_locales (rule Suc.IH)
  note key = confined_runner.exec_key_same [OF this]
  show ?case
    unfolding exec_command.simps shell_free
    by (intro same_rules key same_intros) (simp_all add: confined_kept [OF kept_reset_command Suc.prems])
qed (simp add: same_leaf)

interpretation restricted: confined_runner "exec_command os k" "exec_command (other_shell sh os) k" for os k sh
  by unfold_locales (rule exec_command_same)

end
