(* ===== verification/Session.thy ===== *)
theory Session
  imports Restricted
begin

text \<open>
  The main loop of the editor (\<open>main.c\<close>): \<open>main\<close> from \<open>one_time_init\<close> on, \<open>next_edit\<close>, \<open>save_edit\<close>,
  \<open>script_die\<close>, and \<open>quit\<close> of \<open>buffer.c\<close>.  The arguments left after the options (\<open>gl_pathv\<close>), the
  suffix of the option \<open>-i\<close> and the status of \<open>init_signal_handler\<close> are part of the session; \<open>exited\<close>
  is the status of \<open>_exit\<close>.  One round of the loop is \<open>main_step\<close>; an interrupt is taken between rounds,
  where \<open>longjmp\<close> goes on.
\<close>

record ed_session =
  buf :: ed_buffer
  gl_pathv :: "string list"
  suffix :: "string option"
  signal_status :: "ed_command_error option"
  exited :: "int option"

definition PATH_MAX :: nat where "PATH_MAX = 4096"

definition get_path_max :: "string \<Rightarrow> nat" where
  "get_path_max ps = PATH_MAX"

abbreviation set_buf :: "ed_buffer \<Rightarrow> ed_session \<Rightarrow> ed_session" where
  "set_buf ed \<equiv> buf_update (\<lambda>_. ed)"

section \<open>The end\<close>

text \<open>The temporary files are closed and removed; the process ends.\<close>

definition quit :: "int \<Rightarrow> ed_session \<Rightarrow> ed_session" where
  "quit n = exited_update (\<lambda>_. Some n)"

abbreviation err_text :: "ed_buffer \<Rightarrow> string" where
  "err_text ed \<equiv> (case err (exec ed) of None \<Rightarrow> ''(null)'' | Some s \<Rightarrow> s)"

definition script_message :: "ed_buffer \<Rightarrow> string" where
  "script_message ed =
     (if VERBOSE \<notin> opt (exec ed) then []
      else
        (case script_pathname (exec ed) of
           None \<Rightarrow> ''script, line '' @ int_text (line_no (exec ed)) @ '': ''
         | Some s \<Rightarrow>
             if posix_or_traditional ed then ''script, line '' @ int_text (line_no (exec ed)) @ '': ''
             else s @ '':'' @ int_text (line_no (exec ed)) @ '': '') @ err_text ed @ [LINE_FEED])"

definition script_die :: "int \<Rightarrow> ed_session \<Rightarrow> ed_session" where
  "script_die n sn = quit n (set_buf (print_err (script_message (buf sn)) (buf sn)) sn)"

section \<open>The first and the last command\<close>

abbreviation no_region :: "ed_buffer \<Rightarrow> ed_buffer" where
  "no_region ed \<equiv> set_addrs 0 (set_region_end 0 (set_region_start 0 ed))"

definition next_edit :: "string \<Rightarrow> ed_buffer \<Rightarrow> unit res" where
  "next_edit name ed =
     (if get_path_max name \<le> length name then throw ''File name too long'' ed
      else (Inr (), no_region (set_input (''r '' @ name @ [LINE_FEED]) ed)))"

definition save_name :: "string list \<Rightarrow> ed_buffer \<Rightarrow> string" where
  "save_name pathv ed =
     (if pathv \<noteq> [] \<and> cur (hd pathv) \<noteq> CHR ''!'' then hd pathv
      else case name_of ed of None \<Rightarrow> [] | Some s \<Rightarrow> if cur s \<noteq> CHR ''!'' then s else [])"

definition access_writable :: "'x os_scheme \<Rightarrow> string \<Rightarrow> ed_buffer \<Rightarrow> bool" where
  "access_writable os name ed \<longleftrightarrow> name \<noteq> [] \<and> file_contents name ed \<noteq> None \<and> os_writable os name"

text \<open>\<open>sfx\<close> is empty at the end of the input.\<close>

definition save_edit :: "'x os_scheme \<Rightarrow> string \<Rightarrow> string list \<Rightarrow> ed_buffer \<Rightarrow> command_result" where
  "save_edit os sfx pathv ed =
     (let name = save_name pathv ed in
      if sfx = [] \<and> \<not> access_writable os name ed then (Inl FATAL, set_err ''File write error'' ed)
      else if get_path_max name \<le> length (name @ sfx) then (Inl FATAL, set_err ''File name too long'' ed)
      else exec_command os EXEC_DEPTH (no_region (set_input (''w '' @ name @ sfx @ [LINE_FEED]) ed)))"

text \<open>The code at the label \<open>next\<close>, with the names of \<open>gl_pathv\<close>.\<close>

definition open_edit :: "'x os_scheme \<Rightarrow> ed_session \<Rightarrow> unit res \<times> ed_command_error option" where
  "open_edit os sn =
     (if gl_pathv sn = [] then ((Inr (), buf sn), signal_status sn)
      else
        let r = andThen (next_edit (hd (gl_pathv sn)) (buf sn)) (\<lambda>_ ed.
                andThen (exec_command os EXEC_DEPTH ed) (\<lambda>_ ed.
                  let ed = exec_update (opt_update (\<lambda>f. f - {PRINT_FIRST_FILE})) ed in
                  case suffix sn of
                    Some sfx \<Rightarrow> if IN_PLACE \<in> opt (exec ed) then andThen (save_edit os sfx (gl_pathv sn) ed) (\<lambda>_ ed. (Inr (), ed))
                                else (Inr (), ed)
                  | None \<Rightarrow> (Inr (), ed)))
        in case r of
             (Inl e, ed) \<Rightarrow> ((Inl e, ed), signal_status sn)
           | (Inr _, ed) \<Rightarrow>
               (case signal_status sn of
                  None \<Rightarrow> ((Inr (), ed), None)
                | Some e \<Rightarrow> ((Inl e, ed), None)))"

section \<open>The status of a command\<close>

abbreviation print_question :: "ed_buffer \<Rightarrow> ed_buffer" where
  "print_question \<equiv> puts ''?''"

definition report :: "int \<Rightarrow> ed_command_error \<Rightarrow> ed_session \<Rightarrow> ed_session" where
  "report n e sn =
     (let sn = buf_update print_question sn in
      if EXIT_ON_ERROR \<in> opt (exec (buf sn)) then script_die n sn
      else
        buf_update (\<lambda>ed.
          exec_update (exit_status_update (\<lambda>_. - status_code e))
            (let ed = (if VERBOSE \<in> opt (exec ed) then puts (err_text ed) ed else ed)
             in if e = EMOD then ed else display_update (hidden_update (\<lambda>_. False)) ed)) sn)"

definition save_at_end :: "'x os_scheme \<Rightarrow> ed_session \<Rightarrow> command_result" where
  "save_at_end os sn =
     (if \<not> posix_or_traditional (buf sn) \<and> IN_PLACE \<in> opt (exec (buf sn)) then save_edit os [] (gl_pathv sn) (buf sn)
      else (Inr {}, buf sn))"

text \<open>The switch on the status.  Saving the file at the end, or opening the next file, may
  fail and give a status of its own: fuel for that.\<close>

primrec handle_status :: "'x os_scheme \<Rightarrow> nat \<Rightarrow> ed_command_error \<Rightarrow> ed_session \<Rightarrow> ed_session" where
  "handle_status os 0 e sn = script_die 3 sn"
| "handle_status os (Suc k) e sn =
     (if e \<in> {EOF, EOF_NEXT, EOF_PREV} then
        (case save_at_end os sn of
           (Inl e, ed) \<Rightarrow> handle_status os k e (set_buf ed sn)
         | (Inr _, ed) \<Rightarrow>
             (case (if 1 < length (gl_pathv sn) then fseek (std_in ed) (\<lambda>_. 0) ed else (False, ed)) of
                (False, ed) \<Rightarrow> quit (exit_status (exec ed)) (set_buf ed sn)
              | (True, ed) \<Rightarrow>
                  (case open_edit os (set_buf ed sn) of
                     ((Inl e, ed), st) \<Rightarrow> handle_status os k e (signal_status_update (\<lambda>_. st) (set_buf ed sn))
                   | ((Inr _, ed), st) \<Rightarrow> signal_status_update (\<lambda>_. st) (set_buf ed sn))))
      else if e = EMOD then
        report 2 EMOD (buf_update (\<lambda>ed. set_is_modified False (set_err ''WARNING: Buffer modified since last write'' ed)) sn)
      else if e = FATAL then script_die 3 sn
      else report 4 e sn)"

definition STATUS_DEPTH :: nat where "STATUS_DEPTH = 2"

section \<open>The loop\<close>

text \<open>A command of the arguments, or else a line of the standard input.  The arguments are
  the lines of one string, of which the input is all that is left.\<close>

definition read_command :: "ed_buffer \<Rightarrow> unit res" where
  "read_command ed =
     (let ed = (if PROMPT \<in> opt (exec ed) then print (prompt (exec ed)) ed else ed) in
      case address (exec ed) of
        Some s \<Rightarrow>
          (if LINE_FEED \<notin> set s then (Inl FATAL, ed)
           else
             let rest = drop 1 (dropWhile (\<lambda>c. c \<noteq> LINE_FEED) s)
             in (Inr (), inc_line_no (exec_update (address_update (\<lambda>_. if rest = [] then None else Some rest)) (set_input s ed))))
      | None \<Rightarrow>
          (case get_stdin_line ed of
             (Inl FATAL, ed) \<Rightarrow> (Inl FATAL, ed)
           | (Inl _, ed) \<Rightarrow>
               (Inl (if \<not> feof (std_in ed) ed then ERR
                     else if is_modified (state ed) \<and> SCRIPTED \<notin> opt (exec ed) then EMOD else EOF),
                clearerr (std_in ed) (set_input [] ed))
           | (Inr s, ed) \<Rightarrow>
               (let ed = set_input s ed in
                if last s \<noteq> LINE_FEED then (Inl ERR, clearerr (std_in ed) (set_err ''End-of-file unexpected'' ed))
                else (Inr (), inc_line_no ed))))"

definition main_step :: "'x os_scheme \<Rightarrow> ed_session \<Rightarrow> ed_session" where
  "main_step os sn =
     (case andThen (read_command (buf sn)) (\<lambda>_. exec_one os (exec_command os EXEC_DEPTH)) of
        (Inl e, ed) \<Rightarrow> handle_status os STATUS_DEPTH e (set_buf ed sn)
      | (Inr _, ed) \<Rightarrow> set_buf ed sn)"

text \<open>Where \<open>longjmp\<close> goes on: macros are left and a global command is ended.\<close>

definition interrupt :: "'x os_scheme \<Rightarrow> ed_session \<Rightarrow> ed_session" where
  "interrupt os sn =
     (case unwind_stack_frame ERR (buf sn) of
        (e, ed) \<Rightarrow>
          handle_status os STATUS_DEPTH e
            (set_buf (set_err ''Interrupted'' (set_macro_in_global {} (set_global {} ed))) sn))"

definition start_session :: "'x os_scheme \<Rightarrow> (string \<Rightarrow> string option) \<Rightarrow> ed_session \<Rightarrow> ed_session" where
  "start_session os getenv sn =
     (case andThen (init_stdio (os_seekable os) (buf sn)) (\<lambda>_. one_time_init getenv) of
        (Inl e, ed) \<Rightarrow> handle_status os STATUS_DEPTH e (set_buf ed sn)
      | (Inr _, ed) \<Rightarrow>
          (case open_edit os (set_buf ed sn) of
             ((Inl e, ed), st) \<Rightarrow> handle_status os STATUS_DEPTH e (signal_status_update (\<lambda>_. st) (set_buf ed sn))
           | ((Inr _, ed), st) \<Rightarrow> signal_status_update (\<lambda>_. st) (set_buf ed sn)))"

inductive session_step :: "'x os_scheme \<Rightarrow> ed_session \<Rightarrow> ed_session \<Rightarrow> bool" for os where
  round: "exited sn = None \<Longrightarrow> session_step os sn (main_step os sn)"
| interrupted: "exited sn = None \<Longrightarrow> session_step os sn (interrupt os sn)"

abbreviation session_steps :: "'x os_scheme \<Rightarrow> ed_session \<Rightarrow> ed_session \<Rightarrow> bool" where
  "session_steps os \<equiv> (session_step os)\<^sup>*\<^sup>*"

inductive_cases session_stepE: "session_step os sn sn'"
inductive_simps session_step_iff: "session_step os sn sn'"

fun run_rounds :: "'x os_scheme \<Rightarrow> nat \<Rightarrow> ed_session \<Rightarrow> ed_session" where
  "run_rounds os 0 sn = sn"
| "run_rounds os (Suc n) sn = (if exited sn = None then run_rounds os n (main_step os sn) else sn)"

end
