(* ===== verification/Session_Props.thy ===== *)
theory Session_Props
  imports Session
begin

text \<open>
  Sessions: the fuel of the switch on the status is enough; a restricted session runs no shell
  command and changes no file outside of the working directory, whatever its commands and
  interrupts.
\<close>

section \<open>Restricted sessions\<close>

lemma sf_access [shell_free]: "access_writable (other_shell sh os) name ed = access_writable os name ed"
  unfolding access_writable_def shell_free ..

lemma confined_session_updates [simp]:
  "confined F (inc_line_no ed) = confined F ed" "confined F (set_region_start n ed) = confined F ed"
  "confined F (set_region_end n ed) = confined F ed" "confined F (exec_update (address_update f) ed) = confined F ed"
  "confined F (exec_update (exit_status_update g) ed) = confined F ed" "confined F (print s ed) = confined F ed"
  "confined F (print_err s ed) = confined F ed"
  "confined F (exec_update (opt_update (\<lambda>f. f - {PRINT_FIRST_FILE})) ed) = confined F ed"
  "confined F (exec_update (region_update r1 \<circ> (region_update r2 \<circ> region_update r3)) ed) = confined F ed"
  "confined F (exec_update (line_no_update f1 \<circ> address_update f2) ed) = confined F ed"
  "confined F (exec_update (err_update h1 \<circ> (macro_in_global_update h2 \<circ> global_update h3)) ed) = confined F ed"
  by (auto simp: confined_def print_def print_err_def)

lemma save_edit_same:
  "confined F ed \<Longrightarrow> same F (save_edit os sfx pathv ed) (save_edit (other_shell sh os) sfx pathv ed)"
  unfolding save_edit_def Let_def shell_free by (intro same_rules exec_command_same) auto

lemma next_edit_same: "confined F ed \<Longrightarrow> same F (next_edit name ed) (next_edit name ed)"
  unfolding next_edit_def by (intro same_rules) auto

lemma open_edit_same:
  assumes "confined F (buf sn)"
  shows "open_edit (other_shell sh os) sn = open_edit os sn" "confined F (snd (fst (open_edit os sn)))"
proof -
  define r where "r os = andThen (next_edit (hd (gl_pathv sn)) (buf sn)) (\<lambda>_ ed.
                andThen (exec_command os EXEC_DEPTH ed) (\<lambda>_ ed.
                  let ed = exec_update (opt_update (\<lambda>f. f - {PRINT_FIRST_FILE})) ed in
                  case suffix sn of
                    Some sfx \<Rightarrow> if IN_PLACE \<in> opt (exec ed) then andThen (save_edit os sfx (gl_pathv sn) ed) (\<lambda>_ ed. (Inr (), ed))
                                else (Inr (), ed)
                  | None \<Rightarrow> (Inr (), ed)))" for os :: "'a os_scheme"
  have "same F (r os) (r (other_shell sh os))"
    unfolding r_def Let_def using assms by (intro same_rules next_edit_same exec_command_same save_edit_same) auto
  note r = sameD [OF this]
  have e: "open_edit os sn = (if gl_pathv sn = [] then ((Inr (), buf sn), signal_status sn)
      else case r os of (Inl e, ed) \<Rightarrow> ((Inl e, ed), signal_status sn)
           | (Inr _, ed) \<Rightarrow> (case signal_status sn of None \<Rightarrow> ((Inr (), ed), None) | Some e \<Rightarrow> ((Inl e, ed), None)))" for os :: "'a os_scheme"
    unfolding open_edit_def r_def Let_def ..
  show "open_edit (other_shell sh os) sn = open_edit os sn" unfolding e r(1) ..
  show "confined F (snd (fst (open_edit os sn)))"
    unfolding e using r(2) assms by (auto split: prod.split sum.split option.split)
qed

definition safe_same :: "(string \<Rightarrow> string option) \<Rightarrow> ed_session \<Rightarrow> ed_session \<Rightarrow> bool" where
  "safe_same F sn sn' \<longleftrightarrow> sn' = sn \<and> confined F (buf sn)"

lemma confined_quit [simp]: "buf (quit n sn) = buf sn" "buf (script_die n sn) = print_err (script_message (buf sn)) (buf sn)"
  by (simp_all add: quit_def script_die_def)

lemma confined_report: "confined F (buf sn) \<Longrightarrow> confined F (buf (report n e sn))"
  by (auto simp: report_def Let_def)

lemma handle_status_same:
  "confined F (buf sn) \<Longrightarrow> safe_same F (handle_status os k e sn) (handle_status (other_shell sh os) k e sn)"
proof (induction k arbitrary: e sn)
  case 0
  then show ?case by (simp add: safe_same_def)
next
  case (Suc k)
  have "same F (save_at_end os sn) (save_at_end (other_shell sh os) sn)"
    unfolding save_at_end_def using Suc.prems by (intro same_rules save_edit_same)
  note s = sameD [OF this]
  obtain x e1 where x: "save_at_end os sn = (x, e1)" by fastforce
  have c1: "confined F e1" using s(2) x by simp
  define sk where "sk = (if 1 < length (gl_pathv sn) then fseek (std_in e1) (\<lambda>_. 0) e1 else (False, e1))"
  obtain ok e2 where ok: "sk = (ok, e2)" by fastforce
  have "same F sk sk" unfolding sk_def using c1 by (intro same_rules same_intros)
  then have c2: "confined F e2" using sameD(2) ok by fastforce
  have o: "open_edit (other_shell sh os) (set_buf e2 sn) = open_edit os (set_buf e2 sn)"
    "confined F (snd (fst (open_edit os (set_buf e2 sn))))"
    using open_edit_same [of F "set_buf e2 sn"] c2 by simp_all
  obtain y e3 st where op: "open_edit os (set_buf e2 sn) = ((y, e3), st)" by (metis surj_pair)
  have c3: "confined F e3" using o(2) op by simp
  consider (eof) "e \<in> {EOF, EOF_NEXT, EOF_PREV}" | (emod) "e = EMOD" | (other) "e \<notin> {EOF, EOF_NEXT, EOF_PREV, EMOD}" by auto
  then show ?case
  proof cases
    case eof
    show ?thesis
    proof (cases x)
      case (Inl e')
      then show ?thesis using eof Suc.IH [of "set_buf e1 sn" e'] c1 by (simp add: s(1) x)
    next
      case (Inr a)
      then show ?thesis
        using eof Suc.IH [of "signal_status_update (\<lambda>_. st) (set_buf e3 (set_buf e2 sn))"] c2 c3
        by (cases ok; cases y) (auto simp: s(1) x sk_def [symmetric] ok o(1) op safe_same_def simp del: One_nat_def)
    qed
  next
    case emod
    then show ?thesis using Suc.prems by (simp add: safe_same_def confined_report)
  next
    case other
    then show ?thesis using Suc.prems by (auto simp: safe_same_def confined_report)
  qed
qed

lemma read_command_same: "confined F ed \<Longrightarrow> same F (read_command ed) (read_command ed)"
  unfolding read_command_def Let_def by (intro same_rules same_intros) auto

lemma main_step_same:
  assumes "confined F (buf sn)"
  shows "safe_same F (main_step os sn) (main_step (other_shell sh os) sn)"
proof -
  let ?r = "\<lambda>os. andThen (read_command (buf sn)) (\<lambda>_. exec_one os (exec_command os EXEC_DEPTH))"
  have "same F (?r os) (?r (other_shell sh os))"
    using assms by (intro same_rules read_command_same restricted.exec_one_same)
  note r = sameD [OF this]
  show ?thesis
    using handle_status_same [of F "set_buf (snd (?r os)) sn"] r(2)
    by (auto simp: main_step_def r(1) safe_same_def case_prod_beta split: sum.split)
qed

lemma interrupt_same:
  assumes "confined F (buf sn)"
  shows "safe_same F (interrupt os sn) (interrupt (other_shell sh os) sn)"
proof -
  have "confined F (snd (unwind_stack_frame ERR (buf sn)))"
    using sameD(2) [OF same_unwind_stack_frame [OF assms]] .
  then show ?thesis
    unfolding interrupt_def by (cases "unwind_stack_frame ERR (buf sn)") (simp add: handle_status_same)
qed

lemma session_step_same:
  "session_step os sn sn' \<Longrightarrow> confined F (buf sn) \<Longrightarrow> session_step (other_shell sh os) sn sn' \<and> confined F (buf sn')"
  by (auto simp: session_step.simps dest: main_step_same [of F sn os sh] interrupt_same [of F sn os sh] simp: safe_same_def)

lemma session_steps_same:
  assumes "session_steps os sn sn'" "confined F (buf sn)"
  shows "session_steps (other_shell sh os) sn sn' \<and> confined F (buf sn')"
  using assms
proof (induction rule: rtranclp_induct)
  case (step y z)
  then show ?case using session_step_same [OF step.hyps(2)] by (meson rtranclp.rtrancl_into_rtrancl)
qed simp

section \<open>Commands by their keys\<close>

lemma reset_command_fields [simp]:
  "input (reset_command ed) = input ed" "exec (reset_command ed) = exec ed" "state (reset_command ed) = state ed"
  "io_flags (reset_command ed) = {}" "posix_or_traditional (reset_command ed) = posix_or_traditional ed"
  by (simp_all add: reset_command_def posix_or_traditional_def)

lemma exec_command_key:
  assumes "input ed = c # s" "\<not> isspace c" "c \<noteq> CHR ''<''" "\<not> takes_prefix c"
  shows "exec_command os (Suc k) ed = dispatch os (exec_command os k) c (set_input s (reset_command ed))"
proof -
  have "SKIP_WHITESPACE (reset_command ed) = reset_command ed"
    by (rule skip_none) (use assms in \<open>simp add: cur_def\<close>)
  then show ?thesis
    using assms by (simp add: command_prefix_def exec_key_def cur_def Let_def)
qed

lemma EXEC_DEPTH_Suc: "EXEC_DEPTH = Suc (STACK_FRAMES_MAX + 2)"
  by (simp add: EXEC_DEPTH_def)

lemma key_w: "dispatch os run CHR ''w'' = w_cmd os CHR ''w''"
  by (rule ext) (simp add: dispatch_def ed_cmd_def byte_def ED_KEY_FIRST_def ED_KEY_MASK_def)

lemma key_r: "dispatch os run CHR ''r'' = r_cmd os"
  by (rule ext) (simp add: dispatch_def ed_cmd_def byte_def ED_KEY_FIRST_def ED_KEY_MASK_def)

lemma key_q: "dispatch os run CHR ''q'' = q_cmd CHR ''q''"
  by (rule ext) (simp add: dispatch_def ed_cmd_def byte_def ED_KEY_FIRST_def ED_KEY_MASK_def)

section \<open>Commands that do not end the session\<close>

definition no_end :: "'a res \<Rightarrow> bool" where
  "no_end r \<longleftrightarrow> fst r \<notin> {Inl EOF, Inl EOF_NEXT, Inl EOF_PREV}"

named_theorems no_end_intros "operations whose status does not end the session"

lemma no_end_simps [simp]:
  "no_end (Inr a, ed)" "no_end (Inl ERR, ed)" "no_end (Inl FATAL, ed)" "no_end (Inl EMOD, ed)" "no_end (throw msg ed)"
  by (simp_all add: no_end_def throw_def)

lemma no_end_Inl: "no_end (Inl e, ed) = (e \<notin> {EOF, EOF_NEXT, EOF_PREV})"
  by (simp add: no_end_def)

lemma no_end_andThen: "no_end r \<Longrightarrow> (\<And>a ed. no_end (f a ed)) \<Longrightarrow> no_end (andThen r f)"
  by (cases r) (auto simp: andThen_def no_end_def split: sum.split)

lemma no_end_failed: "r = (Inl e, s) \<Longrightarrow> no_end r \<Longrightarrow> no_end (Inl e, s')"
  by (simp add: no_end_def)

lemma no_end_case: "(\<And>a ed. r = (a, ed) \<Longrightarrow> no_end (g a ed)) \<Longrightarrow> no_end (case r of (a, ed) \<Rightarrow> g a ed)"
  by (cases r) simp

lemma no_end_rethrow:
  "no_end r \<Longrightarrow> (\<And>a ed. no_end (g a ed)) \<Longrightarrow> no_end (case r of (Inl e, ed) \<Rightarrow> (Inl e, f ed) | (Inr a, ed) \<Rightarrow> g a ed)"
  by (auto simp: no_end_def split: prod.split sum.split)

lemma no_end_if: "no_end p \<Longrightarrow> no_end q \<Longrightarrow> no_end (if b then p else q)"
  by simp

lemma no_end_sum: "(\<And>e. no_end (f e)) \<Longrightarrow> (\<And>a. no_end (g a)) \<Longrightarrow> no_end (case x of Inl e \<Rightarrow> f e | Inr a \<Rightarrow> g a)"
  by (cases x) simp_all

lemma no_end_option: "no_end f \<Longrightarrow> (\<And>a. no_end (g a)) \<Longrightarrow> no_end (case x of None \<Rightarrow> f | Some a \<Rightarrow> g a)"
  by (cases x) simp_all

lemma no_end_bool: "no_end f \<Longrightarrow> no_end g \<Longrightarrow> no_end (case x of True \<Rightarrow> f | False \<Rightarrow> g)"
  by (cases x) simp_all

lemma no_end_pair: "(\<And>x y. no_end (f x y ed)) \<Longrightarrow> no_end ((case p of (x, y) \<Rightarrow> f x y) ed)"
  by (cases p) simp

lemma no_end_andThen_snd: "no_end r \<Longrightarrow> (\<And>a. no_end (f a (snd r))) \<Longrightarrow> no_end (andThen r f)"
  by (cases r) (auto simp: andThen_def no_end_def split: sum.split)

lemma no_end_getc: "(\<And>c. no_end (f c)) \<Longrightarrow> no_end g \<Longrightarrow> no_end h \<Longrightarrow> no_end (case_getc_result f g h x)"
  by (cases x) simp_all

lemmas no_end_rules = no_end_andThen no_end_rethrow no_end_case no_end_if no_end_sum no_end_option no_end_bool no_end_getc no_end_pair no_end_simps

lemma no_end_is_valid_range [no_end_intros]: "no_end (is_valid_range a b ed)"
  by (simp add: is_valid_range_def Let_def)

lemma no_end_valid_range_or_empty [no_end_intros]: "no_end (valid_range_or_empty a b ed)"
  by (simp add: valid_range_or_empty_def no_end_intros)

lemma no_end_FILE_NAME [no_end_intros]: "no_end (FILE_NAME ed)"
  unfolding FILE_NAME_def by (intro no_end_rules no_end_intros)

lemma no_end_put_stream_line [no_end_intros]: "no_end (put_stream_line fp s ed)"
  by (induction fp s ed rule: put_stream_line.induct) (auto split: bool.split prod.split)

lemma no_end_get_buffer_line [no_end_intros]: "no_end (get_buffer_line lp ed)"
  unfolding get_buffer_line_def Let_def by (intro no_end_rules no_end_intros)

lemma no_end_write_loop [no_end_intros]: "no_end (write_loop k fp lp sz ed)"
  by (induction k arbitrary: lp sz ed) (simp_all only: write_loop.simps Let_def, (intro no_end_rules no_end_intros; assumption?)+)

lemma no_end_write_stream [no_end_intros]: "no_end (write_stream fp lp n ed)"
  unfolding write_stream_def Let_def by (intro no_end_rules no_end_intros)

lemma no_end_write_file [no_end_intros]: "no_end (write_file fn a b m ed)"
  unfolding write_file_def Let_def by (intro no_end_rules no_end_intros)

lemma no_end_write_pipe [no_end_intros]: "no_end (write_pipe os fn a b ed)"
  unfolding write_pipe_def Let_def by (intro no_end_rules no_end_intros)

lemma no_end_w_write [no_end_intros]: "no_end (w_write os c fn ed)"
  unfolding w_write_def Let_def by (intro no_end_rules no_end_intros)

lemma no_end_w_cmd: "cur (input ed) \<noteq> CHR ''q'' \<Longrightarrow> no_end (w_cmd os c ed)"
proof -
  assume q: "cur (input ed) \<noteq> CHR ''q''"
  have "input (snd (valid_range_or_empty a b ed)) = input ed" for a b
    by (simp add: valid_range_or_empty_def is_valid_range_def Let_def throw_def)
  then have "cur (input (snd (valid_range_or_empty a b ed))) \<noteq> CHR ''q''" for a b
    using q by simp
  then show ?thesis
    unfolding w_cmd_def Let_def
    by (intro no_end_andThen_snd) (auto intro!: no_end_if no_end_andThen no_end_intros)
qed

lemma no_end_append_line_node [no_end_intros]: "no_end (append_line_node a b c ed)"
  unfolding append_line_node_def Let_def by (intro no_end_rules no_end_intros)

lemma no_end_seek_end [no_end_intros]: "no_end (seek_end ed)"
  unfolding seek_end_def Let_def by (intro no_end_rules no_end_intros)

lemma no_end_put_buffer_line [no_end_intros]: "no_end (put_buffer_line s n ed)"
  unfolding put_buffer_line_def Let_def by (intro no_end_rules no_end_intros)

lemma no_end_APPEND_UNDO_NODE [no_end_intros]: "no_end (APPEND_UNDO_NODE lp up a ed)"
  unfolding APPEND_UNDO_NODE_def Let_def by (intro no_end_rules no_end_intros)

lemma no_end_PUT_BUFFER_LINE [no_end_intros]: "no_end (PUT_BUFFER_LINE lp s up ed)"
  unfolding PUT_BUFFER_LINE_def Let_def by (intro no_end_rules no_end_intros)

lemma no_end_read_loop [no_end_intros]: "no_end (read_loop k fp lp up sz ed)"
  by (induction k arbitrary: lp up sz ed) (simp_all only: read_loop.simps Let_def, (intro no_end_rules no_end_intros; assumption?)+)

lemma no_end_read_stream [no_end_intros]: "no_end (read_stream fp a ed)"
  unfolding read_stream_def read_finish_def Let_def by (intro no_end_rules no_end_intros)

lemma no_end_read_file [no_end_intros]: "no_end (read_file os fn a ed)"
  unfolding read_file_def Let_def by (intro no_end_rules no_end_intros)

lemma no_end_read_pipe [no_end_intros]: "no_end (read_pipe os fn a ed)"
  unfolding read_pipe_def Let_def by (intro no_end_rules no_end_intros)

lemma no_end_r_read [no_end_intros]: "no_end (r_read os fn ed)"
  unfolding r_read_def Let_def by (intro no_end_rules no_end_intros)

lemma no_end_clear_global_lines [no_end_intros]: "no_end (clear_global_lines a b c ed)"
  unfolding clear_global_lines_def Let_def by (intro no_end_rules no_end_intros)

lemma no_end_delete_lines [no_end_intros]: "no_end (delete_lines a b ed)"
  unfolding delete_lines_def Let_def by (intro no_end_rules no_end_intros)

lemma no_end_reset_undo_queue [no_end_intros]: "no_end (reset_undo_queue ed)"
  unfolding reset_undo_queue_def Let_def by (intro no_end_rules no_end_intros)

lemma no_end_start_undo [no_end_intros]: "no_end (start_undo ed)"
  unfolding start_undo_def Let_def by (intro no_end_rules no_end_intros)

lemma no_end_r_prepare [no_end_intros]: "no_end (r_prepare ed)"
  unfolding r_prepare_def Let_def by (intro no_end_rules no_end_intros)

lemma no_end_r_cmd: "no_end (r_cmd os ed)"
  unfolding r_cmd_def Let_def by (intro no_end_rules no_end_intros)

lemma no_end_save_edit: "no_end (save_edit os sfx pathv ed)"
proof -
  have "exec_command os EXEC_DEPTH (no_region (set_input (''w '' @ s) ed))
      = w_cmd os CHR ''w'' (set_input ('' '' @ s) (reset_command (no_region (set_input (''w '' @ s) ed))))" for s
    unfolding EXEC_DEPTH_Suc by (subst exec_command_key) (auto simp: isspace_def byte_def takes_prefix_def key_w)
  moreover have "no_end (w_cmd os CHR ''w'' (set_input ('' '' @ s) e))" for s e
    by (rule no_end_w_cmd) (simp add: cur_def)
  ultimately have "no_end (exec_command os EXEC_DEPTH (no_region (set_input (''w '' @ s) ed)))" for s by simp
  then show ?thesis unfolding save_edit_def Let_def by (intro no_end_rules)
qed

lemma no_end_open: "input ed = ''r '' @ s \<Longrightarrow> no_end (exec_command os EXEC_DEPTH ed)"
  unfolding EXEC_DEPTH_Suc
  by (subst exec_command_key [where c = "CHR ''r''"]) (auto simp: isspace_def byte_def takes_prefix_def key_r no_end_r_cmd)

text \<open>The switch on the status ends: the fuel is enough, unless a signal handler was not set up with a
  status of its own.\<close>

lemma open_edit_no_end:
  assumes "signal_status sn \<in> {None, Some ERR}"
  shows "no_end (fst (open_edit os sn))" "snd (open_edit os sn) \<in> {None, Some ERR}"
proof -
  have *: "no_end (andThen (next_edit name ed) (\<lambda>_ ed. andThen (exec_command os EXEC_DEPTH ed) f))"
    if "\<And>a ed. no_end (f a ed)" for name ed and f :: "_ \<Rightarrow> _ \<Rightarrow> unit res"
    using that by (cases "get_path_max name \<le> length name") (auto simp: next_edit_def throw_def intro!: no_end_andThen no_end_open)
  show "no_end (fst (open_edit os sn))" "snd (open_edit os sn) \<in> {None, Some ERR}"
    unfolding open_edit_def Let_def using assms
    by (auto split: prod.split sum.split option.split dest!: no_end_failed
          intro!: * no_end_andThen no_end_save_edit no_end_if no_end_option)
qed

lemma handle_status_fuel:
  assumes "signal_status sn \<in> {None, Some ERR}"
  shows "handle_status os (Suc (Suc k)) e sn = handle_status os STATUS_DEPTH e sn"
proof -
  have end1: "handle_status os (Suc k) e sn = handle_status os (Suc 0) e sn" if "e \<notin> {EOF, EOF_NEXT, EOF_PREV}" for e k sn
    using that by simp
  show ?thesis
  proof (cases "e \<in> {EOF, EOF_NEXT, EOF_PREV}")
    case True
    obtain x e1 where x: "save_at_end os sn = (x, e1)" by fastforce
    obtain ok e2 where ok: "(if 1 < length (gl_pathv sn) then fseek (std_in e1) (\<lambda>_. 0) e1 else (False, e1)) = (ok, e2)" by fastforce
    obtain y e3 st where op: "open_edit os (set_buf e2 sn) = ((y, e3), st)" by (metis surj_pair)
    have "no_end (x, e1)"
      using no_end_save_edit [of os "[]" "gl_pathv sn" "buf sn"] x by (auto simp: save_at_end_def split: if_splits)
    then have x': "\<And>e'. x = Inl e' \<Longrightarrow> e' \<notin> {EOF, EOF_NEXT, EOF_PREV}" by (simp add: no_end_def)
    have "no_end (y, e3)" using open_edit_no_end(1) [of "set_buf e2 sn" os] assms op by simp
    then have y': "\<And>e'. y = Inl e' \<Longrightarrow> e' \<notin> {EOF, EOF_NEXT, EOF_PREV}" by (simp add: no_end_def)
    show ?thesis
      unfolding STATUS_DEPTH_def numeral_2_eq_2 handle_status.simps(2) [of os "Suc _" e sn] x prod.case
      by (cases x; cases ok; cases y)
        (simp_all only: sum.case bool.case prod.case ok op True if_True end1 [OF x', of _ k] end1 [OF y', of _ k])
  qed (simp add: STATUS_DEPTH_def numeral_2_eq_2)
qed

section \<open>Quitting\<close>

text \<open>A character that starts neither an address nor a delimiter\<close>

definition starts_command :: "char \<Rightarrow> bool" where
  "starts_command c \<longleftrightarrow> ends_address c \<and> \<not> IS_DELIMITER c \<and> \<not> isspace c \<and>
     c \<notin> {CHR ''$'', CHR ''.'', CHR ''/'', CHR ''?'', APOSTROPHE}"

lemma next_address_none: "starts_command (cur (input ed)) \<Longrightarrow> next_address lib a ed = (Inr (a, False), ed)"
  by (simp add: next_address_def skip_none starts_command_def line_address_def Let_def ends_address_def offset_loop_stop)

text \<open>A command without an address leaves the region at the current line.\<close>

lemma address_range_none:
  assumes "starts_command (cur (input ed))" "0 \<le> dot (state ed)" "dot (state ed) \<le> lines (state ed)"
  shows "address_range lib ed = (Inr 0, set_dot (dot (state ed))
      (set_region_end (dot (state ed)) (set_region_start (dot (state ed)) (set_addrs 0 ed))))"
proof -
  let ?e = "set_addrs 0 ed" and ?d = "dot (state ed)"
  have s: "SKIP_WHITESPACE ?e = ?e" by (rule skip_none) (use assms(1) in \<open>simp add: starts_command_def\<close>)
  have n: "next_address lib ?d ?e = (Inr (?d, False), ?e)" by (rule next_address_none) (use assms(1) in simp)
  have r: "range_loop lib (Suc (Suc (length (input ed)))) False (?d, ?d, ?d) ?e = (Inr (?d, ?d, ?d), ?e)"
    using assms(1) by (simp add: n starts_command_def)
  have "rollover (lines (state ed)) ?d = ?d" using assms(2,3) by (auto simp: rollover_def)
  then show ?thesis
    using assms by (simp add: address_range_def s Let_def r starts_command_def set_range_def check_address_bounds_def del: range_loop.simps)
qed

text \<open>The session waits for a line of the standard input, which is \<open>line\<close>.\<close>

definition at_line :: "string \<Rightarrow> string \<Rightarrow> ed_buffer \<Rightarrow> bool" where
  "at_line line rest ed \<longleftrightarrow>
     sys_all_ok ed \<and> address (exec ed) = None \<and> \<not> f_eof (streams ed (std_in ed)) \<and>
     rest_of (streams ed (std_in ed)) = line @ LINE_FEED # rest \<and> LINE_FEED \<notin> set line \<and> int (length line) < SIZE_MAX - 3"

lemma read_command_line:
  assumes "at_line line rest ed"
  obtains e where "read_command ed = (Inr (), inc_line_no (set_input (line @ [LINE_FEED]) e))"
    "read_frame (std_in ed) (if PROMPT \<in> opt (exec ed) then print (prompt (exec ed)) ed else ed) e"
    "rest_of (streams e (std_in ed)) = rest" "\<not> f_eof (streams e (std_in ed))"
proof -
  let ?p = "if PROMPT \<in> opt (exec ed) then print (prompt (exec ed)) ed else ed"
  have p: "sys_all_ok ?p" "std_in ?p = std_in ed" "streams ?p = streams ed" "exec ?p = exec ed"
    using assms by (simp_all add: at_line_def print_def)
  obtain e where e: "get_stream_line (std_in ed) ?p = (Inr (line @ [LINE_FEED]), e)" "read_frame (std_in ed) ?p e"
      "rest_of (streams e (std_in ed)) = rest" "\<not> f_eof (streams e (std_in ed))"
    by (rule get_stream_line_newline [of line ?p "std_in ed" rest]) (use assms p in \<open>auto simp: at_line_def\<close>)
  have "read_command ed = (Inr (), inc_line_no (set_input (line @ [LINE_FEED]) e))"
    using assms e(1) p unfolding read_command_def Let_def get_stdin_line_def by (simp add: at_line_def)
  then show ?thesis using e that by blast
qed

abbreviation no_address_given :: "ed_buffer \<Rightarrow> ed_buffer" where
  "no_address_given ed \<equiv> set_dot (dot (state ed)) (set_region_end (dot (state ed)) (set_region_start (dot (state ed)) (set_addrs 0 ed)))"

abbreviation quit_status :: "ed_buffer \<Rightarrow> ed_command_error" where
  "quit_status ed \<equiv> (if is_modified (state ed) \<and> SCRIPTED \<notin> opt (exec ed) then EMOD else EOF)"

lemma exec_q:
  assumes "input ed = ''q'' @ [LINE_FEED]" "0 \<le> dot (state ed)" "dot (state ed) \<le> lines (state ed)"
  shows "exec_one os (exec_command os EXEC_DEPTH) ed
      = (Inl (quit_status ed), set_dio_f {} (set_input [] (reset_command (no_address_given ed))))"
proof -
  have c: "starts_command (cur (input ed))"
    using assms(1) by (simp add: starts_command_def ends_address_def IS_DELIMITER_def ctype_defs)
  have "exec_command os EXEC_DEPTH (no_address_given ed) = q_cmd CHR ''q'' (set_input [LINE_FEED] (reset_command (no_address_given ed)))"
    unfolding EXEC_DEPTH_Suc using assms(1)
    by (subst exec_command_key [where c = "CHR ''q''" and s = "[LINE_FEED]"]) (auto simp: isspace_def byte_def takes_prefix_def key_q)
  then show ?thesis
    by (simp add: exec_one_def address_range_none [OF c assms(2,3)] q_cmd_def display_suffix_def suffix_flag_def reset_command_def Let_def)
qed

lemma q_command:
  assumes "at_line ''q'' rest ed" "0 \<le> dot (state ed)" "dot (state ed) \<le> lines (state ed)"
  obtains e where "andThen (read_command ed) (\<lambda>_. exec_one os (exec_command os EXEC_DEPTH)) = (Inl (quit_status ed), e)"
    "clear_flags (state e) = clear_flags (state ed)" "nodes (core e) = nodes (core ed)" "core_fp (core e) = core_fp (core ed)"
    "\<And>x. f_data (streams e x) = f_data (streams ed x)"
    "opt (exec e) = opt (exec ed)" "address (exec e) = None" "exit_status (exec e) = exit_status (exec ed)" "std_in e = std_in ed" "sys_all_ok e"
    "rest_of (streams e (std_in ed)) = rest" "\<not> f_eof (streams e (std_in ed))"
proof -
  let ?p = "if PROMPT \<in> opt (exec ed) then print (prompt (exec ed)) ed else ed"
  obtain e where e: "read_command ed = (Inr (), inc_line_no (set_input (''q'' @ [LINE_FEED]) e))"
    "read_frame (std_in ed) ?p e" "rest_of (streams e (std_in ed)) = rest" "\<not> f_eof (streams e (std_in ed))"
    by (rule read_command_line [OF assms(1)])
  have f: "clear_flags (state e) = clear_flags (state ed)" "core e = core ed" "exec e = exec ed" "std_in e = std_in ed" "sys_all_ok e"
    "f_data (streams e x) = f_data (streams ed x)" for x
    using e(2) by (cases "x = std_in ed"; auto simp: read_frame_def print_def)+
  have st: "dot (state e) = dot (state ed)" "lines (state e) = lines (state ed)" "is_modified (state e) = is_modified (state ed)"
    using arg_cong [OF f(1), of dot] arg_cong [OF f(1), of lines] arg_cong [OF f(1), of is_modified] by simp_all
  have sd: "(state e)\<lparr>dot := dot (state ed)\<rparr> = state e" unfolding st(1) [symmetric] by simp
  let ?e = "inc_line_no (set_input (''q'' @ [LINE_FEED]) e)"
  have "andThen (read_command ed) (\<lambda>_. exec_one os (exec_command os EXEC_DEPTH))
      = (Inl (quit_status ed), set_dio_f {} (set_input [] (reset_command (no_address_given ?e))))"
    unfolding e(1) using exec_q [of ?e os] assms(2,3) f st by simp
  then show ?thesis
    by (rule that) (use f e assms(1) st in \<open>auto simp: reset_command_def sys_all_ok_def at_line_def sd\<close>)
qed

definition may_quit :: "ed_session \<Rightarrow> bool" where
  "may_quit sn \<longleftrightarrow>
     exited sn = None \<and> length (gl_pathv sn) \<le> 1 \<and> IN_PLACE \<notin> opt (exec (buf sn)) \<and> EXIT_ON_ERROR \<notin> opt (exec (buf sn)) \<and>
     0 \<le> dot (state (buf sn)) \<and> dot (state (buf sn)) \<le> lines (state (buf sn))"

lemma handle_end:
  assumes "length (gl_pathv sn) \<le> 1" "IN_PLACE \<notin> opt (exec (buf sn))"
  shows "handle_status os STATUS_DEPTH EOF sn = quit (exit_status (exec (buf sn))) sn"
  using assms by (simp add: STATUS_DEPTH_def numeral_2_eq_2 save_at_end_def)

lemma handle_modified:
  "handle_status os STATUS_DEPTH EMOD sn
     = report 2 EMOD (buf_update (\<lambda>ed. set_is_modified False (set_err ''WARNING: Buffer modified since last write'' ed)) sn)"
  by (simp add: STATUS_DEPTH_def numeral_2_eq_2)

lemma q_ends:
  assumes "may_quit sn" "at_line ''q'' rest (buf sn)" "quit_status (buf sn) = EOF"
  shows "exited (main_step os sn) = Some (exit_status (exec (buf sn)))"
proof (rule q_command [OF assms(2), of os])
  fix e assume e: "andThen (read_command (buf sn)) (\<lambda>_. exec_one os (exec_command os EXEC_DEPTH)) = (Inl (quit_status (buf sn)), e)"
    "opt (exec e) = opt (exec (buf sn))" "exit_status (exec e) = exit_status (exec (buf sn))"
  then show ?thesis
    using assms(1) unfolding main_step_def e(1) assms(3) by (simp add: may_quit_def handle_end quit_def)
qed (use assms(1) in \<open>simp_all add: may_quit_def\<close>)

lemma q_warns:
  fixes os :: "'x os_scheme"
  assumes "may_quit sn" "at_line ''q'' rest (buf sn)" "quit_status (buf sn) = EMOD"
  defines "sn' \<equiv> main_step os sn"
  shows "may_quit sn' \<and> \<not> is_modified (state (buf sn')) \<and> exit_status (exec (buf sn')) = 3 \<and>
     lines (state (buf sn')) = lines (state (buf sn)) \<and> buffer_text (buf sn') = buffer_text (buf sn) \<and>
     nodes (core (buf sn')) = nodes (core (buf sn)) \<and>
     (\<exists>out. std_out (buf sn') = out @ ''?'' @ [LINE_FEED] @ (if VERBOSE \<in> opt (exec (buf sn)) then ''WARNING: Buffer modified since last write'' @ [LINE_FEED] else [])) \<and>
     (\<forall>r. rest = ''q'' @ LINE_FEED # r \<longrightarrow> at_line ''q'' r (buf sn'))"
proof (rule q_command [OF assms(2), of os])
  fix e assume e: "andThen (read_command (buf sn)) (\<lambda>_. exec_one os (exec_command os EXEC_DEPTH)) = (Inl (quit_status (buf sn)), e)"
    "clear_flags (state e) = clear_flags (state (buf sn))" "nodes (core e) = nodes (core (buf sn))" "core_fp (core e) = core_fp (core (buf sn))"
    "\<And>x. f_data (streams e x) = f_data (streams (buf sn) x)"
    "opt (exec e) = opt (exec (buf sn))" "address (exec e) = None" "exit_status (exec e) = exit_status (exec (buf sn))"
    "std_in e = std_in (buf sn)" "sys_all_ok e" "rest_of (streams e (std_in (buf sn))) = rest" "\<not> f_eof (streams e (std_in (buf sn)))"
  have st: "dot (state e) = dot (state (buf sn))" "lines (state e) = lines (state (buf sn))"
    using arg_cong [OF e(2), of dot] arg_cong [OF e(2), of lines] by simp_all
  have b: "buffer_text e' = buffer_text (buf sn)" if "nodes (core e') = nodes (core e)" "core_fp (core e') = core_fp (core e)" "streams e' = streams e" for e'
    by (rule buffer_text_same) (use e(3-5) that in simp_all)
  show ?thesis
    using assms(1) e(3-12) st
    unfolding sn'_def main_step_def e(1) assms(3)
    by (auto simp: handle_modified report_def Let_def may_quit_def b puts_def print_def at_line_def sys_all_ok_def SIZE_MAX_def)
qed (use assms(1) in \<open>simp_all add: may_quit_def\<close>)

end
