(* ===== verification/Signals.thy ===== *)
theory Signals
  imports Session_Props
begin

text \<open>
  Signals (\<open>signal.c\<close>): the handlers, their deferral while the editor is in a critical section
  (\<open>signal_handler\<close>, \<open>spl1\<close>, \<open>spl0\<close>), and the process that signals interrupt.  \<open>_mutex\<close> is the field
  \<open>mutex\<close> of the editor; \<open>sig_flags\<close> and \<open>sig_active\<close> are \<open>_sigflags\<close> and \<open>_sigactive\<close>.  A handler returns,
  jumps to the destination of \<open>longjmp\<close> in \<open>main\<close> or ends the process.  The writing of a file by
  the hangup handler is taken as one step.  \<open>SIGQUIT\<close> is ignored and \<open>SIGCHLD\<close> has its default.
\<close>

datatype signal = SIGHUP | SIGINT | SIGPIPE | SIGWINCH

record ed_process =
  sess :: ed_session
  sig_active :: bool
  sig_flags :: "signal set"

datatype control = Returns | Jumps

abbreviation pbuf :: "ed_process \<Rightarrow> ed_buffer" where "pbuf p \<equiv> buf (sess p)"
abbreviation set_pbuf :: "ed_buffer \<Rightarrow> ed_process \<Rightarrow> ed_process" where "set_pbuf ed \<equiv> sess_update (set_buf ed)"
abbreviation clear_flag :: "signal \<Rightarrow> ed_process \<Rightarrow> ed_process" where "clear_flag s \<equiv> sig_flags_update (\<lambda>f. f - {s})"
abbreviation quits :: "int \<Rightarrow> ed_process \<Rightarrow> control \<times> ed_process" where "quits n p \<equiv> (Returns, sess_update (quit n) p)"
abbreviation dead :: "ed_process \<Rightarrow> bool" where "dead p \<equiv> exited (sess p) \<noteq> None"

section \<open>The handlers\<close>

definition activate_signals :: "ed_process \<Rightarrow> ed_process" where
  "activate_signals = sig_active_update (\<lambda>_. True)"

text \<open>The byte before the value of \<open>HOME\<close> is the equals sign, should the value be empty.\<close>

definition hup_name :: "string \<Rightarrow> string" where
  "hup_name home = home @ (if home \<noteq> [] \<and> last home = CHR ''/'' then [] else ''/'') @ ''ed.hup''"

definition handle_hup :: "(string \<Rightarrow> string option) \<Rightarrow> ed_process \<Rightarrow> control \<times> ed_process" where
  "handle_hup getenv p =
     (if \<not> sig_active p then quits 1 p
      else
        let p = clear_flag SIGHUP p; n = lines (state (pbuf p))
        in if n = 0 then quits 2 p
           else
             case write_file ''ed.hup'' 1 n CHR ''w'' (pbuf p) of
               (Inr _, ed) \<Rightarrow> quits 2 (set_pbuf ed p)
             | (Inl _, ed) \<Rightarrow>
                 (case getenv ''HOME'' of
                    None \<Rightarrow> quits 2 (set_pbuf ed p)
                  | Some home \<Rightarrow>
                      (case sys_call ed of
                         (False, ed) \<Rightarrow> quits 2 (set_pbuf ed p)
                       | (True, ed) \<Rightarrow> quits 2 (set_pbuf (snd (write_file (hup_name home) 1 n CHR ''w'' ed)) p))))"

definition handle_int :: "ed_process \<Rightarrow> control \<times> ed_process" where
  "handle_int p = (if \<not> sig_active p then quits 1 p else (Jumps, clear_flag SIGINT p))"

definition handle_sigpipe :: "ed_process \<Rightarrow> control \<times> ed_process" where
  "handle_sigpipe p = (if \<not> sig_active p then quits 1 p else (Returns, clear_flag SIGPIPE p))"

text \<open>\<open>ws\<close> is what \<open>ioctl\<close> returns: rows and columns.\<close>

definition handle_winch :: "(int \<times> int) option \<Rightarrow> ed_process \<Rightarrow> control \<times> ed_process" where
  "handle_winch ws p =
     (let p = (if sig_active p then clear_flag SIGWINCH p else p) in
      case ws of
        None \<Rightarrow> (Returns, p)
      | Some (r, c) \<Rightarrow>
          let ed = pbuf p;
              ed = (if 1 < r \<and> r < ROWS_MAX then display_update (ws_row_update (\<lambda>_. r)) ed else ed);
              ed = (if TAB_WIDTH < c \<and> c < COLUMNS_MAX then display_update (ws_col_update (\<lambda>_. c)) ed else ed)
          in (Returns, set_pbuf ed p))"

fun sighandler :: "(string \<Rightarrow> string option) \<Rightarrow> (int \<times> int) option \<Rightarrow> signal \<Rightarrow> ed_process \<Rightarrow> control \<times> ed_process" where
  "sighandler getenv ws SIGHUP = handle_hup getenv"
| "sighandler getenv ws SIGINT = handle_int"
| "sighandler getenv ws SIGPIPE = handle_sigpipe"
| "sighandler getenv ws SIGWINCH = handle_winch ws"

section \<open>Critical sections\<close>

definition signal_handler :: "(string \<Rightarrow> string option) \<Rightarrow> (int \<times> int) option \<Rightarrow> signal \<Rightarrow> ed_process \<Rightarrow> control \<times> ed_process" where
  "signal_handler getenv ws s p =
     (if mutex (pbuf p) \<noteq> 0 then (Returns, sig_flags_update (insert s) p) else sighandler getenv ws s p)"

definition enter :: "ed_process \<Rightarrow> ed_process" where
  "enter p = set_pbuf (spl1 (pbuf p)) p"

definition if_pending :: "signal \<Rightarrow> (ed_process \<Rightarrow> control \<times> ed_process) \<Rightarrow> control \<times> ed_process \<Rightarrow> control \<times> ed_process" where
  "if_pending s h r = (case r of (c, p) \<Rightarrow> if c = Jumps \<or> dead p \<or> s \<notin> sig_flags p then (c, p) else h p)"

text \<open>\<open>spl0\<close> with pending signals\<close>

definition leave :: "(string \<Rightarrow> string option) \<Rightarrow> (int \<times> int) option \<Rightarrow> ed_process \<Rightarrow> control \<times> ed_process" where
  "leave getenv ws p =
     (let p = set_pbuf (spl0 (pbuf p)) p in
      if mutex (pbuf p) \<noteq> 0 then (Returns, p)
      else if_pending SIGWINCH (handle_winch ws) (if_pending SIGINT handle_int (if_pending SIGHUP (handle_hup getenv) (Returns, p))))"

section \<open>The process\<close>

definition resume :: "'x os_scheme \<Rightarrow> control \<times> ed_process \<Rightarrow> ed_process" where
  "resume os r = (case r of (Jumps, p) \<Rightarrow> sess_update (interrupt os) p | (Returns, p) \<Rightarrow> p)"

text \<open>Signals come at any time; the editor enters and leaves critical sections and runs rounds of
  its loop.\<close>

inductive process_step ::
  "'x os_scheme \<Rightarrow> (string \<Rightarrow> string option) \<Rightarrow> ed_process \<Rightarrow> ed_process \<Rightarrow> bool" for os getenv where
  signalled: "\<not> dead p \<Longrightarrow> process_step os getenv p (resume os (signal_handler getenv ws s p))"
| entered: "\<not> dead p \<Longrightarrow> process_step os getenv p (enter p)"
| left: "\<not> dead p \<Longrightarrow> 0 < mutex (pbuf p) \<Longrightarrow> process_step os getenv p (resume os (leave getenv ws p))"
| worked: "\<not> dead p \<Longrightarrow> mutex (pbuf p) = 0 \<Longrightarrow> process_step os getenv p (sess_update (main_step os) p)"

inductive_cases process_stepE: "process_step os getenv p q"

text \<open>The steps that do not leave more critical sections than were entered\<close>

definition balanced_step :: "'x os_scheme \<Rightarrow> (string \<Rightarrow> string option) \<Rightarrow> ed_process \<Rightarrow> ed_process \<Rightarrow> bool" where
  "balanced_step os getenv p q \<longleftrightarrow> process_step os getenv p q \<and> 0 \<le> mutex (pbuf q)"

section \<open>Signals are deferred\<close>

lemma enter_fields [simp]:
  "mutex (pbuf (enter p)) = mutex (pbuf p) + 1" "sig_flags (enter p) = sig_flags p" "sig_active (enter p) = sig_active p"
  "exited (sess (enter p)) = exited (sess p)"
  by (simp_all add: enter_def spl1_def)

lemma signal_deferred:
  "mutex (pbuf p) \<noteq> 0 \<Longrightarrow> signal_handler getenv ws s p = (Returns, sig_flags_update (insert s) p)"
  by (simp add: signal_handler_def)

text \<open>Signals that come one after the other, while the process goes on\<close>

fun signals :: "'x os_scheme \<Rightarrow> (string \<Rightarrow> string option) \<Rightarrow> (int \<times> int) option \<Rightarrow> signal list \<Rightarrow> ed_process \<Rightarrow> ed_process" where
  "signals os getenv ws [] p = p"
| "signals os getenv ws (s # ss) p = signals os getenv ws ss (resume os (signal_handler getenv ws s p))"

lemma signals_deferred:
  "mutex (pbuf p) \<noteq> 0 \<Longrightarrow> signals os getenv ws ss p = sig_flags_update (\<lambda>f. f \<union> set ss) p"
proof (induction ss arbitrary: p)
  case (Cons s ss)
  show ?case
    using Cons.IH [of "sig_flags_update (insert s) p"] Cons.prems
    by (cases p) (simp add: signal_deferred resume_def Un_commute)
qed simp

lemma handle_hup_quits: "sig_active p \<Longrightarrow> exited (sess (snd (handle_hup getenv p))) = Some 2 \<and> fst (handle_hup getenv p) = Returns"
  by (auto simp: handle_hup_def quit_def Let_def split: prod.split sum.split option.split bool.split)

lemma handle_winch_fields:
  "fst (handle_winch ws p) = Returns" "exited (sess (snd (handle_winch ws p))) = exited (sess p)"
  "sig_active p \<Longrightarrow> sig_flags (snd (handle_winch ws p)) = sig_flags p - {SIGWINCH}" "sig_active (snd (handle_winch ws p)) = sig_active p"
  "mutex (pbuf (snd (handle_winch ws p))) = mutex (pbuf p)"
  by (auto simp: handle_winch_def Let_def split: option.split)

text \<open>What leaving the outermost critical section does: a hangup ends the process, an interrupt jumps, and
  otherwise every other signal that came, a broken pipe apart, has been handled.\<close>

lemma leave_handles:
  assumes "mutex (pbuf p) = 1" "sig_active p" "\<not> dead p"
  shows "SIGHUP \<in> sig_flags p \<Longrightarrow> fst (leave getenv ws p) = Returns \<and> exited (sess (snd (leave getenv ws p))) = Some 2"
    and "SIGHUP \<notin> sig_flags p \<Longrightarrow> SIGINT \<in> sig_flags p \<Longrightarrow>
      leave getenv ws p = (Jumps, clear_flag SIGINT (set_pbuf (spl0 (pbuf p)) p))"
    and "SIGHUP \<notin> sig_flags p \<Longrightarrow> SIGINT \<notin> sig_flags p \<Longrightarrow>
      fst (leave getenv ws p) = Returns \<and> \<not> dead (snd (leave getenv ws p)) \<and> sig_flags (snd (leave getenv ws p)) = sig_flags p \<inter> {SIGPIPE}"
proof -
  let ?p = "set_pbuf (spl0 (pbuf p)) p"
  have l: "leave getenv ws p = if_pending SIGWINCH (handle_winch ws) (if_pending SIGINT handle_int (if_pending SIGHUP (handle_hup getenv) (Returns, ?p)))"
    using assms(1) by (simp add: leave_def spl0_def Let_def)
  have a: "sig_active ?p" "\<not> dead ?p" "sig_flags ?p = sig_flags p" using assms by simp_all
  show "fst (leave getenv ws p) = Returns \<and> exited (sess (snd (leave getenv ws p))) = Some 2" if "SIGHUP \<in> sig_flags p"
    unfolding l using that handle_hup_quits [OF a(1), of getenv] a assms(3)
    by (cases "handle_hup getenv ?p") (auto simp: if_pending_def)
  show "leave getenv ws p = (Jumps, clear_flag SIGINT ?p)" if "SIGHUP \<notin> sig_flags p" "SIGINT \<in> sig_flags p"
    unfolding l using that assms by (simp add: if_pending_def handle_int_def)
  show "fst (leave getenv ws p) = Returns \<and> \<not> dead (snd (leave getenv ws p)) \<and> sig_flags (snd (leave getenv ws p)) = sig_flags p \<inter> {SIGPIPE}"
    if "SIGHUP \<notin> sig_flags p" "SIGINT \<notin> sig_flags p"
  proof -
    have w: "s = SIGPIPE" if "s \<in> sig_flags p" "s \<noteq> SIGWINCH" for s
      using that \<open>SIGHUP \<notin> _\<close> \<open>SIGINT \<notin> _\<close> by (cases s) auto
    then have "sig_flags p - {SIGWINCH} = sig_flags p \<inter> {SIGPIPE}" by auto
    with w show ?thesis
      unfolding l using that a assms handle_winch_fields [where ws = ws and p = ?p] by (auto simp: if_pending_def)
  qed
qed

section \<open>No signal is forgotten\<close>

lemma mutex_updates [simp]:
  "mutex (snd (sys_call ed)) = mutex ed" "mutex (snd (fseek fp f ed)) = mutex ed" "mutex (spl1 ed) = mutex ed + 1"
  "mutex (spl0 ed) = mutex ed - 1" "mutex (print s ed) = mutex ed" "mutex (puts s ed) = mutex ed" "mutex (print_err s ed) = mutex ed"
  by (simp_all add: sys_call_def fseek_def spl1_def spl0_def print_def puts_def print_err_def upd_stream_def split: prod.split bool.split)

lemma restore_script_frame:
  "mutex (snd (restore_script f ed)) = mutex ed" "fst (restore_script f ed) \<in> {Inr (), Inl ERR, Inl FATAL}"
proof -
  have k: "fseek fp g e = (b, e') \<Longrightarrow> mutex e' = mutex e" "sys_call e = (b, e') \<Longrightarrow> mutex e' = mutex e" for fp g e b e'
    using mutex_updates(2) [of fp g e] mutex_updates(1) [of e] by simp_all
  show "mutex (snd (restore_script f ed)) = mutex ed"
    unfolding restore_script_def Let_def
    by (auto split: option.split prod.split bool.split simp: throw_def upd_stream_def dest!: k)
  show "fst (restore_script f ed) \<in> {Inr (), Inl ERR, Inl FATAL}"
    unfolding restore_script_def Let_def by (auto split: option.split prod.split bool.split simp: throw_def)
qed

lemma unwind_frame:
  "mutex (snd (unwind_stack_frame ERR ed)) = mutex ed" "fst (unwind_stack_frame ERR ed) \<in> {ERR, FATAL}"
  using restore_script_frame [of "stack_frame (core ed) 0" "core_update (sp_update (\<lambda>n. n - 1)) (spl1 ed)"]
  by (auto simp: unwind_stack_frame_def Let_def split: prod.split sum.split)

lemma report_mutex: "mutex (buf (report n e sn)) = mutex (buf sn)"
  by (simp add: report_def Let_def)

lemma interrupt_mutex: "mutex (buf (interrupt os sn)) = mutex (buf sn)"
  using unwind_frame [of "buf sn"]
  by (cases "unwind_stack_frame ERR (buf sn)") (auto simp: interrupt_def STATUS_DEPTH_def numeral_2_eq_2 report_mutex)

definition signals_ok :: "ed_process \<Rightarrow> bool" where
  "signals_ok p \<longleftrightarrow> sig_active p \<and> (\<not> dead p \<longrightarrow> 0 \<le> mutex (pbuf p) \<and> (mutex (pbuf p) = 0 \<longrightarrow> SIGHUP \<notin> sig_flags p \<and> SIGINT \<notin> sig_flags p))"

lemma handler_active:
  "sig_active (snd (handle_hup getenv p)) = sig_active p" "sig_active (snd (handle_int p)) = sig_active p"
  "sig_active (snd (if_pending s h (c, p))) = (if c = Jumps \<or> dead p \<or> s \<notin> sig_flags p then sig_active p else sig_active (snd (h p)))"
  by (auto simp: handle_hup_def handle_int_def if_pending_def Let_def split: prod.split sum.split option.split bool.split)

lemma resume_simps [simp]: "resume os (Returns, p) = p" "resume os (Jumps, p) = sess_update (interrupt os) p"
  by (simp_all add: resume_def)

lemma sighandler_ok:
  assumes "sig_active p" "\<not> dead p" "mutex (pbuf p) = 0" "SIGHUP \<notin> sig_flags p" "SIGINT \<notin> sig_flags p"
  shows "signals_ok (resume os (sighandler getenv ws s p))"
proof (cases s)
  case SIGHUP
  obtain c q where q: "handle_hup getenv p = (c, q)" by fastforce
  show ?thesis using handle_hup_quits [OF assms(1), of getenv] handler_active(1) [of getenv p] q assms(1) SIGHUP
    by (simp add: signals_ok_def)
next
  case SIGINT
  then show ?thesis using assms by (simp add: signals_ok_def handle_int_def interrupt_mutex)
next
  case SIGPIPE
  then show ?thesis using assms by (simp add: signals_ok_def handle_sigpipe_def)
next
  case SIGWINCH
  obtain c q where q: "handle_winch ws p = (c, q)" by fastforce
  show ?thesis using handle_winch_fields [where ws = ws and p = p] q assms SIGWINCH by (simp add: signals_ok_def)
qed

lemma if_pending_active:
  "(\<And>p. sig_active (snd (h p)) = sig_active p) \<Longrightarrow> sig_active (snd (if_pending s h r)) = sig_active (snd r)"
  by (cases r) (simp add: handler_active)

lemma leave_active: "sig_active (snd (leave getenv ws p)) = sig_active p"
  by (simp add: leave_def Let_def if_pending_active handler_active handle_winch_fields)

lemma leave_mutex:
  assumes "mutex (pbuf p) = 1" "SIGHUP \<notin> sig_flags p" "SIGINT \<notin> sig_flags p"
  shows "mutex (pbuf (snd (leave getenv ws p))) = 0"
  using assms by (simp add: leave_def if_pending_def Let_def handle_winch_fields)

lemma leave_ok:
  assumes "signals_ok p" "\<not> dead p" "0 < mutex (pbuf p)"
  shows "signals_ok (resume os (leave getenv ws p))"
proof (cases "mutex (pbuf p) = 1")
  case True
  have a: "sig_active p" using assms(1) by (simp add: signals_ok_def)
  note l = leave_handles [OF True a assms(2), of getenv ws]
  obtain c q where q: "leave getenv ws p = (c, q)" by fastforce
  have aq: "sig_active q" using leave_active [of getenv ws p] a q by simp
  consider "SIGHUP \<in> sig_flags p" | "SIGHUP \<notin> sig_flags p" "SIGINT \<in> sig_flags p" | "SIGHUP \<notin> sig_flags p" "SIGINT \<notin> sig_flags p"
    by blast
  then show ?thesis
  proof cases
    case 1
    then show ?thesis using l(1) [OF 1] aq q by (simp add: signals_ok_def)
  next
    case 2
    then show ?thesis using l(2) [OF 2] a True by (simp add: signals_ok_def interrupt_mutex)
  next
    case 3
    have "mutex (pbuf q) = 0" using leave_mutex [of p getenv ws] q True 3 l(3) [OF 3] by simp
    then show ?thesis using l(3) [OF 3] aq q by (simp add: signals_ok_def)
  qed
next
  case False
  then show ?thesis using assms by (simp add: leave_def Let_def signals_ok_def)
qed

lemma balanced_step_ok:
  assumes "balanced_step os getenv p q" "signals_ok p"
  shows "signals_ok q"
proof -
  have st: "process_step os getenv p q" "0 \<le> mutex (pbuf q)" using assms(1) by (simp_all add: balanced_step_def)
  from st(1) show ?thesis
  proof cases
    case (signalled ws s)
    show ?thesis
    proof (cases "mutex (pbuf p) = 0")
      case True
      then show ?thesis
        using signalled assms(2) sighandler_ok [of p os getenv ws s] by (simp add: signals_ok_def [of p] signal_handler_def)
    next
      case False
      then show ?thesis using signalled assms(2) by (simp add: signal_handler_def signals_ok_def)
    qed
  next
    case entered
    then show ?thesis using assms(2) by (simp add: signals_ok_def)
  next
    case (left ws)
    then show ?thesis using leave_ok [OF assms(2)] by simp
  next
    case worked
    then show ?thesis using assms(2) st(2) by (simp add: signals_ok_def)
  qed
qed

lemma balanced_steps_ok: "(balanced_step os getenv)\<^sup>*\<^sup>* p q \<Longrightarrow> signals_ok p \<Longrightarrow> signals_ok q"
  by (induction rule: rtranclp_induct) (auto intro: balanced_step_ok)

text \<open>With one \<open>spl0\<close> too many the mutex is negative: signals are recorded and no section delivers them.\<close>

lemma negative_mutex_keeps:
  assumes "mutex (pbuf p) = - 1"
  shows "sig_flags (snd (leave getenv ws (enter (snd (signal_handler getenv ws' s p))))) = insert s (sig_flags p)"
    "exited (sess (snd (leave getenv ws (enter (snd (signal_handler getenv ws' s p)))))) = exited (sess p)"
    "mutex (pbuf (snd (leave getenv ws (enter (snd (signal_handler getenv ws' s p)))))) = - 1"
  using assms by (simp_all add: signal_handler_def leave_def Let_def)

end
