(* ===== verification/File_Props.thy ===== *)
theory File_Props
  imports Signals
begin

text \<open>
  What is written to a file, and what is read back: \<open>write_file\<close> stores the texts of the lines of the
  range, \<open>read_file\<close> inserts the lines of the file after the line addressed, so that a buffer written
  and read again is the same text.  The hangup handler saves the buffer.
\<close>

definition streams_fresh :: "ed_buffer \<Rightarrow> bool" where
  "streams_fresh ed \<longleftrightarrow> core_fp (core ed) < next_stream ed \<and> std_in ed < next_stream ed"

lemma next_stream_sys [simp]: "next_stream (snd (sys_call ed)) = next_stream ed"
  by (simp add: sys_call_def)

lemma next_stream_put: "next_stream (snd (put_stream_line fp s ed)) = next_stream ed"
  by (induction fp s ed rule: put_stream_line.induct) (auto simp: sys_call_def throw_def upd_stream_def split: bool.split)

lemma next_stream_fseek: "fseek fp f ed = (b, e) \<Longrightarrow> next_stream e = next_stream ed"
  by (auto simp: fseek_def sys_call_def upd_stream_def split: bool.splits)

lemma next_stream_get: "next_stream (snd (get_buffer_line lp ed)) = next_stream ed"
  by (auto simp: get_buffer_line_def Let_def sys_call_def throw_def upd_stream_def dest!: next_stream_fseek split: bool.split prod.split)

lemma next_stream_write: "next_stream (snd (write_loop n fp lp sz ed)) = next_stream ed"
proof (induction n arbitrary: lp sz ed)
  case (Suc n)
  have g: "next_stream e = next_stream ed" if "get_buffer_line lp ed = (r, e)" for r e
    using next_stream_get [of lp ed] that by simp
  have p: "next_stream e' = next_stream e" if "put_stream_line fp s e = (r, e')" for s e r e'
    using next_stream_put [of fp s e] that by simp
  show ?case
    by (auto simp: andThen_def Let_def throw_def clearerr_def upd_stream_def Suc.IH dest!: g p split: prod.split sum.split)
qed simp

lemma write_file_ok:
  assumes inv: "buf_inv ed ns" "disk_inv ed" "sys_all_ok ed" "streams_fresh ed"
    and range: "1 \<le> from" "from \<le> to" "to \<le> lines (state ed)"
    and fits: "int (length (bytes_of (segment from to (buffer_text ed ns)))) < OFF_T_MAX"
    and fn: "fn \<noteq> ''/dev/null''"
  shows "\<exists>ed'. write_file fn from to CHR ''w'' ed
       = (Inr (to - from + 1, int (length (written (state ed) (segment from to (buffer_text ed ns))))), ed') \<and>
     files ed' = (files ed)(fn \<mapsto> written (state ed) (segment from to (buffer_text ed ns))) \<and>
     buf_inv ed' ns \<and> disk_inv ed' \<and> sys_all_ok ed' \<and> streams_fresh ed' \<and> state ed' = state ed \<and> state1 ed' = state1 ed \<and>
     exec ed' = exec ed \<and> (\<exists>b off. core ed' = (core ed)\<lparr>seek_on_write := b, offset := off\<rparr>) \<and>
     f_data (disk ed') = f_data (disk ed) \<and> buffer_text ed' ns = buffer_text ed ns"
proof -
  let ?w = "written (state ed) (segment from to (buffer_text ed ns))"
  define e1 where "e1 = cache_node (node_at ns from) from ed"
  define fp where "fp = next_stream ed"
  define e2 where "e2 = upd_stream fp (f_pos_update (\<lambda>_. 0)) (snd (open_stream [] (store_file fn [] (sys_n_update Suc e1))))"
  have bounds: "0 \<le> from" "from \<le> lines (state ed)" and nz: "from \<noteq> 0" using range by simp_all
  have g: "get_line_node from ed = (node_at ns from, e1)"
    unfolding e1_def by (rule get_line_node_eq [OF inv(1) bounds])
  have b1: "buf_inv e1 ns" unfolding e1_def by (rule buf_inv_cache_node [OF inv(1) bounds])
  have s1: "sys_all_ok e1" "state e1 = state ed" "core e1 = core ed" "streams e1 = streams ed" "next_stream e1 = next_stream ed" "files e1 = files ed"
    using inv(3) by (simp_all add: e1_def sys_all_ok_def cache_node_def)
  have w: "fopen_write fn CHR ''w'' e1 = (Some fp, e2)"
    using s1 by (simp add: fopen_write_def e2_def fp_def open_stream_def Let_def store_file_def)
  have fpc: "fp \<noteq> core_fp (core ed)" using inv(4) by (simp add: fp_def streams_fresh_def)
  have e2: "core e2 = core ed" "state e2 = state ed" "state1 e2 = state1 ed" "statics e2 = statics e1" "sys_ok e2 = sys_ok ed"
    "streams e2 = (streams ed)(fp := empty_stream)" "files e2 = (files ed)(fn \<mapsto> [])"
    using s1 fn by (simp_all add: e2_def e1_def open_stream_def store_file_def fp_def empty_stream_def upd_stream_def cache_node_def)
  have i2: "buf_inv e2 ns" "disk_inv e2" "sys_all_ok e2"
    using b1 inv(2,3) s1 e2 fpc by (simp_all add: buf_inv_def disk_inv_def node_stored_def sys_all_ok_def)
  have tx: "buffer_text e2 = buffer_text ed" by (rule buffer_text_same) (use e2 fpc in simp_all)
  obtain e3 where e3: "write_stream fp (node_at ns from) (to - from + 1) e2 = (Inr (int (length ?w)), e3)" "wrote fp ?w e2 ns e3"
    using write_stream_ok [OF i2, of fp "from" to] fpc range fits e2 by (auto simp: tx empty_stream_def)
  have f3: "files e3 = (files ed)(fn \<mapsto> [])"
    using kept_write_stream [of "env_of e2" e2 fp "node_at ns from" "to - from + 1"] e3(1) e2(7) by (simp add: kept_def env_of_def)
  have d: "f_data (streams e3 fp) = ?w" using e3(2) e2(6) by (simp add: wrote_def empty_stream_def)
  define e4 where "e4 = store_file fn ?w (sys_n_update Suc e3)"
  have c: "fclose_write fn fp e3 = (True, e4)"
    using e3(2) d by (simp add: fclose_write_def e4_def wrote_def)
  have "write_file fn from to CHR ''w'' ed = (Inr (to - from + 1, int (length ?w)), e4)"
    unfolding write_file_def g prod.case Let_def
    using range by (simp only: w prod.case option.case nz not_False_eq_True if_True e3(1) andThen_Inr c bool.case)
  moreover have i4: "buf_inv e4 = buf_inv e3" "disk_inv e4 = disk_inv e3" "sys_all_ok e4 = sys_all_ok e3" "state e4 = state e3" "state1 e4 = state1 e3"
    by (simp_all add: e4_def store_file_def sys_all_ok_def buf_inv_def disk_inv_def node_stored_def fun_eq_iff)
  have "buf_inv e4 ns" "disk_inv e4" "sys_all_ok e4" "state e4 = state ed" "state1 e4 = state1 ed"
    unfolding i4 using e3(2) e2 by (simp_all add: wrote_def)
  moreover have "files e4 = (files ed)(fn \<mapsto> ?w)" using f3 fn by (simp add: e4_def store_file_def)
  moreover have "buffer_text e4 = buffer_text ed"
  proof -
    have "buffer_text e4 = buffer_text e3" by (rule buffer_text_same) (simp_all add: e4_def store_file_def)
    also have "buffer_text e3 = buffer_text e2" by (rule ext) (simp add: buffer_text_def wrote_text [OF e3(2)])
    finally show ?thesis using tx by simp
  qed
  moreover have "next_stream e3 = next_stream e2"
    using next_stream_write [of "nat (to - from + 1)" fp "node_at ns from" 0 e2] e3(1) by (simp add: write_stream_def)
  then have "next_stream e4 = Suc (next_stream ed)"
    using s1(5) by (simp add: e4_def e2_def store_file_def open_stream_def)
  moreover have "std_in e2 = std_in ed" "exec e2 = exec ed"
    by (simp_all add: e2_def e1_def open_stream_def store_file_def upd_stream_def cache_node_def)
  then have "std_in e4 = std_in ed" "exec e4 = exec ed" "\<exists>b off. core e4 = (core ed)\<lparr>seek_on_write := b, offset := off\<rparr>"
    "f_data (disk e4) = f_data (disk ed)"
    using e3(2) e2 fpc unfolding e4_def wrote_def store_file_def by auto
  ultimately show ?thesis using inv(4) by (intro exI [of _ e4]) (auto simp: streams_fresh_def)
qed

text \<open>Reading a file: the lines of its contents, the last also without a newline\<close>

lemma read_file_ok:
  assumes inv: "buf_inv ed ns" "undo_inv ed ns0 ns" "disk_inv ed" "sys_all_ok ed" "streams_fresh ed"
    and after: "0 \<le> after" "after \<le> lines (state ed)"
    and contents: "files ed fn = Some (bytes_of us @ tail)" "fn \<noteq> ''/dev/null''" "WRITE_ONLY \<notin> opt (exec ed)"
    and data: "\<forall>t\<in>set (tail # us). LINE_FEED \<notin> set t \<and> int (length t) < SIZE_MAX - 3"
    and r: "room (length (text_lines us tail)) (total_length (text_lines us tail)) ed"
  shows "\<exists>ed' ns' n sz. read_file os fn after ed = (Inr (n, sz), ed') \<and>
     buf_inv ed' ns' \<and> undo_inv ed' ns0 ns' \<and> disk_inv ed' \<and>
     buffer_text ed' ns' = insert_after after (text_lines us tail) (buffer_text ed ns) \<and>
     n = int (length (text_lines us tail)) \<and> dot (state ed') = after + n"
proof -
  have sf: "file_contents fn ed = Some (bytes_of us @ tail)" using contents by (simp add: file_contents_def)
  define fp where "fp = next_stream ed"
  define e1 where "e1 = snd (open_stream (bytes_of us @ tail) (sys_n_update Suc (sys_n_update Suc ed)))"
  have e1: "core e1 = core ed" "state e1 = state ed" "state1 e1 = state1 ed" "statics e1 = statics ed" "sys_ok e1 = sys_ok ed" "std_in e1 = std_in ed"
    "streams e1 = (streams ed)(fp := \<lparr>f_data = bytes_of us @ tail, f_pos = 0, f_eof = False\<rparr>)"
    by (simp_all add: e1_def open_stream_def fp_def upd_stream_def)
  have fpn: "fp \<noteq> core_fp (core ed)" "fp \<noteq> std_in ed" using inv(5) by (simp_all add: fp_def streams_fresh_def)
  have i1: "buf_inv e1 ns" "undo_inv e1 ns0 ns" "disk_inv e1" "sys_all_ok e1"
    using inv e1 fpn by (simp_all add: buf_inv_def undo_inv_def disk_inv_def node_stored_def sys_all_ok_def)
  have tx: "buffer_text e1 = buffer_text ed" by (rule buffer_text_same) (use e1 fpn in simp_all)
  have op: "fopen_read fn (sys_n_update Suc ed) = (Some fp, e1)"
    using contents(1,2) inv(4) by (simp add: fopen_read_def open_stream_def e1_def fp_def file_contents_def sys_all_ok_def sys_call_def)
  have r1: "room (length (text_lines us tail)) (total_length (text_lines us tail)) e1"
    using r e1 fpn by (simp add: room_def)
  obtain ed' ns' where q: "read_stream fp after e1 = (Inr (read_size (after = lines (state e1)) (state e1) us tail), ed')"
     "buf_inv ed' ns'" "undo_inv ed' ns0 ns'" "disk_inv ed'" "buffer_text ed' ns' = insert_after after (text_lines us tail) (buffer_text e1 ns)"
     "dot (state ed') = after + int (length (text_lines us tail))"
    using read_stream_ok [OF i1, of after fp us tail] after fpn data r1 e1 by (auto simp: rest_of_def)
  have so: "sys_ok ed' = sys_ok ed"
    using kept_read_stream [of "env_of e1" e1 fp after] q(1) e1(5) by (simp add: kept_def env_of_def)
  have rf: "read_file os fn after ed = andThen (read_stream fp after e1) (\<lambda>sz e.
      let addr = dot (state e) - after;
          e = (if (os_fifo os fn \<or> \<not> os_writable os fn) \<and> \<not> posix_or_traditional e \<and> VERBOSE \<in> opt (exec e)
               then print_err (fn @ '': File is read-only'' @ [LINE_FEED]) e else e)
      in case sys_call e of (False, e) \<Rightarrow> throw ''File close error'' e | (True, e) \<Rightarrow> (Inr (addr, sz), e))"
    unfolding read_file_def Let_def using sf contents(3) inv(4) op by (simp add: sys_call_def sys_all_ok_def)
  define ro where "ro = ((os_fifo os fn \<or> \<not> os_writable os fn) \<and> \<not> posix_or_traditional ed' \<and> VERBOSE \<in> opt (exec ed'))"
  define e3 where "e3 = sys_n_update Suc (if ro then print_err (fn @ '': File is read-only'' @ [LINE_FEED]) ed' else ed')"
  have k: "buf_inv e3 ns'" "undo_inv e3 ns0 ns'" "disk_inv e3" "buffer_text e3 = buffer_text ed'" "dot (state e3) = dot (state ed')"
    using q(2-4) by (auto simp: e3_def print_err_def undo_inv_def buffer_text_def node_text_def fun_eq_iff)
  have "read_file os fn after ed = (Inr (int (length (text_lines us tail)), read_size (after = lines (state e1)) (state e1) us tail), e3)"
    unfolding rf q(1) using q(6) so inv(4)
    by (simp add: Let_def ro_def [symmetric] e3_def sys_call_def sys_all_ok_def print_err_def)
  then show ?thesis using k q(5,6) tx by (intro exI [of _ e3]) auto
qed

text \<open>The lines of a range written to a file and read back\<close>

lemma write_read:
  assumes inv: "buf_inv ed ns" "undo_inv ed ns0 ns" "disk_inv ed" "sys_all_ok ed" "streams_fresh ed"
    and range: "1 \<le> from" "from \<le> to" "to \<le> lines (state ed)" and after: "0 \<le> after" "after \<le> lines (state ed)"
    and fn: "fn \<noteq> ''/dev/null''" "WRITE_ONLY \<notin> opt (exec ed)" "\<not> (is_binary (state ed) \<and> newline_appended (state ed))"
    and lns: "\<forall>t\<in>set (segment from to (buffer_text ed ns)). LINE_FEED \<notin> set t \<and> int (length t) < SIZE_MAX - 3"
      "int (length (bytes_of (segment from to (buffer_text ed ns)))) < OFF_T_MAX"
    and r: "room (length (segment from to (buffer_text ed ns))) (total_length (segment from to (buffer_text ed ns))) ed"
  shows "\<exists>sz ed1. write_file fn from to CHR ''w'' ed = (Inr (to - from + 1, sz), ed1) \<and> buffer_text ed1 ns = buffer_text ed ns \<and>
    (\<exists>sz' ed2 ns2. read_file os fn after ed1 = (Inr (to - from + 1, sz'), ed2) \<and> buf_inv ed2 ns2 \<and> disk_inv ed2 \<and> undo_inv ed2 ns0 ns2 \<and>
      buffer_text ed2 ns2 = insert_after after (segment from to (buffer_text ed ns)) (buffer_text ed ns) \<and> dot (state ed2) = after + (to - from + 1))"
proof -
  let ?us = "segment from to (buffer_text ed ns)"
  have w: "written (state ed) ?us = bytes_of ?us" by (rule written_text [OF fn(3)])
  obtain ed1 where q: "write_file fn from to CHR ''w'' ed = (Inr (to - from + 1, int (length (bytes_of ?us))), ed1)"
    "files ed1 = (files ed)(fn \<mapsto> bytes_of ?us)" "buf_inv ed1 ns" "disk_inv ed1" "sys_all_ok ed1" "streams_fresh ed1"
    "state ed1 = state ed" "state1 ed1 = state1 ed" "exec ed1 = exec ed" "\<exists>b off. core ed1 = (core ed)\<lparr>seek_on_write := b, offset := off\<rparr>"
    "f_data (disk ed1) = f_data (disk ed)" "buffer_text ed1 ns = buffer_text ed ns"
    using write_file_ok [OF inv(1,3-5) range lns(2) fn(1)] unfolding w by blast
  have u: "undo_inv ed1 ns0 ns" using inv(2) q(8,10) by (auto simp: undo_inv_def)
  have len: "int (length ?us) = to - from + 1"
    using range inv(1) by (simp add: segment_def buffer_text_def buf_inv_def)
  have "room (length (text_lines ?us [])) (total_length (text_lines ?us [])) ed1" using r q(7,11) by (simp add: room_def)
  moreover have "files ed1 fn = Some (bytes_of ?us @ [])" using q(2) by simp
  moreover have "WRITE_ONLY \<notin> opt (exec ed1)" using q(9) fn(2) by simp
  moreover have "\<forall>t\<in>set ([] # ?us). LINE_FEED \<notin> set t \<and> int (length t) < SIZE_MAX - 3"
    using lns(1) by (simp add: SIZE_MAX_def)
  ultimately obtain ed2 ns2 sz' where "read_file os fn after ed1 = (Inr (to - from + 1, sz'), ed2)" "buf_inv ed2 ns2" "undo_inv ed2 ns0 ns2"
     "disk_inv ed2" "buffer_text ed2 ns2 = insert_after after ?us (buffer_text ed1 ns)" "dot (state ed2) = after + (to - from + 1)"
    using read_file_ok [OF q(3) u q(4-6), of after fn ?us "[]" os] after fn(1) q(7) len by auto
  then show ?thesis using q(1,12) by (intro exI conjI) auto
qed

text \<open>A hangup saves the buffer.\<close>

lemma handle_hup_saves:
  assumes inv: "buf_inv (pbuf p) ns" "disk_inv (pbuf p)" "sys_all_ok (pbuf p)" "streams_fresh (pbuf p)" "ns \<noteq> []"
    and fits: "int (length (bytes_of (buffer_text (pbuf p) ns))) < OFF_T_MAX" and act: "sig_active p"
  shows "files (pbuf (snd (handle_hup getenv p))) ''ed.hup'' = Some (written (state (pbuf p)) (buffer_text (pbuf p) ns))"
    "exited (sess (snd (handle_hup getenv p))) = Some 2"
proof -
  let ?ed = "pbuf p" and ?n = "lines (state (pbuf p))"
  have n: "?n = int (length ns)" "1 \<le> ?n" using inv(1,5) by (auto simp: buf_inv_def) (cases ns; simp)
  have seg: "segment 1 ?n (buffer_text ?ed ns) = buffer_text ?ed ns" using n by (simp add: segment_def buffer_text_def)
  obtain ed1 where q: "write_file ''ed.hup'' 1 ?n CHR ''w'' ?ed = (Inr (?n, int (length (written (state ?ed) (buffer_text ?ed ns)))), ed1)"
    "files ed1 = (files ?ed)(''ed.hup'' \<mapsto> written (state ?ed) (buffer_text ?ed ns))"
    using write_file_ok [OF inv(1-4), of 1 ?n "''ed.hup''"] n fits unfolding seg by auto
  show "files (pbuf (snd (handle_hup getenv p))) ''ed.hup'' = Some (written (state (pbuf p)) (buffer_text (pbuf p) ns))"
    using q n(2) act by (simp add: handle_hup_def Let_def quit_def)
  show "exited (sess (snd (handle_hup getenv p))) = Some 2" using handle_hup_quits [OF act] by simp
qed

end
