(* ===== verification/Subst_Props.thy ===== *)
theory Subst_Props
  imports Append Subst
begin

text \<open>
  The substitute command (theory \<open>Subst\<close>): its loops over the matches of a line end, and a range of
  lines becomes the lines of the texts that replace it.  The regular expression library enters by what it
  documents: the offsets of a match are a range of the text.
\<close>

section \<open>The library\<close>

definition offsets_ok :: "'x regex_lib_scheme \<Rightarrow> regex \<Rightarrow> bool" where
  "offsets_ok lib re \<longleftrightarrow>
     (\<forall>notbol txt rm. re_exec lib re notbol txt = Some rm \<longrightarrow>
        0 \<le> fst (rm ! 0) \<and> fst (rm ! 0) \<le> snd (rm ! 0) \<and> snd (rm ! 0) \<le> int (length txt))"

lemma offsets_okD:
  "offsets_ok lib re \<Longrightarrow> re_exec lib re notbol txt = Some rm \<Longrightarrow>
     0 \<le> fst (rm ! 0) \<and> fst (rm ! 0) \<le> snd (rm ! 0) \<and> nat (snd (rm ! 0)) \<le> length txt"
  by (fastforce simp: offsets_ok_def)

section \<open>The loops over the matches end\<close>

text \<open>A round moves on in the text, or finds an empty match after no match, which the next round
  skips.\<close>

abbreviation rounds_left :: "string \<Rightarrow> bool \<Rightarrow> nat" where
  "rounds_left txt matched_prev \<equiv> 2 * length txt + (if matched_prev then 0 else 1)"

lemma cur_not_nul: "cur s \<noteq> NUL \<Longrightarrow> s \<noteq> []"
  by auto

lemma count_loop_ends:
  assumes "offsets_ok lib re" "rounds_left txt matched_prev < k"
  shows "\<exists>n. count_loop lib re k notbol txt matched_prev nul_next nmatches = Some n"
  using assms(2)
proof (induction k arbitrary: notbol "txt" matched_prev nul_next nmatches)
  case (Suc k)
  show ?case
  proof (cases "re_exec lib re notbol txt")
    case (Some rm)
    define off where "off = nat (snd (rm ! 0))"
    have off: "off \<le> length txt" using offsets_okD [OF assms(1) Some] by (simp add: off_def)
    have skip: "\<exists>n. count_loop lib re k True (drop 1 txt) False True nmatches = Some n" if "cur txt \<noteq> NUL"
      by (rule Suc.IH) (use Suc.prems cur_not_nul [OF that] in \<open>cases "txt"; auto split: if_splits\<close>)
    have go: "\<exists>n. count_loop lib re k True (drop off txt) True (off = 0) (nmatches + 1) = Some n" if "\<not> (matched_prev \<and> off = 0)"
      by (rule Suc.IH) (use Suc.prems off that in \<open>auto split: if_splits\<close>)
    consider "matched_prev \<and> off = 0" | "\<not> (matched_prev \<and> off = 0)" "off \<noteq> 0 \<or> nul_next"
      | "\<not> (matched_prev \<and> off = 0)" "off = 0" "\<not> nul_next"
      by blast
    then show ?thesis
      using skip go by cases (auto simp: Some off_def [symmetric] Let_def)
  qed simp
qed simp

lemma count_matches_ends:
  assumes "offsets_ok lib re" "re_nsub re < SE_MAX"
  shows "\<exists>n. count_matches lib re txt ed = (Inr n, ed)"
  using count_loop_ends [OF assms(1), of "txt" False "match_fuel txt" False True 0] assms(2)
  by (auto simp: count_matches_def match_fuel_def)

lemma char_step_nonzero: "char_step u8 txt \<noteq> 0"
  by (simp add: char_step_def Let_def)

lemma subst_loop_ends:
  assumes "offsets_ok lib re" "rounds_left txt matched_prev < fuel" "u64 md \<noteq> 0"
  shows "subst_loop lib re tpl nt md gsub fuel notbol out txt k changed matched_prev nil_next utf8 \<noteq> NoReturn"
  using assms(2)
proof (induction fuel arbitrary: notbol out "txt" k changed matched_prev nil_next utf8)
  case (Suc fuel)
  show ?case
  proof (cases "re_exec lib re notbol txt")
    case (Some rm)
    define i where "i = nat (fst (rm ! 0))"
    define j where "j = nat (snd (rm ! 0))"
    define u8 where "u8 = (case utf8 of None \<Rightarrow> is_utf8_str txt | Some b \<Rightarrow> b)"
    define skip where "skip = (\<lambda>k. if cur txt = NUL then Substituted out txt changed
       else let c = char_step u8 txt in
            if SIZE_MAX - int (length out) < u64 c then NoMemory ''Memory request too big''
            else if c < 0 then NoMemory ''Memory exhausted''
            else subst_loop lib re tpl nt md gsub fuel True (out @ take (nat c) txt) (drop (nat c) txt) k changed False (j = 0) (Some u8))"
    have j: "j \<le> length txt" using offsets_okD [OF assms(1) Some] by (simp add: j_def)
    have skip: "skip m \<noteq> NoReturn" for m
    proof (cases "cur txt = NUL \<or> char_step u8 txt < 0")
      case False
      then have "0 < nat (char_step u8 txt)" "txt \<noteq> []" using char_step_nonzero [of u8 "txt"] cur_not_nul by auto
      then have "rounds_left (drop (nat (char_step u8 txt)) txt) False < fuel"
        using Suc.prems by (cases "txt") (auto split: if_splits)
      from Suc.IH [OF this] show ?thesis by (auto simp: skip_def Let_def)
    qed (auto simp: skip_def Let_def)
    have go: "subst_loop lib re tpl nt md gsub fuel True out' (drop j txt) m ch True (j = 0) u \<noteq> NoReturn"
      if "\<not> (matched_prev \<and> j = 0)" for out' m ch u
      by (rule Suc.IH) (use Suc.prems j that in \<open>auto split: if_splits\<close>)
    have go': "subst_loop lib re tpl nt md gsub fuel True out' (drop j txt) m ch False (j = 0) u \<noteq> NoReturn" if "j \<noteq> 0" for out' m ch u
      by (rule Suc.IH) (use Suc.prems j that in \<open>auto split: if_splits\<close>)
    have "subst_loop lib re tpl nt md gsub (Suc fuel) notbol out txt k changed matched_prev nil_next utf8 =
      (if changed \<and> \<not> gsub then Substituted out txt changed
       else if matched_prev \<and> j = 0 then skip k
       else let counts = (j \<noteq> 0 \<or> nil_next); k = (if counts then k + 1 else k)
            in if counts \<and> u64 nt \<le> k \<and> u64 md = 0 then NoReturn
               else if counts \<and> u64 nt \<le> k \<and> u64 (k - nt) mod u64 md = 0
               then subst_loop lib re tpl nt md gsub fuel True (out @ take i txt @ tpl rm txt) (drop j txt) k True True (j = 0) utf8
               else if j = 0 then skip k
               else subst_loop lib re tpl nt md gsub fuel True (out @ take j txt) (drop j txt) k changed False (j = 0) (Some u8))"
      by (simp add: Some Let_def skip_def u8_def i_def j_def)
    then show ?thesis using skip go go' assms(3) by (auto simp: Let_def)
  qed simp
qed simp

section \<open>The text that replaces a line\<close>

text \<open>\<open>None\<close>: no outcome; \<open>Some None\<close>: the line stays.\<close>

definition new_text ::
  "'x regex_lib_scheme \<Rightarrow> regex \<Rightarrow> subst_args \<Rightarrow> ((int \<times> int) list \<Rightarrow> string \<Rightarrow> string) \<Rightarrow> string \<Rightarrow> string option option" where
  "new_text lib re a tpl s =
     (case count_loop lib re (match_fuel s) False s False True 0 of
        None \<Rightarrow> None
      | Some n \<Rightarrow>
          if (SNLR \<in> a_f a \<or> SMLR \<in> a_f a) \<and> int n \<le> \<bar>a_nth a\<bar> then Some None
          else
            let nt = (if SNLR \<in> a_f a then a_nth a + int n else if a_nth a = 0 then 1 else a_nth a);
                md = (if SMLR \<in> a_f a then a_mod a + int n else if a_mod a = 0 then 1 else a_mod a)
            in case subst_loop lib re tpl nt md (GSUB \<in> a_f a) (match_fuel s) False [] s 0 False False True None of
                 Substituted out rest changed \<Rightarrow> Some (if changed then Some (out @ rest @ [LINE_FEED]) else None)
               | _ \<Rightarrow> None)"

text \<open>The template of the last substitution\<close>

abbreviation rhs_of :: "ed_buffer \<Rightarrow> string option \<times> nat" where
  "rhs_of ed \<equiv> (subst_rhs (statics ed), subst_rhs_i (statics ed))"

definition template :: "nat \<Rightarrow> string option \<times> nat \<Rightarrow> (int \<times> int) list \<Rightarrow> string \<Rightarrow> string" where
  "template nsub rhs rm boln = (case rhs of (None, _) \<Rightarrow> [] | (Some s, n) \<Rightarrow> template_text rm nsub boln [0] 0 (take n s))"

lemma apply_subst_template_eq: "(\<lambda>rm boln. apply_subst_template boln rm nsub ed) = template nsub (rhs_of ed)"
  by (intro ext) (simp add: apply_subst_template_def template_def split: option.split)

lemma rhs_of_get_line_node [simp]:
  "subst_rhs (statics (snd (get_line_node n ed))) = subst_rhs (statics ed)"
  "subst_rhs_i (statics (snd (get_line_node n ed))) = subst_rhs_i (statics ed)"
  by (simp_all add: get_line_node_def Let_def cache_node_def)

lemma statics_get_buffer_line [simp]: "statics (snd (get_buffer_line lp ed)) = statics ed"
proof -
  have "statics (snd (fseek fp f e)) = statics e" "statics (snd (sys_call e)) = statics e" "statics (upd_stream fp g e) = statics e" for fp f g e
    by (simp_all add: fseek_def sys_call_def upd_stream_def split: bool.split)
  then show ?thesis
    by (auto simp: get_buffer_line_def Let_def case_prod_beta throw_def)
qed

lemma substitute_matching_ok:
  assumes inv: "buf_inv ed ns" "disk_inv ed" "sys_all_ok ed" and n: "1 \<le> n" "n \<le> lines (state ed)"
    and sub: "re_nsub re < SE_MAX" "new_text lib re a (template (re_nsub re) (rhs_of ed)) (buffer_text ed ns ! (nat n - 1)) = Some r"
  obtains ed' where "substitute_matching lib re (node_at ns n) a (cache_node (node_at ns n) n ed) = (Inr r, ed')"
    "looked ed ns ed'" "rhs_of ed' = rhs_of ed"
proof -
  let ?c = "cache_node (node_at ns n) n ed" and ?t = "buffer_text ed ns ! (nat n - 1)"
  obtain ed' where g: "get_buffer_line (node_at ns n) ?c = (Inr ?t, ed')" "looked ed ns ed'"
    "ln_len (nodes (core ed') (node_at ns n)) = length ?t"
    by (rule read_line_ok [OF inv n])
  have "rhs_of ed' = rhs_of ?c" using statics_get_buffer_line [of "node_at ns n" ?c] g(1) by (simp del: statics_get_buffer_line)
  then have rhs: "rhs_of ed' = rhs_of ed" by (simp add: cache_node_def)
  obtain cnt where c: "count_loop lib re (match_fuel ?t) False ?t False True 0 = Some cnt"
    using sub(2) by (auto simp: new_text_def split: option.splits)
  have m: "count_matches lib re ?t ed' = (Inr cnt, ed')" using c sub(1) by (simp add: count_matches_def)
  have lt: "(SE_MAX \<le> re_nsub re) = False" using sub(1) by simp
  let ?g = "(SNLR \<in> a_f a \<or> SMLR \<in> a_f a) \<and> int cnt \<le> \<bar>a_nth a\<bar>"
  define nt md where "nt = (if SNLR \<in> a_f a then a_nth a + int cnt else if a_nth a = 0 then 1 else a_nth a)"
    and "md = (if SMLR \<in> a_f a then a_mod a + int cnt else if a_mod a = 0 then 1 else a_mod a)"
  define out where "out = subst_loop lib re (template (re_nsub re) (rhs_of ed)) nt md (GSUB \<in> a_f a) (match_fuel ?t) False [] ?t 0 False False True None"
  have x: "(if ?g then Some None else case out of
      Substituted out rest changed \<Rightarrow> Some (if changed then Some (out @ rest @ [LINE_FEED]) else None) | _ \<Rightarrow> None) = Some r"
    using sub(2) by (simp only: new_text_def c option.case Let_def out_def nt_def md_def)
  have "substitute_matching lib re (node_at ns n) a ?c = (if ?g then (Inr None, ed') else case out of
      NoReturn \<Rightarrow> (Inl FATAL, ed') | NoMemory msg \<Rightarrow> throw msg ed'
    | Substituted out rest changed \<Rightarrow> (Inr (if changed then Some (out @ rest @ [LINE_FEED]) else None), ed'))"
    by (simp only: substitute_matching_def g(1,3) andThen_Inr Let_def take_all [OF order_refl] lt if_False m apply_subst_template_eq rhs out_def nt_def md_def)
  then have "substitute_matching lib re (node_at ns n) a ?c = (Inr r, ed')"
    using x by (cases ?g; cases out) (simp_all del: de_Morgan_conj)
  with that g(2) rhs show ?thesis by blast
qed

section \<open>The lines of the new text\<close>

lemma transfer_marks_mark: "\<exists>f. transfer_marks mp lp ed = core_update (mark_update f) ed"
proof -
  have "\<exists>f. fold (\<lambda>n ed. if mark (core ed) n = Some lp then core_update (mark_update (\<lambda>m. m(n := Some mp))) ed else ed) xs ed
      = core_update (mark_update f) ed" for xs
  proof (induction xs arbitrary: ed)
    case Nil
    show ?case by (intro exI [of _ id]) simp
  next
    case (Cons x xs)
    let ?e = "if mark (core ed) x = Some lp then core_update (mark_update (\<lambda>m. m(x := Some mp))) ed else ed"
    obtain f where "fold (\<lambda>n ed. if mark (core ed) n = Some lp then core_update (mark_update (\<lambda>m. m(n := Some mp))) ed else ed) xs ?e
      = core_update (mark_update f) ?e" using Cons.IH by blast
    then show ?case
      by (cases "mark (core ed) x = Some lp") (auto intro: exI [of _ f] exI [of _ "f \<circ> (\<lambda>m. m(x := Some mp))"])
  qed
  then show ?thesis unfolding transfer_marks_def by blast
qed

lemma mark_update_invs [simp]:
  "buf_inv (core_update (mark_update f) e) ns = buf_inv e ns" "disk_inv (core_update (mark_update f) e) = disk_inv e"
  "sys_all_ok (core_update (mark_update f) e) = sys_all_ok e"
  by (simp_all add: buf_inv_def disk_inv_def node_stored_def sys_all_ok_def)

lemma same_buffer_mark:
  "same_buffer e e' ns \<Longrightarrow> same_buffer e (core_update (mark_update f) e') ns"
  by (simp add: same_buffer_def)

lemma rhs_of_append_undo [simp]:
  "subst_rhs (statics (snd (append_undo_node ty h t ed))) = subst_rhs (statics ed)"
  "subst_rhs_i (statics (snd (append_undo_node ty h t ed))) = subst_rhs_i (statics ed)"
  by (auto simp: append_undo_node_def throw_def Let_def case_prod_beta spl1_def spl0_def sys_call_def split: bool.split)

lemma rhs_of_APPEND [simp]:
  "subst_rhs (statics (snd (APPEND_UNDO_NODE lp up addr ed))) = subst_rhs (statics ed)"
  "subst_rhs_i (statics (snd (APPEND_UNDO_NODE lp up addr ed))) = subst_rhs_i (statics ed)"
  using rhs_of_append_undo [of UADD addr addr ed]
  by (auto simp: APPEND_UNDO_NODE_def spl0_def simp del: rhs_of_append_undo split: option.split prod.split sum.split)

lemma rhs_of_seek_end [simp]:
  "subst_rhs (statics (snd (seek_end ed))) = subst_rhs (statics ed)"
  "subst_rhs_i (statics (snd (seek_end ed))) = subst_rhs_i (statics ed)"
  by (auto simp: seek_end_def fseek_def sys_call_def throw_def upd_stream_def split: bool.splits)

lemma rhs_of_append_line_node [simp]:
  "subst_rhs (statics (snd (append_line_node len seek addr ed))) = subst_rhs (statics ed)"
  "subst_rhs_i (statics (snd (append_line_node len seek addr ed))) = subst_rhs_i (statics ed)"
  by (auto simp: append_line_node_def Let_def case_prod_beta sys_call_def throw_def split: bool.splits)

lemma rhs_of_put_buffer_line:
  assumes "put_buffer_line t m ed = (Inr r, ed')"
  shows "rhs_of ed' = rhs_of ed"
proof -
  obtain e1 where e1: "seek_end ed = (Inr (), e1)"
    using assms by (cases "seek_end ed") (auto simp: put_buffer_line_def andThen_def split: sum.splits)
  define e2 where "e2 = upd_stream (core_fp (core e1)) (stream_write (take (m - 1) t)) (sys_n_update Suc e1)"
  obtain x e3 where e3: "append_line_node (m - 1) (offset (core e2)) (dot (state e2)) e2 = (Inr x, e3)" "statics ed' = statics e3"
    using assms e1
    by (auto simp: put_buffer_line_def e2_def Let_def throw_def sys_call_def andThen_def split: bool.splits if_splits sum.splits prod.splits)
  have "rhs_of e1 = rhs_of ed" using rhs_of_seek_end [of ed] e1 by (simp del: rhs_of_seek_end)
  moreover have "rhs_of e3 = rhs_of e2" using rhs_of_append_line_node [of "m - 1" "offset (core e2)" "dot (state e2)" e2] e3(1) by (simp del: rhs_of_append_line_node)
  moreover have "rhs_of e2 = rhs_of e1" by (simp add: e2_def upd_stream_def)
  ultimately show ?thesis using e3(2) by simp
qed

lemma first_line: "LINE_FEED \<notin> set u \<Longrightarrow> takeWhile (\<lambda>c. c \<noteq> LINE_FEED) (u @ LINE_FEED # r) = u"
  by (induction u) auto

text \<open>One line of the new text\<close>

lemma put_subst_line_ok:
  assumes ty: "typing ed ns0 A B ta tb new ts up" and r: "room 1 (length u) ed" and u: "LINE_FEED \<notin> set u"
  obtains i e where "put_subst_lines (Suc k) lp up (u @ LINE_FEED # rest) ed
      = (if rest = [] then (Inr (), e) else put_subst_lines k lp (Some i) rest e)"
    "typing e ns0 A B ta tb (new @ [next_node (core ed)]) (ts @ [u]) (Some i)" "put_frame ed e" "rhs_of e = rhs_of ed"
    "f_data (disk e) = f_data (disk ed) @ u" "state e = (state ed)\<lparr>dot := dot (state ed) + 1, lines := lines (state ed) + 1\<rparr>"
    "input e = input ed"
proof (rule typing_put [OF ty r, of "u @ LINE_FEED # rest"])
  fix mp ed1
  assume p: "put_buffer_line (u @ LINE_FEED # rest) (Suc (length u)) ed = (Inr (drop (Suc (length u)) (u @ LINE_FEED # rest)), ed1)"
    "mp = next_node (core ed)" "buf_inv ed1 (A @ new @ mp # B)" "disk_inv ed1" "sys_all_ok ed1"
    "state ed1 = (state ed)\<lparr>dot := dot (state ed) + 1, lines := lines (state ed) + 1\<rparr>"
    "f_data (disk ed1) = f_data (disk ed) @ take (length u) (u @ LINE_FEED # rest)"
    "state1 ed1 = state1 ed" "exec ed1 = exec ed" "mutex ed1 = mutex ed" "input ed1 = input ed"
    "core ed1 = (core ed)\<lparr>nodes := put_heap mp (length u) (int (length (f_data (disk ed))))
        (last (line_head # A @ new)) (nodes (core ed)), next_node := Suc mp, seek_on_write := False,
      offset := int (length (f_data (disk ed)) + length u)\<rparr>"
    "buffer_text ed1 (A @ new @ mp # B) = ta @ ts @ take (length u) (u @ LINE_FEED # rest) # tb"
  let ?d = "dot (state ed1)"
  obtain f where f: "transfer_marks mp lp (cache_node mp ?d ed1) = core_update (mark_update f) (cache_node mp ?d ed1)"
    using transfer_marks_mark by blast
  define e where "e = core_update (mark_update f) (cache_node mp ?d ed1)"
  have d: "?d = int (length (A @ new @ [mp]))" using p(6) ty by (simp add: typing_def)
  have at: "node_at (A @ new @ mp # B) ?d = mp"
    unfolding d using node_at_segments(1) [of "A @ new @ mp # B" "A @ new @ [mp]" "[]" B] by simp
  have dl: "0 \<le> ?d" "?d \<le> lines (state ed1)" using d p(3) by (simp_all add: buf_inv_def)
  have g: "get_line_node ?d ed1 = (mp, cache_node mp ?d ed1)" using get_line_node_eq [OF p(3) dl] at by simp
  have cb: "buf_inv (cache_node mp ?d ed1) (A @ new @ mp # B)" using buf_inv_cache_node [OF p(3) dl] at by simp
  have same: "same_buffer ed1 e (A @ new @ mp # B)"
    unfolding e_def by (rule same_buffer_mark) (use cb p(4,5) in \<open>simp add: same_buffer_def cache_node_def\<close>)
  have f1: "disk_frame ed ed1" using disk_frame_put_buffer_line [of ed "u @ LINE_FEED # rest" "Suc (length u)"] p(1) by simp
  have rhs1: "rhs_of e = rhs_of ed" using rhs_of_put_buffer_line [OF p(1)] by (simp add: e_def cache_node_def)
  show ?thesis
  proof (rule typing_undo [OF ty p(2), where edp = ed1 and e = e and m = "length u" and t = u])
    fix i e2 q
    assume a: "APPEND_UNDO_NODE mp up ?d e = (Inr i, e2)"
      "typing e2 ns0 A B ta tb (new @ [mp]) (ts @ [u]) (Some i)"
      "core e2 = (core e)\<lparr>undo_queue := q\<rparr>" "state e2 = state e" "state1 e2 = state1 e" "streams e2 = streams e"
      "exec e2 = exec e" "mutex e2 = mutex e" "input e2 = input e" "sys_all_ok e2"
    have de: "disk_frame e e2" using disk_frame_APPEND [of e mp up ?d] a(1) by simp
    have sc: "dot (state e) = ?d" by (simp add: e_def cache_node_def)
    have dr: "drop (Suc (length u)) (u @ LINE_FEED # rest) = rest" by simp
    have loop: "put_subst_lines (Suc k) lp up (u @ LINE_FEED # rest) ed
        = (if rest = [] then (Inr (), e2) else put_subst_lines k lp (Some i) rest e2)"
      by (simp only: put_subst_lines.simps first_line [OF u] Suc_eq_plus1 [symmetric] p(1) prod.case sum.case Let_def g f [folded e_def] a(1) andThen_Inr sc dr)
    show ?thesis
    proof (rule that [OF loop])
      show "typing e2 ns0 A B ta tb (new @ [next_node (core ed)]) (ts @ [u]) (Some i)" using a(2) p(2) by simp
      show "put_frame ed e2"
        using f1 de a p by (auto simp: put_frame_def disk_frame_def e_def cache_node_def)
      show "rhs_of e2 = rhs_of ed" using rhs_of_APPEND [of mp up ?d e] a(1) rhs1 by simp
    qed (use a p in \<open>simp_all add: e_def cache_node_def\<close>)
  qed (use p same in simp_all)
qed simp

lemma put_subst_lines_ok:
  "typing ed ns0 A B ta tb new ts up \<Longrightarrow> us \<noteq> [] \<Longrightarrow> room (length us) (total_length us) ed \<Longrightarrow> \<forall>u\<in>set us. LINE_FEED \<notin> set u \<Longrightarrow>
   length us \<le> k \<Longrightarrow>
     \<exists>new' up' e. put_subst_lines k lp up (bytes_of us) ed = (Inr (), e) \<and> typing e ns0 A B ta tb (new @ new') (ts @ us) up' \<and>
       put_frame ed e \<and> rhs_of e = rhs_of ed \<and> f_data (disk e) = f_data (disk ed) @ concat us \<and> input e = input ed \<and>
       state e = (state ed)\<lparr>dot := dot (state ed) + int (length us), lines := lines (state ed) + int (length us)\<rparr>"
proof (induction us arbitrary: ed new ts up k)
  case (Cons u us)
  then obtain k' where k: "k = Suc k'" "length us \<le> k'" by (cases k) auto
  have r: "room 1 (length u) ed" "LINE_FEED \<notin> set u" using Cons.prems by (auto simp: room_def)
  obtain i e where e: "put_subst_lines k lp up (bytes_of (u # us)) ed
      = (if bytes_of us = [] then (Inr (), e) else put_subst_lines k' lp (Some i) (bytes_of us) e)"
    "typing e ns0 A B ta tb (new @ [next_node (core ed)]) (ts @ [u]) (Some i)" "put_frame ed e" "rhs_of e = rhs_of ed"
    "f_data (disk e) = f_data (disk ed) @ u" "state e = (state ed)\<lparr>dot := dot (state ed) + 1, lines := lines (state ed) + 1\<rparr>" "input e = input ed"
    using put_subst_line_ok [OF Cons.prems(1) r, of k' lp "bytes_of us"] unfolding k(1) bytes_of_simps by metis
  show ?case
  proof (cases "us = []")
    case True
    then show ?thesis using e by (intro exI [of _ "[next_node (core ed)]"] exI [of _ "Some i"] exI [of _ e]) simp
  next
    case False
    then have ne: "bytes_of us \<noteq> []" by (cases us) auto
    have "room (length us) (total_length us) e" using Cons.prems(3) e(5,6) by (simp add: room_def)
    from Cons.IH [OF e(2) False this _ k(2)] Cons.prems(4)
    obtain new' up' e' where r: "put_subst_lines k' lp (Some i) (bytes_of us) e = (Inr (), e')"
      "typing e' ns0 A B ta tb (new @ next_node (core ed) # new') (ts @ u # us) up'" "put_frame e e'" "rhs_of e' = rhs_of e"
      "f_data (disk e') = f_data (disk e) @ concat us" "input e' = input e"
      "state e' = (state e)\<lparr>dot := dot (state e) + int (length us), lines := lines (state e) + int (length us)\<rparr>"
      by fastforce
    show ?thesis
      by (intro exI [of _ "next_node (core ed) # new'"] exI [of _ up'] exI [of _ e'])
        (use e r ne put_frame_trans [OF e(3) r(3)] in simp)
  qed
qed simp

section \<open>The lines of a range\<close>

text \<open>\<open>r t\<close>: the lines that replace the line \<open>t\<close>, \<open>None\<close> where it stays\<close>

definition replaced :: "(string \<Rightarrow> string list option) \<Rightarrow> string \<Rightarrow> string list" where
  "replaced r t = (case r t of None \<Rightarrow> [t] | Some ls \<Rightarrow> ls)"

lemma replaced_simps: "r t = None \<Longrightarrow> replaced r t = [t]" "r t = Some ls \<Longrightarrow> replaced r t = ls"
  by (simp_all add: replaced_def)

abbreviation new_lines :: "(string \<Rightarrow> string list option) \<Rightarrow> string list \<Rightarrow> string list" where
  "new_lines r us \<equiv> concat (map (replaced r) us)"

text \<open>The last line changed, with \<open>n\<close> lines before \<open>us\<close>\<close>

primrec last_changed :: "(string \<Rightarrow> string list option) \<Rightarrow> int \<Rightarrow> int \<Rightarrow> string list \<Rightarrow> int" where
  "last_changed r n d [] = d"
| "last_changed r n d (u # us) =
     (let m = n + int (length (replaced r u)) in last_changed r m (if r u = None then d else m) us)"

definition changes :: "(string \<Rightarrow> string list option) \<Rightarrow> string list \<Rightarrow> nat" where
  "changes r us = length (filter (\<lambda>u. r u \<noteq> None) us)"

text \<open>What the code computes for each line of a range is what \<open>r\<close> says.\<close>

definition substitutes ::
  "'x regex_lib_scheme \<Rightarrow> regex \<Rightarrow> subst_args \<Rightarrow> string option \<times> nat \<Rightarrow> (string \<Rightarrow> string list option) \<Rightarrow> string list \<Rightarrow> bool" where
  "substitutes lib re a rhs r us \<longleftrightarrow> re_nsub re < SE_MAX \<and>
     (\<forall>t\<in>set us. new_text lib re a (template (re_nsub re) rhs) t = Some (map_option bytes_of (r t)) \<and>
        (\<forall>ls. r t = Some ls \<longrightarrow> ls \<noteq> [] \<and> (\<forall>l\<in>set ls. LINE_FEED \<notin> set l)))"

definition subst_frame :: "ed_buffer \<Rightarrow> ed_buffer \<Rightarrow> bool" where
  "subst_frame ed ed' \<longleftrightarrow> state1 ed' = state1 ed \<and> exec ed' = exec ed \<and> mutex ed' = mutex ed \<and> input ed' = input ed \<and> rhs_of ed' = rhs_of ed"

lemma subst_frame_trans: "subst_frame a b \<Longrightarrow> subst_frame b c \<Longrightarrow> subst_frame a c"
  by (simp add: subst_frame_def)

lemma rhs_of_clear_global_lines [simp]:
  "statics (snd (clear_global_lines a b c ed)) = statics ed"
  by (simp add: clear_global_lines_def split: option.split)

lemma rhs_of_delete_lines:
  assumes "delete_lines i j ed = (Inr (), ed')"
  shows "rhs_of ed' = rhs_of ed"
proof -
  define P where "P e \<longleftrightarrow> rhs_of e = rhs_of ed" for e
  have upd: "P (core_update f e) = P e" "P (state_update g e) = P e" for f g e by (simp_all add: P_def)
  have ops: "P e \<Longrightarrow> P (snd (append_undo_node ty h t e))" "P e \<Longrightarrow> P (snd (get_line_node n e))"
    "P e \<Longrightarrow> P (snd (clear_global_lines a b c e))" for ty h t n a b c e by (simp_all add: P_def)
  have "P ed" by (simp add: P_def)
  then have "P (snd (delete_lines i j ed))"
    by (auto simp: delete_lines_def Let_def case_prod_beta upd ops intro!: andThen_keeps [where I = P] del: equalityI split: sum.split)
  then show ?thesis using assms by (simp add: P_def)
qed

text \<open>A line that changes is deleted, and the lines of its new text are put in its place.\<close>

lemma looked_inv:
  assumes "looked ed ns e" "undo_inv ed ns0 ns" "gb_ok ed"
  shows "buf_inv e ns" "disk_inv e" "sys_all_ok e" "undo_inv e ns0 ns" "gb_ok e" "state e = state ed" "f_data (disk e) = f_data (disk ed)"
    "buffer_text e ns = buffer_text ed ns"
  using assms looked_text [OF assms(1)] by (auto simp: looked_def undo_inv_def gb_ok_def)

lemma replace_line_ok:
  assumes inv: "buf_inv ed ns" "undo_inv ed ns0 ns" "disk_inv ed" "sys_all_ok ed" "gb_ok ed"
    and tx: "buffer_text ed ns = ta @ u # tb" "dot (state ed) = int (length ta) + 1"
    and ls: "ls \<noteq> []" "\<forall>l\<in>set ls. LINE_FEED \<notin> set l" and r: "room (length ls) (total_length ls) ed"
  obtains e1 e2 ns' where "delete_lines (dot (state ed)) (dot (state ed)) (spl1 ed) = (Inr (), e1)"
    "put_subst_lines (length (bytes_of ls)) lp None (bytes_of ls) e1 = (Inr (), e2)"
    "buf_inv e2 ns'" "undo_inv e2 ns0 ns'" "disk_inv e2" "sys_all_ok e2" "gb_ok e2" "buffer_text e2 ns' = ta @ ls @ tb"
    "dot (state e2) = int (length ta + length ls)" "f_data (disk e2) = f_data (disk ed) @ concat ls"
    "lines (state e2) = lines (state ed) - 1 + int (length ls)" "subst_frame ed (spl0 e2)"
proof -
  let ?d = "dot (state ed)" and ?e = "spl1 ed"
  have len: "lines (state ed) = int (length ta + length tb) + 1"
    using inv(1) arg_cong [OF tx(1), of length] by (simp add: buf_inv_def buffer_text_def)
  have i: "buf_inv ?e ns" "undo_inv ?e ns0 ns" "gb_ok ?e" "sys_all_ok ?e" using inv by (simp_all add: undo_inv_def gb_ok_def spl1_def)
  have d: "1 \<le> dot (state ed)" "dot (state ed) \<le> lines (state ?e)" using tx(2) len by simp_all
  show ?thesis
  proof (rule delete_lines_ok [OF i d(1) order_refl d(2)])
    fix e1 gb q
    assume e1: "delete_lines ?d ?d ?e = (Inr (), e1)"
      "buf_inv e1 (removed ?d ?d ns)" "undo_inv e1 ns0 (removed ?d ?d ns)" "gb_ok e1"
      "core e1 = (core ?e)\<lparr>undo_queue := q, global_buffer := gb,
          nodes := link_nodes (node_at ns (?d - 1)) (node_at ns (INC_MOD ?d (lines (state ?e)))) (nodes (core ?e))\<rparr>"
      "dot (state e1) = ?d - 1" "lines (state e1) = lines (state ?e) - (?d - ?d + 1)" "streams e1 = streams ?e"
      "state1 e1 = state1 ?e" "exec e1 = exec ?e" "mutex e1 = mutex ?e" "input e1 = input ?e" "sys_all_ok e1"
    have nd: "node_data e1 = node_data ?e" using e1(5) by (auto simp: node_data_def)
    have fd: "f_data (disk e1) = f_data (disk ed)" using e1(5,8) by (simp add: spl1_def)
    have b1: "buffer_text e1 (removed ?d ?d ns) = ta @ tb"
    proof -
      have fe: "f_data (disk e1) = f_data (disk ?e)" using fd by simp
      have n: "nat (int (length ta) + 1) = Suc (length ta)" by simp
      have "buffer_text e1 (removed ?d ?d ns) = removed ?d ?d (buffer_text ?e ns)"
        unfolding buffer_text_data [OF e1(2)] buffer_text_data [OF i(1)] nd fe by (simp only: map_removed)
      then show ?thesis using tx by (simp add: removed_def n)
    qed
    have dk: "disk_inv e1" using inv(3) e1(5,8) by (simp add: disk_inv_def node_stored_def spl1_def)
    have d1: "dot (state e1) = int (length ta)" using e1(6) tx(2) by simp
    have nat1: "nat (int (length ta)) = length ta" by simp
    have "typing e1 ns0 (take (length ta) (removed ?d ?d ns)) (drop (length ta) (removed ?d ?d ns)) ta tb [] [] None"
      using typing_start [OF e1(2,3) dk e1(13), of "int (length ta)"] d1 e1(7) len b1 by (simp add: spl1_def)
    moreover have "room (length ls) (total_length ls) e1" using r fd e1(7) by (simp add: room_def spl1_def)
    moreover have "length ls \<le> length (bytes_of ls)" by (simp add: length_bytes_of)
    ultimately obtain new' up' e2 where p: "put_subst_lines (length (bytes_of ls)) lp None (bytes_of ls) e1 = (Inr (), e2)"
      "typing e2 ns0 (take (length ta) (removed ?d ?d ns)) (drop (length ta) (removed ?d ?d ns)) ta tb ([] @ new') ([] @ ls) up'" "put_frame e1 e2"
      "rhs_of e2 = rhs_of e1" "f_data (disk e2) = f_data (disk e1) @ concat ls" "input e2 = input e1"
      "state e2 = (state e1)\<lparr>dot := dot (state e1) + int (length ls), lines := lines (state e1) + int (length ls)\<rparr>"
      using put_subst_lines_ok [of e1 ns0 _ _ ta tb "[]" "[]" None ls] ls by blast
    note t = typing_result [OF p(2)]
    show ?thesis
    proof (rule that [OF e1(1) p(1)])
      show "buf_inv e2 (take (length ta) (removed ?d ?d ns) @ ([] @ new') @ drop (length ta) (removed ?d ?d ns))" by (rule t(1))
      show "undo_inv e2 ns0 (take (length ta) (removed ?d ?d ns) @ ([] @ new') @ drop (length ta) (removed ?d ?d ns))" by (rule t(2))
      show "buffer_text e2 (take (length ta) (removed ?d ?d ns) @ ([] @ new') @ drop (length ta) (removed ?d ?d ns)) = ta @ ls @ tb"
        using t(4) by simp
      show "sys_all_ok e2" using p(2) by (simp add: typing_def)
      show "gb_ok e2" using e1(4) p(3) by (simp add: gb_ok_def put_frame_def)
      show "dot (state e2) = int (length ta + length ls)" "lines (state e2) = lines (state ed) - 1 + int (length ls)"
        using p(7) e1(7) d1 by (simp_all add: spl1_def)
      show "subst_frame ed (spl0 e2)"
        using p(3,4,6) e1(9-12) rhs_of_delete_lines [OF e1(1)] by (simp add: subst_frame_def put_frame_def spl1_def spl0_def)
    qed (use t p(5) fd in simp_all)
  qed
qed

lemma subst_range_ok:
  "buf_inv ed ns \<Longrightarrow> undo_inv ed ns0 ns \<Longrightarrow> disk_inv ed \<Longrightarrow> sys_all_ok ed \<Longrightarrow> gb_ok ed \<Longrightarrow>
   buffer_text ed ns = ta @ us @ tb \<Longrightarrow> dot (state ed) = int (length ta) \<Longrightarrow> substitutes lib re a (rhs_of ed) r us \<Longrightarrow>
   room (length (new_lines r us)) (total_length (new_lines r us)) ed \<Longrightarrow>
     \<exists>ed' ns'. subst_range lib re a (length us) d n ed = (Inr (last_changed r (int (length ta)) d us, n + changes r us), ed') \<and>
       buf_inv ed' ns' \<and> undo_inv ed' ns0 ns' \<and> disk_inv ed' \<and> sys_all_ok ed' \<and> gb_ok ed' \<and>
       buffer_text ed' ns' = ta @ new_lines r us @ tb \<and> subst_frame ed ed'"
proof (induction us arbitrary: ed ns ta d n)
  case Nil
  then show ?case by (intro exI [of _ ed] exI [of _ ns]) (simp add: subst_frame_def changes_def)
next
  case (Cons u us)
  let ?k = "int (length ta) + 1"
  define e0 where "e0 = set_dot ?k ed"
  have i0: "buf_inv e0 ns" "undo_inv e0 ns0 ns" "disk_inv e0" "sys_all_ok e0" "gb_ok e0" "buffer_text e0 ns = ta @ u # us @ tb"
    "dot (state e0) = ?k" "subst_frame ed e0" "rhs_of e0 = rhs_of ed" "lines (state e0) = lines (state ed)" "f_data (disk e0) = f_data (disk ed)"
    using Cons.prems buffer_text_same [of e0 ed] by (simp_all add: e0_def undo_inv_def gb_ok_def subst_frame_def)
  have len: "lines (state e0) = int (length ta + length us + length tb) + 1"
    using i0(1) arg_cong [OF i0(6), of length] by (simp add: buf_inv_def buffer_text_def)
  have k: "1 \<le> ?k" "?k \<le> lines (state e0)" using len by simp_all
  have at: "buffer_text e0 ns ! (nat ?k - 1) = u"
  proof -
    have "nat ?k - 1 = length ta" by linarith
    then show ?thesis unfolding i0(6) by simp
  qed
  have sub: "re_nsub re < SE_MAX" "new_text lib re a (template (re_nsub re) (rhs_of e0)) u = Some (map_option bytes_of (r u))"
    using Cons.prems(8) i0(9) by (simp_all add: substitutes_def)
  obtain e1 where m: "substitute_matching lib re (node_at ns ?k) a (cache_node (node_at ns ?k) ?k e0) = (Inr (map_option bytes_of (r u)), e1)"
    "looked e0 ns e1" "rhs_of e1 = rhs_of e0"
    by (rule substitute_matching_ok [OF i0(1,3,4) k sub(1), unfolded at, OF sub(2)])
  have g: "get_line_node ?k e0 = (node_at ns ?k, cache_node (node_at ns ?k) ?k e0)" using get_line_node_eq [OF i0(1) _ k(2)] by simp
  note i1 = looked_inv [OF m(2) i0(2,5)]
  have f1: "subst_frame ed e1" using m(2,3) i0(8) by (simp add: looked_def subst_frame_def)
  define p where "p = node_at ns ?k"
  have loop: "subst_range lib re a (length (u # us)) d n ed = (case r u of
      None \<Rightarrow> subst_range lib re a (length us) d n e1
    | Some ls \<Rightarrow> (case delete_lines (dot (state e1)) (dot (state e1)) (spl1 e1) of
        (Inl _, ed) \<Rightarrow> (Inl ERR, spl0 ed)
      | (Inr _, ed) \<Rightarrow>
          andThen (put_subst_lines (length (bytes_of ls)) p None (bytes_of ls) ed) (\<lambda>_ ed.
            let dt = dot (state ed);
                ed = spl0 (set_is_binary (is_binary (state ed) \<or> input_is_binary (state ed)) ed)
            in subst_range lib re a (length us) dt (n + 1) ed)))"
    using Cons.prems(7) g [folded p_def] m(1) [folded p_def] i0(7) by (simp add: e0_def [symmetric] split: option.split)
  have s': "substitutes lib re a (rhs_of e1) r us" using Cons.prems(8) m(3) i0(9) by (simp add: substitutes_def)
  show ?case
  proof (cases "r u")
    case None
    have "room (length (new_lines r us)) (total_length (new_lines r us)) e1"
      using Cons.prems(9) None i0(10,11) i1(6,7) by (simp add: room_def replaced_simps)
    from Cons.IH [OF i1(1,4,2,3,5) _ _ s' this, of "ta @ [u]" d n]
    obtain ed' ns' where "subst_range lib re a (length us) d n e1 = (Inr (last_changed r (?k) d us, n + changes r us), ed')"
       "buf_inv ed' ns'" "undo_inv ed' ns0 ns'" "disk_inv ed'" "sys_all_ok ed'" "gb_ok ed'"
       "buffer_text ed' ns' = ta @ u # new_lines r us @ tb" "subst_frame e1 ed'"
      using i1(6,8) i0(6,7) by (auto simp: add.commute)
    then show ?thesis using loop None subst_frame_trans [OF f1] by (intro exI [of _ ed'] exI [of _ ns']) (simp add: replaced_simps changes_def)
  next
    case (Some ls)
    have ls: "ls \<noteq> []" "\<forall>l\<in>set ls. LINE_FEED \<notin> set l" using Cons.prems(8) Some by (auto simp: substitutes_def)
    have rm: "room (length ls) (total_length ls) e1"
      using Cons.prems(9) Some i0(10,11) i1(6,7) by (simp add: room_def replaced_simps)
    have tx: "buffer_text e1 ns = ta @ u # us @ tb" "dot (state e1) = ?k" using i1(6,8) i0(6,7) by simp_all
    obtain e2 e3 ns' where e: "delete_lines (dot (state e1)) (dot (state e1)) (spl1 e1) = (Inr (), e2)"
      "put_subst_lines (length (bytes_of ls)) p None (bytes_of ls) e2 = (Inr (), e3)"
      "buf_inv e3 ns'" "undo_inv e3 ns0 ns'" "disk_inv e3" "sys_all_ok e3" "gb_ok e3" "buffer_text e3 ns' = ta @ ls @ us @ tb"
      "dot (state e3) = int (length ta + length ls)" "f_data (disk e3) = f_data (disk e1) @ concat ls"
      "lines (state e3) = lines (state e1) - 1 + int (length ls)" "subst_frame e1 (spl0 e3)"
      by (rule replace_line_ok [OF i1(1,4,2,3,5) tx ls rm, where lp = p])
    define e4 where "e4 = spl0 (set_is_binary (is_binary (state e3) \<or> input_is_binary (state e3)) e3)"
    have i4: "buf_inv e4 ns'" "undo_inv e4 ns0 ns'" "disk_inv e4" "sys_all_ok e4" "gb_ok e4" "buffer_text e4 ns' = (ta @ ls) @ us @ tb"
      "dot (state e4) = int (length (ta @ ls))" "subst_frame e1 e4"
      using e buffer_text_same [of e4 e3] by (simp_all add: e4_def undo_inv_def gb_ok_def subst_frame_def spl0_def buf_inv_def)
    have s4: "substitutes lib re a (rhs_of e4) r us" using s' i4(8) by (simp add: subst_frame_def)
    have "room (length (new_lines r us)) (total_length (new_lines r us)) e4"
      using Cons.prems(9) Some i0(10,11) i1(6,7) e(10,11) by (simp add: room_def replaced_simps e4_def spl0_def)
    from Cons.IH [OF i4(1-7) s4 this, of "int (length (ta @ ls))" "n + 1"]
    obtain ed' ns'' where "subst_range lib re a (length us) (int (length (ta @ ls))) (n + 1) e4
         = (Inr (last_changed r (int (length (ta @ ls))) (int (length (ta @ ls))) us, n + 1 + changes r us), ed')"
       "buf_inv ed' ns''" "undo_inv ed' ns0 ns''" "disk_inv ed'" "sys_all_ok ed'" "gb_ok ed'"
       "buffer_text ed' ns'' = (ta @ ls) @ new_lines r us @ tb" "subst_frame e4 ed'"
      by blast
    then show ?thesis
      using loop Some e(1,2,9) subst_frame_trans [OF f1 subst_frame_trans [OF i4(8)]]
      by (intro exI [of _ ed'] exI [of _ ns'']) (simp add: replaced_simps changes_def Let_def e4_def [symmetric])
  qed
qed

lemma take_segment_drop: "1 \<le> i \<Longrightarrow> i \<le> j \<Longrightarrow> xs = take (nat (i - 1)) xs @ segment i j xs @ drop (nat j) xs"
proof -
  assume "1 \<le> i" "i \<le> j"
  then have "nat j = nat (j - i + 1) + nat (i - 1)" by (simp add: nat_add_distrib [symmetric])
  then show ?thesis by (simp add: segment_def flip: drop_drop)
qed

lemma substitute_lines_ok:
  assumes inv: "buf_inv ed ns" "undo_inv ed ns0 ns" "disk_inv ed" "sys_all_ok ed" "gb_ok ed"
    and range: "1 \<le> from" "from \<le> to" "to \<le> lines (state ed)"
    and seg: "us = segment from to (buffer_text ed ns)" and sub: "substitutes lib re a (rhs_of ed) r us"
    and room: "room (length (new_lines r us)) (total_length (new_lines r us)) ed"
  shows "\<exists>ed' ns'. substitute_lines lib from to re a ed = (if changes r us = 0 \<and> global (exec ed) = {} then Inl ERR else Inr (), ed') \<and>
       buf_inv ed' ns' \<and> undo_inv ed' ns0 ns' \<and> disk_inv ed' \<and> sys_all_ok ed' \<and> gb_ok ed' \<and>
       buffer_text ed' ns' = take (nat (from - 1)) (buffer_text ed ns) @ new_lines r us @ drop (nat to) (buffer_text ed ns) \<and>
       dot (state ed') = last_changed r (from - 1) (dot (state ed)) us"
proof -
  let ?e = "set_dot (from - 1) ed" and ?ta = "take (nat (from - 1)) (buffer_text ed ns)"
  have n: "lines (state ed) = int (length ns)" "length (buffer_text ed ns) = length ns" using inv(1) by (simp_all add: buf_inv_def buffer_text_def)
  have len: "int (length ?ta) = from - 1" "length us = nat (to - from + 1)"
    using range n by (simp_all add: seg segment_def)
  have tx: "buffer_text ?e ns = ?ta @ us @ drop (nat to) (buffer_text ed ns)"
    using take_segment_drop [OF range(1,2), of "buffer_text ed ns"] buffer_text_same [of ?e ed] by (simp add: seg)
  have i: "buf_inv ?e ns" "undo_inv ?e ns0 ns" "disk_inv ?e" "sys_all_ok ?e" "gb_ok ?e" "dot (state ?e) = int (length ?ta)"
    using inv len(1) by (simp_all add: undo_inv_def gb_ok_def)
  have "substitutes lib re a (rhs_of ?e) r us" "room (length (new_lines r us)) (total_length (new_lines r us)) ?e"
    using sub room by (simp_all add: room_def)
  from subst_range_ok [OF i(1-5) tx i(6) this, of "dot (state ed)" 0]
  obtain e ns' where e: "subst_range lib re a (nat (to - from + 1)) (dot (state ed)) 0 ?e = (Inr (last_changed r (from - 1) (dot (state ed)) us, changes r us), e)"
    "buf_inv e ns'" "undo_inv e ns0 ns'" "disk_inv e" "sys_all_ok e" "gb_ok e"
    "buffer_text e ns' = ?ta @ new_lines r us @ drop (nat to) (buffer_text ed ns)" "subst_frame ?e e"
    unfolding len by auto
  define e1 where "e1 = set_newline_appended (newline_appended (state ed)) (set_dot (last_changed r (from - 1) (dot (state ed)) us) e)"
  define e2 where "e2 = (if changes r us = 0 \<and> global (exec ed) = {} then set_err ''No match'' e1 else e1)"
  have ex: "exec e = exec ed" using e(8) by (simp add: subst_frame_def)
  have "substitute_lines lib from to re a ed = (if changes r us = 0 \<and> global (exec ed) = {} then Inl ERR else Inr (), e2)"
    by (simp add: substitute_lines_def e(1) ex Let_def e1_def e2_def throw_def)
  moreover have "buf_inv e2 ns'" "undo_inv e2 ns0 ns'" "disk_inv e2" "sys_all_ok e2" "gb_ok e2"
    using e(2-6) by (simp_all add: e2_def e1_def undo_inv_def gb_ok_def buf_inv_def)
  moreover have "buffer_text e2 ns' = ?ta @ new_lines r us @ drop (nat to) (buffer_text ed ns)"
    using e(7) buffer_text_same [of e2 e] by (simp add: e2_def e1_def)
  moreover have "dot (state e2) = last_changed r (from - 1) (dot (state ed)) us" by (simp add: e2_def e1_def)
  ultimately show ?thesis by blast
qed

section \<open>A substitution without modifiers\<close>

text \<open>The lines that a text with newlines stands for\<close>

fun lines_of :: "string \<Rightarrow> string list" where
  "lines_of [] = [[]]"
| "lines_of (c # s) = (if c = LINE_FEED then [] # lines_of s else (c # hd (lines_of s)) # tl (lines_of s))"

lemma lines_of_lines: "lines_of s \<noteq> [] \<and> bytes_of (lines_of s) = s @ [LINE_FEED] \<and> (\<forall>l\<in>set (lines_of s). LINE_FEED \<notin> set l)"
proof (induction s)
  case (Cons c s)
  then obtain l ls where "lines_of s = l # ls" by (cases "lines_of s") auto
  with Cons show ?case by auto
qed simp

text \<open>The first match of the line is replaced by the template.\<close>

definition first_replaced ::
  "'x regex_lib_scheme \<Rightarrow> regex \<Rightarrow> ((int \<times> int) list \<Rightarrow> string \<Rightarrow> string) \<Rightarrow> string \<Rightarrow> string list option" where
  "first_replaced lib re tpl t =
     map_option (\<lambda>rm. lines_of (take (nat (fst (rm ! 0))) t @ tpl rm t @ drop (nat (snd (rm ! 0))) t)) (re_exec lib re False t)"

definition no_modifiers :: "subst_args \<Rightarrow> bool" where
  "no_modifiers a \<longleftrightarrow> a_f a = {} \<and> a_nth a = 0 \<and> a_mod a = 0"

lemma new_text_first:
  assumes "offsets_ok lib re" "no_modifiers a"
  shows "new_text lib re a tpl t = Some (map_option bytes_of (first_replaced lib re tpl t))"
proof -
  obtain n where c: "count_loop lib re (match_fuel t) False t False True 0 = Some n"
  proof -
    have "rounds_left t False < match_fuel t" by (simp add: match_fuel_def)
    from count_loop_ends [OF assms(1) this] that show ?thesis by blast
  qed
  have f: "match_fuel t = Suc (Suc (2 * length t))" by (simp add: match_fuel_def)
  have m: "u64 1 = 1" by (simp add: u64_def)
  have "subst_loop lib re tpl 1 1 False (match_fuel t) False [] t 0 False False True None =
      (case re_exec lib re False t of None \<Rightarrow> Substituted [] t False
       | Some rm \<Rightarrow> Substituted (take (nat (fst (rm ! 0))) t @ tpl rm t) (drop (nat (snd (rm ! 0))) t) True)"
    unfolding f by (auto simp: Let_def m split: option.split)
  then show ?thesis
    using assms(2) lines_of_lines
    by (auto simp: new_text_def c no_modifiers_def first_replaced_def split: option.split)
qed

lemma first_replaced_substitutes:
  assumes "offsets_ok lib re" "no_modifiers a" "re_nsub re < SE_MAX"
  shows "substitutes lib re a rhs (first_replaced lib re (template (re_nsub re) rhs)) us"
  using new_text_first [OF assms(1,2)] assms(3) lines_of_lines by (auto simp: substitutes_def first_replaced_def)

end
