(* ===== verification/Subst_All.thy ===== *)
theory Subst_All
  imports Subst_Props
begin

text \<open>
  Substitution with the flag \<open>g\<close> where no match is empty: \<open>substitute_matching\<close> replaces every match, from
  left to right, as \<open>replace_all\<close> says.
\<close>

definition nonempty_matches :: "'x regex_lib_scheme \<Rightarrow> regex \<Rightarrow> bool" where
  "nonempty_matches lib re \<longleftrightarrow> (\<forall>notbol t rm. re_exec lib re notbol t = Some rm \<longrightarrow> fst (rm ! 0) < snd (rm ! 0))"

primrec replace_all :: "'x regex_lib_scheme \<Rightarrow> regex \<Rightarrow> ((int \<times> int) list \<Rightarrow> string \<Rightarrow> string) \<Rightarrow> nat \<Rightarrow> bool \<Rightarrow> string \<Rightarrow> string" where
  "replace_all lib re tpl 0 notbol t = t"
| "replace_all lib re tpl (Suc n) notbol t =
     (case re_exec lib re notbol t of
        None \<Rightarrow> t
      | Some rm \<Rightarrow> take (nat (fst (rm ! 0))) t @ tpl rm t @ replace_all lib re tpl n True (drop (nat (snd (rm ! 0))) t))"

definition all_replaced ::
  "'x regex_lib_scheme \<Rightarrow> regex \<Rightarrow> ((int \<times> int) list \<Rightarrow> string \<Rightarrow> string) \<Rightarrow> string \<Rightarrow> string list option" where
  "all_replaced lib re tpl t =
     (if re_exec lib re False t = None then None else Some (lines_of (replace_all lib re tpl (length t) False t)))"

lemma replace_all_more:
  assumes "offsets_ok lib re" "nonempty_matches lib re" "length t \<le> n"
  shows "replace_all lib re tpl n notbol t = replace_all lib re tpl (length t) notbol t"
  using assms(3)
proof (induction n arbitrary: notbol t rule: less_induct)
  case (less n)
  show ?case
  proof (cases "re_exec lib re notbol t")
    case None
    then show ?thesis by (cases n; cases "length t") simp_all
  next
    case (Some rm)
    then have b: "0 \<le> fst (rm ! 0)" "nat (snd (rm ! 0)) \<le> length t" "0 < snd (rm ! 0)"
      using offsets_okD [OF assms(1) Some] assms(2) by (auto simp: nonempty_matches_def) (metis fst_conv le_less_trans snd_conv)+
    then obtain l m where l: "length t = Suc l" "n = Suc m" using less.prems by (cases "length t"; cases n) auto
    let ?d = "drop (nat (snd (rm ! 0))) t"
    have d: "length ?d \<le> l" "l \<le> m" using b l less.prems by auto
    have "replace_all lib re tpl m True ?d = replace_all lib re tpl (length ?d) True ?d"
      "replace_all lib re tpl l True ?d = replace_all lib re tpl (length ?d) True ?d"
      using less.IH [of m ?d True] less.IH [of l ?d True] d l less.prems by auto
    then show ?thesis using Some l by simp
  qed
qed

lemma subst_loop_all:
  assumes "offsets_ok lib re" "nonempty_matches lib re"
  shows "length t < fuel \<Longrightarrow> 0 \<le> k \<Longrightarrow>
    \<exists>out' rest. subst_loop lib re tpl 1 1 True fuel notbol out t k changed mp nn u8 = Substituted out' rest (changed \<or> re_exec lib re notbol t \<noteq> None) \<and>
      out' @ rest = out @ replace_all lib re tpl (length t) notbol t"
proof (induction fuel arbitrary: notbol out t k changed mp nn)
  case (Suc fuel)
  show ?case
  proof (cases "re_exec lib re notbol t")
    case None
    then show ?thesis by (cases "length t") simp_all
  next
    case (Some rm)
    have b: "0 \<le> fst (rm ! 0)" "nat (snd (rm ! 0)) \<le> length t" "fst (rm ! 0) < snd (rm ! 0)"
      using offsets_okD [OF assms(1) Some] assms(2) Some by (auto simp: nonempty_matches_def)
    let ?d = "drop (nat (snd (rm ! 0))) t" and ?o = "out @ take (nat (fst (rm ! 0))) t @ tpl rm t"
    from b obtain l where l: "length t = Suc l" by (cases "length t") auto
    have d: "length ?d < fuel" "length ?d \<le> l" using b l Suc.prems by auto
    from Suc.IH [OF d(1), of "k + 1" True ?o True True False] Suc.prems
    obtain out' rest where r: "subst_loop lib re tpl 1 1 True fuel True ?o ?d (k + 1) True True False u8 = Substituted out' rest True"
      "out' @ rest = ?o @ replace_all lib re tpl (length ?d) True ?d" by auto
    have u: "u64 1 = 1" by (simp add: u64_def)
    have "subst_loop lib re tpl 1 1 True (Suc fuel) notbol out t k changed mp nn u8 = Substituted out' rest True"
      using Some b r(1) Suc.prems by (simp add: Let_def u)
    moreover have "replace_all lib re tpl (length t) notbol t = take (nat (fst (rm ! 0))) t @ tpl rm t @ replace_all lib re tpl (length ?d) True ?d"
      using replace_all_more [OF assms d(2), of tpl True] Some l by simp
    ultimately show ?thesis using r(2) Some by auto
  qed
qed simp

definition only_g :: "subst_args \<Rightarrow> bool" where
  "only_g a \<longleftrightarrow> a_f a = {GSUB} \<and> a_nth a = 0 \<and> a_mod a = 0"

lemma new_text_all:
  assumes "offsets_ok lib re" "nonempty_matches lib re" "only_g a"
  shows "new_text lib re a tpl t = Some (map_option bytes_of (all_replaced lib re tpl t))"
proof -
  have "rounds_left t False < match_fuel t" by (simp add: match_fuel_def)
  from count_loop_ends [OF assms(1) this]
  obtain n where c: "count_loop lib re (match_fuel t) False t False True 0 = Some n" by blast
  have "length t < match_fuel t" by (simp add: match_fuel_def)
  from subst_loop_all [OF assms(1,2) this, of 0 tpl False "[]" False False True None]
  obtain out rest where s: "subst_loop lib re tpl 1 1 True (match_fuel t) False [] t 0 False False True None
      = Substituted out rest (re_exec lib re False t \<noteq> None)" "out @ rest = replace_all lib re tpl (length t) False t" by auto
  show ?thesis
    using s c assms(3) lines_of_lines [of "out @ rest"] by (auto simp: new_text_def only_g_def all_replaced_def)
qed

lemma all_replaced_substitutes:
  assumes "offsets_ok lib re" "nonempty_matches lib re" "only_g a" "re_nsub re < SE_MAX"
  shows "substitutes lib re a rhs (all_replaced lib re (template (re_nsub re) rhs)) us"
  using new_text_all [OF assms(1-3)] assms(4) lines_of_lines by (auto simp: substitutes_def all_replaced_def)

end
