(* ===== verification/Edit_Rounds.thy ===== *)
theory Edit_Rounds
  imports File_Props
begin

text \<open>
  Rounds of the main loop that edit the buffer: a user types the command \<open>a\<close> and lines of text up to
  a period, and undoes the command.
\<close>

section \<open>The start of a command that edits\<close>

lemma reset_undo_loop_plain: "\<forall>up\<in>set ups. undo_type up \<noteq> UDEL \<Longrightarrow> reset_undo_loop ups ed = Some ed"
  by (induction ups) auto

text \<open>No line that the last command deleted is kept for an undo.\<close>

definition nothing_deleted :: "ed_buffer \<Rightarrow> bool" where
  "nothing_deleted ed \<longleftrightarrow> (\<forall>up\<in>set (undo_queue (core ed)). undo_type up \<noteq> UDEL)"

lemma start_undo_plain:
  assumes "nothing_deleted ed" "global (exec ed) = {}" "sp (core ed) = 0"
  shows "start_undo ed = (Inr (), state1_update (\<lambda>_. state ed) (set_undo_queue [] ed))"
  using assms reset_undo_loop_plain [of "undo_queue (core ed)" "spl1 ed"]
  by (simp add: start_undo_def reset_undo_queue_def nothing_deleted_def spl0_def spl1_def)

lemma undo_inv_start:
  assumes "buf_inv ed ns" "undo_inv ed ns0 ns" "0 \<le> dot (state ed)"
  shows "undo_inv (state1_update (\<lambda>_. state ed) (set_undo_queue [] ed)) ns ns"
proof -
  have "heap_ok (next_node (core ed)) (nodes (core ed)) ns"
    using assms(2) undo_log_heap_ok by (auto simp: undo_inv_def)
  then show ?thesis using assms(1,3) by (auto simp: undo_inv_def buf_inv_def intro: log_nil)
qed

section \<open>Appending typed lines\<close>

lemma key_a: "dispatch os run CHR ''a'' = a_cmd"
  by (rule ext) (simp add: dispatch_def ed_cmd_def byte_def ED_KEY_FIRST_def ED_KEY_MASK_def)

lemma key_u: "dispatch os run CHR ''u'' = u_cmd"
  by (rule ext) (simp add: dispatch_def ed_cmd_def byte_def ED_KEY_FIRST_def ED_KEY_MASK_def)

lemma starts_command_letters: "starts_command CHR ''a''" "starts_command CHR ''u''"
  by (simp_all add: starts_command_def ends_address_def IS_DELIMITER_def ctype_defs)

text \<open>A command letter alone on its line, without an address\<close>

lemma exec_one_letter:
  assumes "input ed = [c, LINE_FEED]" "starts_command c" "c \<noteq> CHR ''<''" "\<not> takes_prefix c"
    and "0 \<le> dot (state ed)" "dot (state ed) \<le> lines (state ed)"
    and "dispatch os (exec_command os k) c (set_input [LINE_FEED] (reset_command (no_address_given ed))) = (Inr {}, e)"
  shows "exec_one os (exec_command os (Suc k)) ed = (Inr (), set_dio_f {} e)"
proof -
  have c: "starts_command (cur (input ed))" using assms(1,2) by (simp add: cur_def)
  have "\<not> isspace c" using assms(2) by (simp add: starts_command_def)
  then have "exec_command os (Suc k) (no_address_given ed) = (Inr {}, e)"
    using assms(1,3,4,7) by (subst exec_command_key [where c = c and s = "[LINE_FEED]"]) auto
  then show ?thesis
    by (simp add: exec_one_def address_range_none [OF c assms(5,6)] Let_def)
qed

text \<open>What a round of editing needs of the editor\<close>

definition editing :: "ed_buffer \<Rightarrow> node list \<Rightarrow> node list \<Rightarrow> bool" where
  "editing ed ns0 ns \<longleftrightarrow>
     buf_inv ed ns \<and> undo_inv ed ns0 ns \<and> disk_inv ed \<and> sys_all_ok ed \<and> 0 \<le> dot (state ed) \<and> dot (state ed) \<le> lines (state ed) \<and>
     global (exec ed) = {} \<and> sp (core ed) = 0 \<and> std_in ed \<noteq> core_fp (core ed) \<and> address (exec ed) = None"

lemma reset_command_invs [simp]:
  "buf_inv (reset_command ed) ns = buf_inv ed ns" "disk_inv (reset_command ed) = disk_inv ed" "sys_all_ok (reset_command ed) = sys_all_ok ed"
  "undo_inv (reset_command ed) ns0 ns = undo_inv ed ns0 ns" "state1 (reset_command ed) = state1 ed"
  "streams (reset_command ed) = streams ed" "std_in (reset_command ed) = std_in ed" "sp (core (reset_command ed)) = sp (core ed)"
  "nodes (core (reset_command ed)) = nodes (core ed)" "undo_queue (core (reset_command ed)) = undo_queue (core ed)"
  "core_fp (core (reset_command ed)) = core_fp (core ed)" "std_out (reset_command ed) = std_out ed" "statics (reset_command ed) = statics ed"
  "dio_f (display (reset_command ed)) = {}"
  by (simp_all add: reset_command_def buf_inv_def disk_inv_def node_stored_def undo_inv_def sys_all_ok_def)

lemma editing_read:
  assumes "editing ed ns0 ns" "at_line line rest ed"
  obtains e where "read_command ed = (Inr (), e)" "editing e ns0 ns" "input e = line @ [LINE_FEED]"
    "rest_of (streams e (std_in e)) = rest" "\<not> f_eof (streams e (std_in e))" "std_in e = std_in ed"
    "clear_flags (state e) = clear_flags (state ed)" "state1 e = state1 ed" "core e = core ed" "opt (exec e) = opt (exec ed)"
    "buffer_text e = buffer_text ed" "f_data (disk e) = f_data (disk ed)"
proof -
  let ?p = "if PROMPT \<in> opt (exec ed) then print (prompt (exec ed)) ed else ed"
  obtain e where e: "read_command ed = (Inr (), inc_line_no (set_input (line @ [LINE_FEED]) e))"
    "read_frame (std_in ed) ?p e" "rest_of (streams e (std_in ed)) = rest" "\<not> f_eof (streams e (std_in ed))"
    by (rule read_command_line [OF assms(2)])
  have f: "clear_flags (state e) = clear_flags (state ed)" "core e = core ed" "exec e = exec ed" "std_in e = std_in ed" "sys_all_ok e"
    "state1 e = state1 ed" "statics e = statics ed"
    using e(2) by (auto simp: read_frame_def print_def)
  have d: "disk e = disk ed" using e(2) f(2) assms(1) by (auto simp: read_frame_def print_def editing_def)
  have st: "dot (state e) = dot (state ed)" "lines (state e) = lines (state ed)"
    using arg_cong [OF f(1), of dot] arg_cong [OF f(1), of lines] by simp_all
  have ed: "editing (inc_line_no (set_input (line @ [LINE_FEED]) e)) ns0 ns"
    using assms(1) f d st unfolding editing_def by (simp add: buf_inv_def undo_inv_def disk_inv_def node_stored_def)
  show ?thesis
    by (rule that [OF e(1) ed]) (use f d e(3,4) buffer_text_same [of "inc_line_no (set_input (line @ [LINE_FEED]) e)" ed] in simp_all)
qed


section \<open>The command a\<close>

text \<open>What the round leaves to the next one\<close>

lemma append_round:
  assumes ed: "editing ed ns0 ns" "nothing_deleted ed" and line: "at_line ''a'' (bytes_of (us @ [''.'']) @ rest) ed"
    and us: "''.'' \<notin> set us" "\<forall>t\<in>set us. LINE_FEED \<notin> set t \<and> int (length t) < SIZE_MAX - 3"
    and r: "room (length us) (total_length us) ed" and empty: "\<not> is_empty (state ed) \<or> lines (state ed) = 0"
  obtains e ns' where "andThen (read_command ed) (\<lambda>_. exec_one os (exec_command os EXEC_DEPTH)) = (Inr (), e)"
    "editing e ns ns'" "buffer_text e ns' = insert_after (dot (state ed)) us (buffer_text ed ns)" "buffer_text e ns = buffer_text ed ns"
    "rest_of (streams e (std_in e)) = rest" "\<not> f_eof (streams e (std_in e))" "clear_flags (state1 e) = clear_flags (state ed)"
    "dot (state e) = dot (state ed) + int (length us)"
proof -
  obtain e0 where e0: "read_command ed = (Inr (), e0)" "editing e0 ns0 ns" "input e0 = ''a'' @ [LINE_FEED]"
    "rest_of (streams e0 (std_in e0)) = bytes_of (us @ [''.'']) @ rest" "\<not> f_eof (streams e0 (std_in e0))"
    "clear_flags (state e0) = clear_flags (state ed)" "core e0 = core ed" "buffer_text e0 = buffer_text ed" "f_data (disk e0) = f_data (disk ed)"
    using editing_read [OF ed(1) line] by metis
  have st: "dot (state e0) = dot (state ed)" "lines (state e0) = lines (state ed)" "is_empty (state e0) = is_empty (state ed)"
    using arg_cong [OF e0(6), of dot] arg_cong [OF e0(6), of lines] arg_cong [OF e0(6), of is_empty] by simp_all
  note inv = e0(2) [unfolded editing_def]
  define e1 where "e1 = set_input [] (reset_command (no_address_given e0))"
  define e2 where "e2 = state1_update (\<lambda>_. state e1) (set_undo_queue [] e1)"
  have s: "COMMAND_SUFFIX_WITH_ARG (set_input [LINE_FEED] (reset_command (no_address_given e0))) = (Inr (), set_dio_f {} e1)"
    by (simp add: COMMAND_SUFFIX_WITH_ARG_def suffix_flag_def isspace_def byte_def e1_def reset_command_def)
  have d1: "set_dio_f {} e1 = e1" by (simp add: e1_def reset_command_def)
  have i1: "buf_inv e1 ns" "undo_inv e1 ns0 ns" "disk_inv e1" "sys_all_ok e1" "streams e1 = streams e0" "std_in e1 = std_in e0"
    "state e1 = state e0" "global (exec e1) = {}" "sp (core e1) = 0" "reg_end e1 = dot (state e0)" "core_fp (core e1) = core_fp (core e0)" "address (exec e1) = None"
    "undo_queue (core e1) = undo_queue (core e0)" "nodes (core e1) = nodes (core e0)"
    using inv by (simp_all add: e1_def buf_inv_def undo_inv_def disk_inv_def node_stored_def sys_all_ok_def reset_command_def)
  have u: "start_undo e1 = (Inr (), e2)"
    unfolding e2_def by (rule start_undo_plain) (use ed(2) i1 e0(7) in \<open>simp_all add: nothing_deleted_def\<close>)
  have i2: "buf_inv e2 ns" "disk_inv e2" "sys_all_ok e2" "lines (state e2) = lines (state e0)" "input e2 = []" "state1 e2 = state e0"
    "reg_end e2 = dot (state e0)"
    using i1 by (simp_all add: e2_def buf_inv_def disk_inv_def node_stored_def sys_all_ok_def e1_def)
  have n2: "undo_inv e2 ns ns" unfolding e2_def by (rule undo_inv_start [OF i1(1,2)]) (use inv i1 in simp)
  have b2: "buffer_text e2 = buffer_text ed" using buffer_text_same [of e2 e0] e0(8) i1 by (simp add: e2_def)
  have src: "stdin_source rest e2 (us @ [''.''])"
    using i1 inv e0(4,5) us by (auto simp: stdin_source_def reads_input_def e2_def SIZE_MAX_def)
  have r2: "room (length us) (total_length us) e2" using r i1 st e0(9) by (simp add: room_def e2_def e0(7))
  obtain e3 where e3: "append_lines (dot (state e0)) e2 = (Inr (), e3)" "appended e2 ns ns (dot (state e0)) us [] e3" "stdin_source rest e3 []"
    using append_lines_stdin [OF i2(1) n2 i2(2,3) _ _ i2(5) src us(1) r2, of "dot (state e0)"] inv i2(4) by auto
  then obtain ns' where a: "buf_inv e3 ns'" "undo_inv e3 ns ns'" "disk_inv e3" "buffer_text e3 ns' = insert_after (dot (state e0)) us (buffer_text e2 ns)"
    "buffer_text e3 ns = buffer_text e2 ns" "sys_all_ok e3" "dot (state e3) = dot (state e0) + int (length us)" "append_frame e2 e3"
    by (auto simp: appended_def)
  note f = a(8) [unfolded append_frame_def]
  have d3: "dio_f (display e3) = {}" using f by (simp add: e2_def e1_def)
  have c: "\<not> is_empty (state e0) \<or> lines (state e0) = 0" using empty st by simp
  have "a_cmd (set_input [LINE_FEED] (reset_command (no_address_given e0))) = (Inr {}, e3)"
    unfolding a_cmd_def s d1 using c u i2(7) e3(1) d3 by simp
  then have x: "exec_one os (exec_command os EXEC_DEPTH) e0 = (Inr (), set_dio_f {} e3)"
    unfolding EXEC_DEPTH_Suc using inv e0(3) by (intro exec_one_letter [of _ "CHR ''a''"]) (auto simp: starts_command_letters key_a takes_prefix_def)
  have len: "length (buffer_text e3 ns') = length (buffer_text ed ns) + length us" using a(4) by (simp add: b2 insert_after_def)
  then have "lines (state e3) = lines (state e0) + int (length us)" using a(1) inv by (simp add: buf_inv_def buffer_text_def)
  then have fin: "editing (set_dio_f {} e3) ns ns'"
    using a f inv i1 by (auto simp: editing_def buf_inv_def undo_inv_def disk_inv_def node_stored_def sys_all_ok_def e2_def)
  have bt: "buffer_text (set_dio_f {} e3) = buffer_text e3" by (rule buffer_text_same) simp_all
  show ?thesis
    by (rule that [OF _ fin]) (use e0(1,6) x a st b2 bt e3(3) f i2(6) in \<open>simp_all add: stdin_source_def\<close>)
qed

section \<open>The command u\<close>

lemma link_nodes_text [simp]:
  "ln_seek (link_nodes p q h x) = ln_seek (h x)" "ln_len (link_nodes p q h x) = ln_len (h x)"
  by (simp_all add: link_nodes_def Let_def)

lemma undo_step_text [simp]:
  "ln_seek (undo_add up h x) = ln_seek (h x)" "ln_len (undo_add up h x) = ln_len (h x)"
  "ln_seek (undo_del up h x) = ln_seek (h x)" "ln_len (undo_del up h x) = ln_len (h x)"
  "ln_seek (undo_mov up prev h x) = ln_seek (h x)" "ln_len (undo_mov up prev h x) = ln_len (h x)"
  by (simp_all add: undo_add_def undo_del_def undo_mov_def Let_def)

definition same_text :: "heap \<Rightarrow> heap \<Rightarrow> bool" where
  "same_text h g \<longleftrightarrow> (\<forall>x. ln_seek (h x) = ln_seek (g x) \<and> ln_len (h x) = ln_len (g x))"

lemma undo_loop_text: "undo_loop h ups = Some (h', q) \<Longrightarrow> same_text h' g = same_text h g"
proof (induction h ups arbitrary: h' q rule: undo_loop.induct)
  case (1 h)
  then show ?case by simp
next
  case (2 h up ups)
  have step: "same_text (undo_add up h) g = same_text h g" "same_text (undo_del up h) g = same_text h g"
    "same_text (undo_mov up prev h) g = same_text h g" for prev
    by (simp_all add: same_text_def)
  show ?case
  proof (cases "undo_type up = UADD \<or> undo_type up = UDEL")
    case True
    with 2(5) obtain q' where "undo_loop (if undo_type up = UADD then undo_add up h else undo_del up h) ups = Some (h', q')"
      by (auto simp: queue_cons_Some)
    with True show ?thesis using 2(1,2) step by (auto split: if_splits)
  next
    case False
    with 2(5) obtain prev rest q' where "ups = prev # rest" "undo_loop (undo_mov up prev h) rest = Some (h', q')"
      by (cases "undo_type up"; cases ups) (auto simp: queue_cons_Some)
    with False show ?thesis using 2(3,4) step(3) by (cases "undo_type up") auto
  qed
qed

lemma undo_keeps:
  assumes "undo_last_command ed = (Inr (), ed')" "buf_inv ed ns" "global (exec ed) = {}"
  shows "buffer_text ed' = buffer_text ed" "streams ed' = streams ed" "exec ed' = exec ed" "std_in ed' = std_in ed"
    "core_fp (core ed') = core_fp (core ed)" "display ed' = display ed" "mutex ed' = mutex ed"
proof -
  have g: "get_line_node 0 (spl1 ed) = (line_head, cache_node line_head 0 (spl1 ed))"
    using get_line_node_eq [of "spl1 ed" ns 0] assms(2) by (simp add: buf_inv_def)
  then obtain h q where l: "undo_loop (nodes (core ed)) (rev (undo_queue (core ed))) = Some (h, q)"
    and ed': "ed' = spl0 (state1_update (\<lambda>_. state ed) (state_update (\<lambda>_. state1 ed) (set_undo_queue q (set_nodes h (cache_node line_head 0 (spl1 ed))))))"
    using assms(1,3) by (auto simp: undo_last_command_def Let_def throw_def cache_node_def spl1_def split: option.splits if_splits)
  show "streams ed' = streams ed" "exec ed' = exec ed" "std_in ed' = std_in ed" "core_fp (core ed') = core_fp (core ed)" "display ed' = display ed"
    "mutex ed' = mutex ed"
    by (simp_all add: ed' cache_node_def spl1_def spl0_def)
  have "node_text ed' x = node_text ed x" for x
    using undo_loop_text [OF l, of "nodes (core ed)"] by (simp add: ed' node_text_def cache_node_def same_text_def)
  then show "buffer_text ed' = buffer_text ed" by (simp add: buffer_text_def fun_eq_iff)
qed

lemma undo_round:
  assumes ed: "editing ed ns0 ns" and line: "at_line ''u'' rest ed"
  obtains e where "andThen (read_command ed) (\<lambda>_. exec_one os (exec_command os EXEC_DEPTH)) = (Inr (), e)"
    "buf_inv e ns0" "buffer_text e ns0 = buffer_text ed ns0" "state e = state1 ed"
    "rest_of (streams e (std_in e)) = rest" "\<not> f_eof (streams e (std_in e))"
proof -
  obtain e0 where e0: "read_command ed = (Inr (), e0)" "editing e0 ns0 ns" "input e0 = ''u'' @ [LINE_FEED]"
    "rest_of (streams e0 (std_in e0)) = rest" "\<not> f_eof (streams e0 (std_in e0))"
    "state1 e0 = state1 ed" "buffer_text e0 = buffer_text ed"
    using editing_read [OF ed line] by metis
  note inv = e0(2) [unfolded editing_def]
  define e1 where "e1 = set_input [] (reset_command (no_address_given e0))"
  have s: "display_suffix (set_input [LINE_FEED] (reset_command (no_address_given e0))) = (Inr (), set_dio_f {} e1)"
    by (simp add: display_suffix_def suffix_flag_def e1_def reset_command_def)
  have d1: "set_dio_f {} e1 = e1" by (simp add: e1_def reset_command_def)
  have i1: "buf_inv e1 ns" "undo_inv e1 ns0 ns" "global (exec e1) = {}" "0 \<le> dot (state e1)" "state1 e1 = state1 e0"
    "streams e1 = streams e0" "std_in e1 = std_in e0" "dio_f (display e1) = {}"
    using inv by (simp_all add: e1_def buf_inv_def undo_inv_def reset_command_def)
  have b1: "buffer_text e1 = buffer_text ed" using buffer_text_same [of e1 e0] e0(7) by (simp add: e1_def reset_command_def)
  obtain e2 where u: "undo_last_command e1 = (Inr (), e2)" "buf_inv e2 ns0" "state e2 = state1 e1"
    using undo_last_command_restores [OF i1(1,2,4)] by blast
  note k = undo_keeps [OF u(1) i1(1,3)]
  have d2: "dio_f (display e2) = {}" using k i1 by simp
  have "u_cmd (set_input [LINE_FEED] (reset_command (no_address_given e0))) = (Inr {}, e2)"
    unfolding u_cmd_def s d1 using u(1) d2 by simp
  then have x: "exec_one os (exec_command os EXEC_DEPTH) e0 = (Inr (), set_dio_f {} e2)"
    unfolding EXEC_DEPTH_Suc using inv e0(3) by (intro exec_one_letter [of _ "CHR ''u''"]) (auto simp: starts_command_letters key_u takes_prefix_def)
  have bt: "buffer_text (set_dio_f {} e2) = buffer_text e2" by (rule buffer_text_same) simp_all
  have b: "buf_inv (set_dio_f {} e2) ns0" using u(2) by (simp add: buf_inv_def)
  show ?thesis
    by (rule that [OF _ b]) (use e0 x u k b1 bt i1 in simp_all)
qed

section \<open>Text typed and undone\<close>

lemma append_undo_session:
  assumes ed: "editing (buf sn) ns0 ns" "nothing_deleted (buf sn)" "exited sn = None"
    and line: "at_line ''a'' (bytes_of (us @ [''.'']) @ ''u'' @ LINE_FEED # rest) (buf sn)"
    and us: "''.'' \<notin> set us" "\<forall>t\<in>set us. LINE_FEED \<notin> set t \<and> int (length t) < SIZE_MAX - 3"
    and r: "room (length us) (total_length us) (buf sn)" and empty: "\<not> is_empty (state (buf sn)) \<or> lines (state (buf sn)) = 0"
  obtains e ns' e' where "main_step os sn = set_buf e sn" "buf_inv e ns'"
    "buffer_text e ns' = insert_after (dot (state (buf sn))) us (buffer_text (buf sn) ns)" "dot (state e) = dot (state (buf sn)) + int (length us)"
    "main_step os (set_buf e sn) = set_buf e' sn" "buf_inv e' ns" "buffer_text e' ns = buffer_text (buf sn) ns"
    "clear_flags (state e') = clear_flags (state (buf sn))" "rest_of (streams e' (std_in e')) = rest"
proof -
  obtain e ns' where e: "andThen (read_command (buf sn)) (\<lambda>_. exec_one os (exec_command os EXEC_DEPTH)) = (Inr (), e)"
    "editing e ns ns'" "buffer_text e ns' = insert_after (dot (state (buf sn))) us (buffer_text (buf sn) ns)" "buffer_text e ns = buffer_text (buf sn) ns"
    "rest_of (streams e (std_in e)) = ''u'' @ LINE_FEED # rest" "\<not> f_eof (streams e (std_in e))"
    "clear_flags (state1 e) = clear_flags (state (buf sn))" "dot (state e) = dot (state (buf sn)) + int (length us)"
    by (rule append_round [OF ed(1,2) line us r empty, of os])
  have l: "at_line ''u'' rest e" using e(2,5,6) by (simp add: at_line_def editing_def SIZE_MAX_def)
  obtain e' where u: "andThen (read_command e) (\<lambda>_. exec_one os (exec_command os EXEC_DEPTH)) = (Inr (), e')"
    "buf_inv e' ns" "buffer_text e' ns = buffer_text e ns" "state e' = state1 e" "rest_of (streams e' (std_in e')) = rest"
    by (rule undo_round [OF e(2) l, of os])
  show ?thesis
    by (rule that [of e ns' e']) (use e u in \<open>simp_all add: main_step_def editing_def\<close>)
qed

end
