(* ===== verification/Global_Props.thy ===== *)
theory Global_Props
  imports Edit_Rounds
begin

text \<open>
  Global commands: \<open>mark_matching\<close> fills the global buffer with the lines of the range that match, and the
  loop of \<open>exec_global\<close> with the command list \<open>d\<close> deletes exactly these.
\<close>

section \<open>The lines marked\<close>

abbreviation gb_of :: "ed_buffer \<Rightarrow> ed_global_buffer" where
  "gb_of ed \<equiv> global_buffer (core ed)"

definition wanted :: "'x regex_lib_scheme \<Rightarrow> regex \<Rightarrow> bool \<Rightarrow> string \<Rightarrow> bool" where
  "wanted lib re want t \<longleftrightarrow> re_matches lib re t = want"

text \<open>What marking lines leaves alone: everything but positions and the global buffer\<close>

definition marked :: "ed_buffer \<Rightarrow> node list \<Rightarrow> node list \<Rightarrow> ed_buffer \<Rightarrow> bool" where
  "marked ed ns ps ed' \<longleftrightarrow>
     buf_inv ed' ns \<and> disk_inv ed' \<and> sys_all_ok ed' \<and> state ed' = state ed \<and> state1 ed' = state1 ed \<and> exec ed' = exec ed \<and>
     input ed' = input ed \<and> nodes (core ed') = nodes (core ed) \<and> next_node (core ed') = next_node (core ed) \<and>
     undo_queue (core ed') = undo_queue (core ed) \<and> sp (core ed') = sp (core ed) \<and> f_data (disk ed') = f_data (disk ed) \<and>
     gb_lbuf (gb_of ed') = gb_lbuf (gb_of ed) @ map Some ps \<and> gb_last (gb_of ed') = gb_last (gb_of ed) + length ps \<and>
     gb_ptr (gb_of ed') = gb_ptr (gb_of ed) \<and> gb_index (gb_of ed') = gb_index (gb_of ed)"

lemma marked_trans: "marked a ns ps b \<Longrightarrow> marked b ns qs c \<Longrightarrow> marked a ns (ps @ qs) c"
  by (simp add: marked_def)

lemma marked_text: "marked ed ns ps ed' \<Longrightarrow> node_text ed' = node_text ed"
  by (rule ext) (simp add: marked_def node_text_def)

lemma buffer_node: "buf_inv ed ns \<Longrightarrow> p \<in> set ns \<Longrightarrow> 0 < p \<and> p < next_node (core ed)"
  by (auto simp: buf_inv_def ring_def line_head_def intro: gr0I)

lemma mark_line:
  assumes inv: "buf_inv ed ns" "disk_inv ed" "sys_all_ok ed" and p: "p \<in> set ns"
  obtains e where "mark_matching lib re want (Suc n) p ed = mark_matching lib re want n (q_forw (nodes (core ed) p)) e"
    "marked ed ns (if wanted lib re want (node_text ed p) then [p] else []) e"
proof -
  note p' = buffer_node [OF inv(1) p]
  obtain e where e: "get_buffer_line p ed = (Inr (node_text ed p), e)" "disk_inv e" "f_data (disk e) = f_data (disk ed)" "state e = state ed"
    "statics e = statics ed" "sys_all_ok e" "state1 e = state1 ed" "mutex e = mutex ed" "exec e = exec ed" "input e = input ed"
    "core e = (core ed)\<lparr>seek_on_write := True, offset := ln_seek (nodes (core ed) p) + int (ln_len (nodes (core ed) p))\<rparr>"
    by (rule get_buffer_line_text [OF inv(2) _ _ inv(3), of p]) (use p' in auto)
  have "node_stored ed p" using inv(2) p' by (simp add: disk_inv_def)
  then have len: "ln_len (nodes (core ed) p) = length (node_text ed p)"
    using p' by (auto simp: node_stored_def node_text_def line_head_def)
  define e1 where "e1 = (if wanted lib re want (node_text ed p) then snd (append_global_line p e) else e)"
  have "mark_matching lib re want (Suc n) p ed = mark_matching lib re want n (q_forw (nodes (core ed) p)) e1"
    using e(1,11) len by (auto simp: e1_def wanted_def append_global_line_def Let_def)
  moreover have "marked ed ns (if wanted lib re want (node_text ed p) then [p] else []) e1"
    using inv e by (auto simp: marked_def e1_def append_global_line_def Let_def buf_inv_def disk_inv_def node_stored_def sys_all_ok_def)
  ultimately show ?thesis by (rule that)
qed

lemma mark_matching_ok:
  assumes "buf_inv ed (A @ xs @ B)" "disk_inv ed" "sys_all_ok ed"
  shows "\<exists>ed'. mark_matching lib re want (length xs) (hd (xs @ B @ [line_head])) ed = (Inr (), ed') \<and>
     marked ed (A @ xs @ B) (filter (\<lambda>p. wanted lib re want (node_text ed p)) xs) ed'"
  using assms
proof (induction xs arbitrary: A ed)
  case Nil
  then show ?case by (intro exI [of _ ed]) (simp add: marked_def)
next
  case (Cons x xs)
  let ?ns = "A @ (x # xs) @ B"
  obtain e where e: "\<And>n. mark_matching lib re want (Suc (length xs)) x ed = mark_matching lib re want (length xs) (q_forw (nodes (core ed) x)) e"
    "marked ed ?ns (if wanted lib re want (node_text ed x) then [x] else []) e"
    using mark_line [OF Cons.prems, of x lib re want "length xs"] by auto
  have "q_forw (nodes (core ed) x) = hd (xs @ B @ [line_head])"
  proof (cases "xs @ B")
    case Nil
    then show ?thesis using ring_forw_last(1) [of "nodes (core ed)" "A @ [x]"] Cons.prems(1) by (simp add: buf_inv_def nth_append)
  next
    case (Cons y ys)
    then have "hd ((xs @ B) @ [line_head]) = y" by simp
    then have "hd (xs @ B @ [line_head]) = y" by simp
    moreover have "q_forw (nodes (core ed) x) = y"
      using ring_successor [of "nodes (core ed)" A x y ys] Cons.prems(1) Cons by (simp add: buf_inv_def)
    ultimately show ?thesis by simp
  qed
  moreover have "buf_inv e ((A @ [x]) @ xs @ B)" "disk_inv e" "sys_all_ok e" using e(2) by (simp_all add: marked_def)
  from Cons.IH [OF this]
  obtain e' where e': "mark_matching lib re want (length xs) (hd (xs @ B @ [line_head])) e = (Inr (), e')"
    "marked e ?ns (filter (\<lambda>p. wanted lib re want (node_text e p)) xs) e'" by auto
  ultimately show ?case
    using e marked_trans [OF e(2) e'(2)] marked_text [OF e(2)] by (intro exI [of _ e']) (simp split: if_splits)
qed

section \<open>The command list d\<close>

lemma key_d: "dispatch os run CHR ''d'' = d_cmd"
  by (rule ext) (simp add: dispatch_def ed_cmd_def byte_def ED_KEY_FIRST_def ED_KEY_MASK_def)

lemma starts_command_d: "starts_command CHR ''d''"
  by (simp add: starts_command_def ends_address_def IS_DELIMITER_def ctype_defs)

text \<open>What a global command needs of the editor while it visits the lines \<open>todo\<close>\<close>

definition visiting :: "ed_buffer \<Rightarrow> node list \<Rightarrow> node list \<Rightarrow> node list \<Rightarrow> ed_buffer \<Rightarrow> bool" where
  "visiting ed0 ns0 ns todo ed \<longleftrightarrow>
     buf_inv ed ns \<and> undo_inv ed ns0 ns \<and> disk_inv ed \<and> sys_all_ok ed \<and> gb_ok ed \<and>
     global (exec ed) \<noteq> {} \<and> drop (gb_ptr (gb_of ed)) (gb_lbuf (gb_of ed)) = map Some todo \<and>
     set todo \<subseteq> set ns \<and> distinct todo \<and> node_text ed = node_text ed0"

lemma set_gb_invs [simp]:
  "buf_inv (set_gb gb e) ns = buf_inv e ns" "undo_inv (set_gb gb e) ns0 ns = undo_inv e ns0 ns" "disk_inv (set_gb gb e) = disk_inv e"
  "sys_all_ok (set_gb gb e) = sys_all_ok e" "node_text (set_gb gb e) = node_text e"
  by (simp_all add: buf_inv_def undo_inv_def disk_inv_def node_stored_def sys_all_ok_def node_text_def fun_eq_iff)

lemma next_global_line_visit:
  assumes "visiting ed0 ns0 ns (p # todo) ed"
  shows "next_global_line ed = (Some p, set_gb (gb_of ed\<lparr>gb_ptr := gb_ptr (gb_of ed) + 1\<rparr>) ed)"
    "visiting ed0 ns0 ns todo (set_gb (gb_of ed\<lparr>gb_ptr := gb_ptr (gb_of ed) + 1\<rparr>) ed)"
proof -
  let ?gb = "gb_of ed"
  have len: "gb_last ?gb = length (gb_lbuf ?gb)" using assms by (simp add: visiting_def gb_ok_def gb_inv_def)
  have d: "drop (gb_ptr ?gb) (gb_lbuf ?gb) = Some p # map Some todo" using assms by (simp add: visiting_def)
  then have lt: "gb_ptr ?gb < length (gb_lbuf ?gb)" by (metis drop_eq_Nil leI list.distinct(1))
  then have at: "gb_lbuf ?gb ! gb_ptr ?gb = Some p" using d by (metis hd_drop_conv_nth list.sel(1))
  have "skip_cleared k ?gb = ?gb" for k by (cases k) (simp_all add: at)
  then show "next_global_line ed = (Some p, set_gb (?gb\<lparr>gb_ptr := gb_ptr ?gb + 1\<rparr>) ed)"
    using lt at len by (simp add: next_global_line_def Let_def)
  have "drop (Suc (gb_ptr ?gb)) (gb_lbuf ?gb) = map Some todo" using d by (metis drop_Suc list.sel(3) tl_drop)
  then show "visiting ed0 ns0 ns todo (set_gb (?gb\<lparr>gb_ptr := gb_ptr ?gb + 1\<rparr>) ed)"
    using assms lt len by (simp add: visiting_def gb_ok_def gb_inv_def)
qed

lemma next_global_line_end:
  assumes "visiting ed0 ns0 ns [] ed"
  shows "next_global_line ed = (None, ed)"
proof -
  let ?gb = "gb_of ed"
  have "gb_ptr ?gb = gb_last ?gb" using assms by (simp add: visiting_def gb_ok_def gb_inv_def)
  then have "skip_cleared (gb_last ?gb - gb_ptr ?gb) ?gb = ?gb" by simp
  then show ?thesis using \<open>gb_ptr ?gb = gb_last ?gb\<close> by (simp add: next_global_line_def Let_def)
qed

text \<open>What a deletion leaves alone besides\<close>

lemma delete_lines_keeps:
  assumes "delete_lines i j ed = (Inr (), ed')"
  shows "display ed' = display ed" "gcb (statics ed') = gcb (statics ed)"
proof -
  define P where "P e \<longleftrightarrow> display e = display ed \<and> gcb (statics e) = gcb (statics ed)" for e :: ed_buffer
  have upd: "P (core_update f e) = P e" "P (state_update g e) = P e" "P (cache_node lp n e) = P e" "P (spl1 e) = P e" "P (spl0 e) = P e"
    "P (snd (sys_call e)) = P e" "P (exec_update x e) = P e" for f g e lp n x
    by (simp_all add: P_def cache_node_def spl1_def spl0_def sys_call_def)
  have get: "P (snd (get_line_node n e)) = P e" for n e by (simp add: get_line_node_def Let_def upd)
  have app: "P (snd (append_undo_node ty h t e)) = P e" for ty h t e
    by (auto simp: append_undo_node_def throw_def Let_def case_prod_beta upd get split: bool.split)
  have clear: "P (snd (clear_global_lines a b c e)) = P e" for a b c e
    by (simp add: clear_global_lines_def upd split: option.split)
  have "P ed" by (simp add: P_def)
  then have "P (snd (delete_lines i j ed))"
    by (auto simp: delete_lines_def Let_def case_prod_beta upd get app clear intro!: andThen_keeps [where I = P] del: equalityI split: sum.split)
  then show "display ed' = display ed" "gcb (statics ed') = gcb (statics ed)" using assms by (simp_all add: P_def)
qed

lemma removed_node:
  assumes "distinct ns" "ns ! i = p" "i < length ns"
  shows "removed (int i + 1) (int i + 1) ns = filter (\<lambda>q. q \<noteq> p) ns"
proof -
  have ns: "ns = take i ns @ p # drop (Suc i) ns" using assms by (metis id_take_nth_drop)
  have "nat (int i + 1) = Suc i" by simp
  then have "removed (int i + 1) (int i + 1) ns = take i ns @ drop (Suc i) ns" by (simp add: removed_def)
  moreover have "distinct (take i ns @ p # drop (Suc i) ns)" using ns assms(1) by simp
  then have "p \<notin> set (take i ns)" "p \<notin> set (drop (Suc i) ns)" by simp_all
  then have "filter (\<lambda>q. q \<noteq> p) (take i ns) = take i ns" "filter (\<lambda>q. q \<noteq> p) (drop (Suc i) ns) = drop (Suc i) ns"
    by (auto intro!: filter_True)
  then have "filter (\<lambda>q. q \<noteq> p) (take i ns @ p # drop (Suc i) ns) = take i ns @ drop (Suc i) ns" by simp
  ultimately show ?thesis using ns by metis
qed


lemma visiting_same:
  assumes "core e = core e2" "streams e = streams e2" "statics e = statics e2" "exec e = exec e2" "sys_ok e = sys_ok e2"
    "lines (state e) = lines (state e2)" "state1 e = state1 e2"
  shows "visiting ed0 ns0 ns todo e = visiting ed0 ns0 ns todo e2"
  using assms by (simp add: visiting_def buf_inv_def undo_inv_def disk_inv_def node_stored_def gb_ok_def sys_all_ok_def node_text_def fun_eq_iff)

text \<open>One line of the list, deleted\<close>

lemma delete_command_ok:
  assumes v: "visiting ed0 ns0 ns todo ed" and d: "1 \<le> dot (state ed)" "dot (state ed) \<le> lines (state ed)"
    and inp: "input ed = [LINE_FEED]" and at: "node_at ns (dot (state ed)) = p" "p \<notin> set todo" and no: "addrs (region (exec ed)) = 0" "dio_f (display ed) = {}"
  obtains e where "d_cmd ed = (Inr {}, e)" "visiting ed0 ns0 (filter (\<lambda>q. q \<noteq> p) ns) todo e" "input e = []"
    "gcb (statics e) = gcb (statics ed)" "display e = display ed"
proof -
  let ?d = "dot (state ed)"
  define e1 where "e1 = set_dio_f {} (set_input [] (set_region ?d ?d ed))"
  have r: "is_valid_range ?d ?d ed = (Inr (), set_region ?d ?d ed)"
    using d no by (simp add: is_valid_range_def Let_def)
  have s: "display_suffix (set_region ?d ?d ed) = (Inr (), e1)"
    using inp no by (simp add: display_suffix_def suffix_flag_def e1_def)
  have i1: "buf_inv e1 ns" "undo_inv e1 ns0 ns" "disk_inv e1" "sys_all_ok e1" "gb_ok e1" "state e1 = state ed" "core e1 = core ed" "streams e1 = streams ed"
    "global (exec e1) \<noteq> {}" "reg_start e1 = ?d" "reg_end e1 = ?d" "statics e1 = statics ed" "display e1 = display ed" "input e1 = []"
    using v no by (simp_all add: visiting_def e1_def undo_inv_def gb_ok_def sys_all_ok_def)
  have u: "start_undo e1 = (Inr (), e1)" using i1(9) by (simp add: start_undo_def)
  have i2: "buf_inv (spl1 e1) ns" "undo_inv (spl1 e1) ns0 ns" "gb_ok (spl1 e1)" "sys_all_ok (spl1 e1)"
    using i1 by (simp_all add: undo_inv_def gb_ok_def spl1_def)
  have d2: "?d \<le> lines (state (spl1 e1))" using d i1(6) by simp
  show ?thesis
  proof (rule delete_lines_ok [OF i2 d(1) order_refl d2])
    fix e2 gb q
    assume e2: "delete_lines ?d ?d (spl1 e1) = (Inr (), e2)"
      "buf_inv e2 (removed ?d ?d ns)" "undo_inv e2 ns0 (removed ?d ?d ns)" "gb_ok e2"
      "core e2 = (core (spl1 e1))\<lparr>undo_queue := q, global_buffer := gb,
        nodes := link_nodes (node_at ns (?d - 1)) (node_at ns (INC_MOD ?d (lines (state (spl1 e1))))) (nodes (core (spl1 e1)))\<rparr>"
      "gb_lbuf gb = (if global (exec (spl1 e1)) \<noteq> {} then cleared (set (take (nat (?d - ?d + 1)) (drop (nat (?d - 1)) ns)))
        (gb_lbuf (gb_of (spl1 e1))) else gb_lbuf (gb_of (spl1 e1)))"
      "streams e2 = streams (spl1 e1)" "exec e2 = exec (spl1 e1)" "input e2 = input (spl1 e1)" "sys_all_ok e2"
      "gb_ptr gb = gb_ptr (gb_of (spl1 e1))"
    note k = delete_lines_keeps [OF e2(1)]
    define i where "i = nat ?d - 1"
    have i: "int i + 1 = ?d" "i < length ns" using d i1(1,6) by (auto simp: i_def buf_inv_def)
    have n: "nat ?d = Suc i" using i(1) by simp
    have pi: "ns ! i = p" using at(1) n by simp
    have dis: "distinct ns" using i1(1) by (simp add: buf_inv_def ring_def)
    have rem: "removed ?d ?d ns = filter (\<lambda>q. q \<noteq> p) ns" using removed_node [OF dis pi i(2)] i(1) by simp
    have lb: "gb_lbuf gb = cleared {p} (gb_lbuf (gb_of ed))"
    proof -
      have "take (nat (?d - ?d + 1)) (drop (nat (?d - 1)) ns) = [p]"
        using i(2) pi n by (simp add: nat_diff_distrib take_Suc hd_drop_conv_nth)
      then show ?thesis using e2(6) i1(7,9) by (simp add: spl1_def)
    qed
    have "drop (gb_ptr (gb_of ed)) (cleared {p} (gb_lbuf (gb_of ed))) = cleared {p} (map Some todo)"
      using v by (simp add: visiting_def drop_map)
    also have "\<dots> = map Some todo" using at(2) by (auto simp: image_iff)
    finally have dr: "drop (gb_ptr gb) (gb_lbuf gb) = map Some todo" using lb e2(11) i1(7) by (simp add: spl1_def)
    define e where "e = spl0 (let addr = INC_MOD (dot (state e2)) (lines (state e2));
         ed = (if addr \<noteq> 0 then set_dot addr e2 else e2);
         ed = set_is_empty (lines (state ed) = 0) ed
       in if lines (state ed) = 0 then set_is_binary False ed else ed)"
    have e: "core e = core e2" "streams e = streams e2" "statics e = statics e2" "display e = display e2" "input e = input e2" "exec e = exec e2"
      "sys_ok e = sys_ok e2" "lines (state e) = lines (state e2)" "state1 e = state1 e2"
      by (simp_all add: e_def Let_def spl0_def)
    have nd: "node_text e2 = node_text ed"
    proof -
      have f: "nodes (core e2) x = (nodes (core ed) x)\<lparr>q_forw := q_forw (nodes (core e2) x), q_back := q_back (nodes (core e2) x)\<rparr>" for x
        using e2(5) i1(7) by (simp add: link_nodes_def Let_def spl1_def)
      have "ln_len (nodes (core e2) x) = ln_len (nodes (core ed) x)" "ln_seek (nodes (core e2) x) = ln_seek (nodes (core ed) x)" for x
        by (subst f, simp)+
      moreover have "f_data (disk e2) = f_data (disk ed)" using e2(5,7) i1(7,8) by (simp add: spl1_def)
      ultimately show ?thesis by (simp add: node_text_def fun_eq_iff)
    qed
    have dk: "disk_inv e2" using i1(3) e2(5,7) by (simp add: disk_inv_def node_stored_def spl1_def)
    have "visiting ed0 ns0 (filter (\<lambda>q. q \<noteq> p) ns) todo e"
      unfolding visiting_same [OF e(1-3,6-9)] unfolding visiting_def
      using e2(2-4) [unfolded rem] e2(10) dk dr nd v at(2) i1(9) e2(5,8) by (auto simp: visiting_def spl1_def)
    moreover have "d_cmd ed = (Inr {}, e)"
    proof -
      have "d_cmd ed = (Inr (dio_f (display e)), e)"
        unfolding d_cmd_def r andThen_Inr s u delete_range_def i1(10,11) e2(1) by (simp add: e_def Let_def)
      then show ?thesis using e(4) k(1) i1(13) no(2) by (simp add: spl1_def)
    qed
    ultimately show ?thesis using that [of e] e k i1(12-14) e2(9) by (simp add: spl1_def)
  qed
qed

text \<open>The command \<open>d\<close> of the list, on the current line\<close>

lemma visiting_dot [simp]:
  "visiting ed0 ns0 ns todo (set_dot d ed) = visiting ed0 ns0 ns todo ed"
  by (rule visiting_same) simp_all

lemma visiting_upd [simp]:
  "visiting ed0 ns0 ns todo (set_input s ed) = visiting ed0 ns0 ns todo ed"
  "visiting ed0 ns0 ns todo (display_update dd ed) = visiting ed0 ns0 ns todo ed"
  by (rule visiting_same; simp)+

lemma visiting_core:
  assumes v: "visiting ed0 ns0 ns todo e2" and "nodes (core e) = nodes (core e2)" "next_node (core e) = next_node (core e2)"
    "undo_queue (core e) = undo_queue (core e2)" "core_fp (core e) = core_fp (core e2)" "offset (core e) = offset (core e2)"
    "seek_on_write (core e) = seek_on_write (core e2)" "gb_of e = gb_of e2" "streams e = streams e2"
    "gl_lp (statics e) = gl_lp (statics e2)" "gl_n_prev (statics e) = gl_n_prev (statics e2)" "sys_ok e = sys_ok e2"
    "lines (state e) = lines (state e2)" "state1 e = state1 e2" "global (exec e) \<noteq> {}"
  shows "visiting ed0 ns0 ns todo e"
proof -
  have "node_text e = node_text e2" by (rule ext) (simp add: node_text_def assms)
  moreover have "node_stored e = node_stored e2" by (rule ext) (simp add: node_stored_def assms)
  then have "disk_inv e = disk_inv e2" by (simp add: disk_inv_def assms)
  moreover have "buf_inv e ns = buf_inv e2 ns" by (simp add: buf_inv_def cache_inv_def assms cong: option.case_cong)
  moreover have "undo_inv e ns0 ns = undo_inv e2 ns0 ns" by (simp add: undo_inv_def assms)
  moreover have "gb_ok e = gb_ok e2" "sys_all_ok e = sys_all_ok e2" by (simp_all add: gb_ok_def sys_all_ok_def assms)
  ultimately show ?thesis using v assms(8,15) by (simp add: visiting_def)
qed

lemma visiting_global: "visiting ed0 ns0 ns todo e \<Longrightarrow> global (exec e) \<noteq> {}"
  by (simp add: visiting_def)

lemma reset_command_frame:
  "nodes (core (reset_command e)) = nodes (core e)" "next_node (core (reset_command e)) = next_node (core e)"
  "undo_queue (core (reset_command e)) = undo_queue (core e)" "core_fp (core (reset_command e)) = core_fp (core e)"
  "offset (core (reset_command e)) = offset (core e)" "seek_on_write (core (reset_command e)) = seek_on_write (core e)"
  "gb_of (reset_command e) = gb_of e" "streams (reset_command e) = streams e" "statics (reset_command e) = statics e"
  "sys_ok (reset_command e) = sys_ok e" "state (reset_command e) = state e" "state1 (reset_command e) = state1 e"
  "global (exec (reset_command e)) = global (exec e)" "addrs (region (exec (reset_command e))) = addrs (region (exec e))"
  "dio_f (display (reset_command e)) = {}"
  by (simp_all add: reset_command_def)

lemma visiting_reset:
  assumes "visiting ed0 ns0 ns todo ed"
  shows "visiting ed0 ns0 ns todo (set_input s (reset_command (no_address_given ed)))"
  by (rule visiting_core [OF assms]) (use visiting_global [OF assms] in \<open>simp_all add: reset_command_frame\<close>)

lemma exec_one_delete:
  assumes v: "visiting ed0 ns0 ns todo ed" and d: "1 \<le> dot (state ed)" "dot (state ed) \<le> lines (state ed)"
    and inp: "input ed = ''d'' @ [LINE_FEED]" and at: "node_at ns (dot (state ed)) = p" "p \<notin> set todo"
  obtains e where "exec_one os (exec_command os (Suc k)) ed = (Inr (), e)" "visiting ed0 ns0 (filter (\<lambda>q. q \<noteq> p) ns) todo e"
    "input e = []" "gcb (statics e) = gcb (statics ed)"
proof -
  let ?e = "set_input [LINE_FEED] (reset_command (no_address_given ed))"
  have f: "state ?e = state ed" "addrs (region (exec ?e)) = 0" "dio_f (display ?e) = {}" "input ?e = [LINE_FEED]" "statics ?e = statics ed"
    by (simp_all add: reset_command_frame)
  obtain e where e: "d_cmd ?e = (Inr {}, e)" "visiting ed0 ns0 (filter (\<lambda>q. q \<noteq> p) ns) todo e" "input e = []"
    "gcb (statics e) = gcb (statics ?e)"
    by (rule delete_command_ok [OF visiting_reset [OF v], of "[LINE_FEED]" p]) (use d at f in auto)
  have "exec_one os (exec_command os (Suc k)) ed = (Inr (), set_dio_f {} e)"
    using inp d e(1) by (intro exec_one_letter [of _ "CHR ''d''"]) (auto simp: starts_command_d key_d takes_prefix_def)
  with that e f(5) show ?thesis by simp
qed

section \<open>The loop over the lines\<close>

lemma global_list_delete:
  assumes v: "visiting ed0 ns0 ns todo ed" and d: "1 \<le> dot (state ed)" "dot (state ed) \<le> lines (state ed)"
    and inp: "input ed = ''d'' @ [LINE_FEED]" and at: "node_at ns (dot (state ed)) = p" "p \<notin> set todo"
  obtains e where "global_list os (exec_command os (Suc k)) (list_fuel ed) ed = (Inr (), e)"
    "visiting ed0 ns0 (filter (\<lambda>q. q \<noteq> p) ns) todo e" "gcb (statics e) = gcb (statics ed)"
proof -
  obtain e where e: "exec_one os (exec_command os (Suc k)) ed = (Inr (), e)" "visiting ed0 ns0 (filter (\<lambda>q. q \<noteq> p) ns) todo e"
    "input e = []" "gcb (statics e) = gcb (statics ed)"
    by (rule exec_one_delete [OF v d inp at])
  obtain n where "list_fuel ed = Suc (Suc n)" by (simp add: list_fuel_def)
  then have "global_list os (exec_command os (Suc k)) (list_fuel ed) ed = (Inr (), e)" using e(1,3) inp by simp
  with that e show ?thesis by blast
qed

lemma global_loop_delete:
  "visiting ed0 ns0 ns todo ed \<Longrightarrow> length todo < n \<Longrightarrow>
   (if first then input ed else case gcb (statics ed) of None \<Rightarrow> [] | Some s \<Rightarrow> s) = ''d'' @ [LINE_FEED] \<Longrightarrow>
     \<exists>e. global_loop os (exec_command os (Suc k)) False n first ed = (Inr (Some ()), e) \<and>
       visiting ed0 ns0 (filter (\<lambda>q. q \<notin> set todo) ns) [] e"
proof (induction todo arbitrary: ns ed n first)
  case Nil
  then obtain m where "n = Suc m" by (cases n) auto
  then show ?case using Nil next_global_line_end [OF Nil.prems(1)] by simp
next
  case (Cons p todo)
  then obtain m where n: "n = Suc m" "length todo < m" by (cases n) auto
  note nx = next_global_line_visit [OF Cons.prems(1)]
  define e0 where "e0 = set_gb (gb_of ed\<lparr>gb_ptr := gb_ptr (gb_of ed) + 1\<rparr>) ed"
  have p: "p \<in> set ns" "p \<notin> set todo" using Cons.prems(1) by (auto simp: visiting_def)
  then obtain i where i: "i < length ns" "ns ! i = p" by (auto simp: in_set_conv_nth)
  let ?d = "int i + 1"
  have b: "buf_inv e0 ns" using nx(2) by (simp add: e0_def visiting_def)
  have dl: "1 \<le> ?d" "?d \<le> lines (state e0)" using i b by (simp_all add: buf_inv_def)
  have nat: "nat ?d = Suc i" by simp
  have at: "node_at ns ?d = p" using i by (simp add: nat)
  have ad: "get_line_node_address (Some p) e0 = (Inr ?d, e0)" using get_line_node_address_found [OF b _ dl(2)] at by simp
  define e1 where "e1 = (let e = set_dot ?d e0 in input_gcb (if first then upd_gcb (cstr (input e)) e else e))"
  have cs: "cstr (''d'' @ [LINE_FEED]) = ''d'' @ [LINE_FEED]" by (simp add: cstr_def)
  have g1: "gcb (statics e1) = Some (''d'' @ [LINE_FEED])" "input e1 = ''d'' @ [LINE_FEED]"
    using Cons.prems(3) cs by (auto simp: e1_def e0_def Let_def split: option.splits if_splits)
  have v1: "visiting ed0 ns0 ns todo e1"
  proof (rule visiting_core [OF nx(2) [folded e0_def]])
    show "global (exec e1) \<noteq> {}" using visiting_global [OF nx(2)] by (simp add: e1_def e0_def Let_def)
  qed (simp_all add: e1_def Let_def)
  have d1: "dot (state e1) = ?d" "lines (state e1) = lines (state e0)" by (simp_all add: e1_def Let_def)
  obtain e2 where e2: "global_list os (exec_command os (Suc k)) (list_fuel e1) e1 = (Inr (), e2)"
    "visiting ed0 ns0 (filter (\<lambda>q. q \<noteq> p) ns) todo e2" "gcb (statics e2) = gcb (statics e1)"
    by (rule global_list_delete [OF v1 _ _ g1(2), of p]) (use dl at d1 p in auto)
  have v3: "visiting ed0 ns0 (filter (\<lambda>q. q \<noteq> p) ns) todo (next_pass e2)"
  proof (rule visiting_core [OF e2(2)])
    show "global (exec (next_pass e2)) \<noteq> {}" using visiting_global [OF e2(2)] by (simp add: next_pass_def)
  qed (simp_all add: next_pass_def)
  have g3: "gcb (statics (next_pass e2)) = Some (''d'' @ [LINE_FEED])" using e2(3) g1 by (simp add: next_pass_def)
  obtain e where e: "global_loop os (exec_command os (Suc k)) False m False (next_pass e2) = (Inr (Some ()), e)"
    "visiting ed0 ns0 (filter (\<lambda>q. q \<notin> set todo) (filter (\<lambda>q. q \<noteq> p) ns)) [] e"
    using Cons.IH [OF v3 n(2), of False] g3 by auto
  have "global_loop os (exec_command os (Suc k)) False n first ed = global_loop os (exec_command os (Suc k)) False m False (next_pass e2)"
    unfolding n(1) global_loop.simps nx(1) prod.case option.case e0_def [symmetric] ad andThen_Inr
    using e2(1) by (cases first) (simp_all add: e1_def Let_def)
  moreover have "filter (\<lambda>q. q \<notin> set todo) (filter (\<lambda>q. q \<noteq> p) ns) = filter (\<lambda>q. q \<notin> set (p # todo)) ns"
    by (simp add: conj_commute)
  ultimately show ?case using e by auto
qed

section \<open>The whole command\<close>

text \<open>What compiling a pattern leaves alone\<close>

definition same_buffer :: "ed_buffer \<Rightarrow> ed_buffer \<Rightarrow> bool" where
  "same_buffer ed e \<longleftrightarrow>
     core e = core ed \<and> streams e = streams ed \<and> state e = state ed \<and> state1 e = state1 ed \<and> display e = display ed \<and>
     sys_ok e = sys_ok ed \<and> mutex e = mutex ed \<and> gl_lp (statics e) = gl_lp (statics ed) \<and> gl_n_prev (statics e) = gl_n_prev (statics ed) \<and>
     global (exec e) = global (exec ed) \<and> region (exec e) = region (exec ed)"

lemma same_buffer_upd:
  "same_buffer ed (set_input s e) = same_buffer ed e" "same_buffer ed (set_err msg e) = same_buffer ed e"
  "same_buffer ed (statics_update (re_freed_update h) e) = same_buffer ed e" "same_buffer ed (set_re_search r e) = same_buffer ed e"
  "same_buffer ed (set_re_subst r e) = same_buffer ed e" "same_buffer ed (sys_n_update f e) = same_buffer ed e"
  by (simp_all add: same_buffer_def)

lemma compiled_same_buffer:
  assumes "get_compiled_regex lib dc ty ed = (Inr re, e)"
  shows "same_buffer ed e"
proof -
  have prev: "same_buffer ed (snd (previous_pattern c ty e'))" if "same_buffer ed e'" for e' c
    using that by (auto simp: previous_pattern_def Let_def throw_def same_buffer_upd split: search_type.splits option.splits)
  have reg: "same_buffer ed (snd (regular_expression dc e'))" if "same_buffer ed e'" for e'
    using that by (auto simp: regular_expression_def Let_def throw_def same_buffer_upd split: sum.splits)
  have keep: "same_buffer ed (keep_regex ty re e')" if "same_buffer ed e'" for e' re
    using that by (simp add: keep_regex_def free_regex_def same_buffer_upd split: search_type.split option.split)
  have "same_buffer ed ed" by (simp add: same_buffer_def)
  then have "same_buffer ed (snd (get_compiled_regex lib dc ty ed))"
    by (auto simp: get_compiled_regex_def Let_def sys_call_def throw_def same_buffer_upd
        intro!: prev reg keep andThen_keeps [where I = "same_buffer ed"] split: sum.splits bool.splits)
  then show ?thesis using assms by simp
qed

lemma same_buffer_invs:
  assumes "same_buffer ed e"
  shows "buf_inv e ns = buf_inv ed ns" "undo_inv e ns0 ns = undo_inv ed ns0 ns" "disk_inv e = disk_inv ed" "sys_all_ok e = sys_all_ok ed"
    "node_text e = node_text ed" "nothing_deleted e = nothing_deleted ed"
proof -
  note a = assms [unfolded same_buffer_def]
  show "node_text e = node_text ed" by (rule ext) (use a in \<open>simp add: node_text_def\<close>)
  have "node_stored e = node_stored ed" by (rule ext) (use a in \<open>simp add: node_stored_def\<close>)
  then show "disk_inv e = disk_inv ed" using a by (simp add: disk_inv_def)
  show "buf_inv e ns = buf_inv ed ns" using a by (simp add: buf_inv_def cache_inv_def cong: option.case_cong)
  show "undo_inv e ns0 ns = undo_inv ed ns0 ns" "sys_all_ok e = sys_all_ok ed" "nothing_deleted e = nothing_deleted ed"
    using a by (simp_all add: undo_inv_def sys_all_ok_def nothing_deleted_def)
qed

lemma mutex_invs:
  "buf_inv (spl1 e) ns = buf_inv e ns" "buf_inv (spl0 e) ns = buf_inv e ns" "undo_inv (spl1 e) ns0 ns = undo_inv e ns0 ns"
  "undo_inv (spl0 e) ns0 ns = undo_inv e ns0 ns" "disk_inv (spl1 e) = disk_inv e" "disk_inv (spl0 e) = disk_inv e"
  "sys_all_ok (spl1 e) = sys_all_ok e" "sys_all_ok (spl0 e) = sys_all_ok e" "nothing_deleted (spl1 e) = nothing_deleted e"
  "nothing_deleted (spl0 e) = nothing_deleted e" "node_text (spl1 e) = node_text e" "node_text (spl0 e) = node_text e"
  by (simp_all add: undo_inv_def disk_inv_def node_stored_def nothing_deleted_def node_text_def fun_eq_iff)

lemma cache_invs:
  "undo_inv (cache_node p n e) ns0 ns = undo_inv e ns0 ns" "disk_inv (cache_node p n e) = disk_inv e"
  "sys_all_ok (cache_node p n e) = sys_all_ok e" "nothing_deleted (cache_node p n e) = nothing_deleted e"
  "node_text (cache_node p n e) = node_text e"
  by (simp_all add: undo_inv_def disk_inv_def node_stored_def nothing_deleted_def sys_all_ok_def node_text_def fun_eq_iff)

lemma nothing_deleted_gb: "nothing_deleted (set_gb gb e) = nothing_deleted e"
  by (simp add: nothing_deleted_def)

text \<open>The list of lines\<close>

definition listed :: "ed_buffer \<Rightarrow> node list \<Rightarrow> node list \<Rightarrow> node list \<Rightarrow> ed_buffer \<Rightarrow> bool" where
  "listed ed ns0 ns todo e \<longleftrightarrow>
     buf_inv e ns \<and> undo_inv e ns0 ns \<and> disk_inv e \<and> sys_all_ok e \<and> nothing_deleted e \<and> node_text e = node_text ed \<and>
     state e = state ed \<and> sp (core e) = sp (core ed) \<and>
     global_buffer (core e) = \<lparr>gb_lbuf = map Some todo, gb_last = length todo, gb_ptr = 0, gb_index = 0\<rparr>"

lemma set_global_lines_ok:
  assumes inv: "buf_inv ed ns" "undo_inv ed ns0 ns" "disk_inv ed" "sys_all_ok ed" "nothing_deleted ed"
    and r: "reg_start ed = from" "reg_end ed = to" "1 \<le> from" "from \<le> to" "to \<le> lines (state ed)"
    and re: "get_compiled_regex lib (cur (input ed)) RE_SEARCH (spl1 ed) = (Inr re, ec)"
  obtains e where "set_global_lines lib want ed = (Inr (), e)"
    "listed ed ns0 ns (filter (\<lambda>p. wanted lib re want (node_text ed p)) (take (nat (to - from + 1)) (drop (nat (from - 1)) ns))) e"
    "input e = (if closes_pattern (cur (input ed)) (input ec) then drop 1 (input ec) else input ec)" "global (exec e) = global (exec ed)"
proof -
  let ?A = "take (nat (from - 1)) ns" and ?xs = "take (nat (to - from + 1)) (drop (nat (from - 1)) ns)" and ?B = "drop (nat to) ns"
  have len: "lines (state ed) = int (length ns)" using inv(1) by (simp add: buf_inv_def)
  have dr: "drop (nat (to - from + 1)) (drop (nat (from - 1)) ns) = ?B"
  proof -
    have "nat (from - 1) + nat (to - from + 1) = nat to" using r by simp
    then show ?thesis by (simp add: add.commute)
  qed
  have ns: "?A @ ?xs @ ?B = ns" by (metis append_take_drop_id dr)
  have lx: "length ?xs = nat (to - from + 1)" using r len by (simp add: min_def) linarith
  define e1 where "e1 = (if closes_pattern (cur (input ed)) (input ec) then set_input (drop 1 (input ec)) ec else ec)"
  have s1: "same_buffer (spl1 ed) e1" using compiled_same_buffer [OF re] by (simp add: e1_def same_buffer_upd)
  note a1 = s1 [unfolded same_buffer_def]
  have i1: "buf_inv e1 ns" "undo_inv e1 ns0 ns" "disk_inv e1" "sys_all_ok e1" "nothing_deleted e1" "node_text e1 = node_text ed"
    using inv by (simp_all only: same_buffer_invs [OF s1] mutex_invs)
  define e2 where "e2 = spl0 (reset_global_buffer e1)"
  have i2: "buf_inv e2 ns" "undo_inv e2 ns0 ns" "disk_inv e2" "sys_all_ok e2" "nothing_deleted e2" "node_text e2 = node_text ed"
    using i1 by (simp_all add: e2_def reset_global_buffer_def mutex_invs nothing_deleted_gb)
  have f2: "state e2 = state ed" "sp (core e2) = sp (core ed)" "global (exec e2) = global (exec ed)" "display e2 = display ed" "input e2 = input e1"
    "gb_of e2 = \<lparr>gb_lbuf = [], gb_last = 0, gb_ptr = 0, gb_index = 0\<rparr>"
    using a1 by (simp_all add: e2_def reset_global_buffer_def spl1_def spl0_def)
  have fr: "0 \<le> from" "from \<le> lines (state e2)" using r f2(1) by simp_all
  note gl = get_line_node_eq [OF i2(1) fr]
  define e3 where "e3 = cache_node (node_at ns from) from e2"
  have i3: "buf_inv e3 ns" "undo_inv e3 ns0 ns" "disk_inv e3" "sys_all_ok e3" "nothing_deleted e3" "node_text e3 = node_text ed"
    using i2 buf_inv_cache_node [OF i2(1) fr] by (simp_all add: e3_def cache_invs)
  have at: "node_at ns from = hd (?xs @ ?B @ [line_head])"
  proof -
    have ne: "?xs \<noteq> []" using lx r(4) by (intro notI) (simp add: length_0_conv [symmetric] del: length_0_conv)
    then have "hd (?xs @ ?B @ [line_head]) = hd ?xs" by (rule hd_append2)
    also have "\<dots> = ns ! nat (from - 1)" using r len by (simp add: hd_take hd_drop_conv_nth)
    finally show ?thesis using r by (simp add: nat_diff_distrib)
  qed
  obtain e4 where e4: "mark_matching lib re want (length ?xs) (hd (?xs @ ?B @ [line_head])) e3 = (Inr (), e4)"
    "marked e3 ns (filter (\<lambda>p. wanted lib re want (node_text e3 p)) ?xs) e4"
    using mark_matching_ok [of e3 ?A ?xs ?B lib re want] i3 unfolding ns by auto
  note m = e4(2) [unfolded marked_def]
  show ?thesis
  proof (rule that [of e4])
    have "nat (if from \<noteq> 0 then to - from + 1 else 0) = length ?xs" using lx r by simp
    then show "set_global_lines lib want ed = (Inr (), e4)"
      using re gl e4(1) by (simp add: set_global_lines_def Let_def r e1_def [symmetric] e2_def [symmetric] e3_def at)
    show "listed ed ns0 ns (filter (\<lambda>p. wanted lib re want (node_text ed p)) ?xs) e4"
      using m i3 f2(1-4,6) marked_text [OF e4(2)] by (simp add: listed_def e3_def undo_inv_def nothing_deleted_def)
    show "input e4 = (if closes_pattern (cur (input ed)) (input ec) then drop 1 (input ec) else input ec)"
      using m f2(5) by (simp add: e3_def e1_def)
    show "global (exec e4) = global (exec ed)" using m f2(3) by (simp add: e3_def)
  qed
qed

lemma exec_global_delete:
  assumes l: "listed ed0 ns0 ns todo ed" and g: "global (exec ed) = {GLBL}" "sp (core ed) = 0" "input ed = ''d'' @ [LINE_FEED]"
    and todo: "set todo \<subseteq> set ns" "distinct todo" and d: "0 \<le> dot (state ed)"
  obtains e where "exec_global os (exec_command os (Suc k)) ed = (Inr (dio_f (display ed)), e)"
    "visiting ed0 ns (filter (\<lambda>q. q \<notin> set todo) ns) [] e"
proof -
  note a = l [unfolded listed_def]
  define e1 where "e1 = state1_update (\<lambda>_. state ed) (set_undo_queue [] ed)"
  have r: "reset_undo_queue ed = (Inr (), e1)"
    using a reset_undo_loop_plain [of "undo_queue (core ed)" "spl1 ed"]
    by (simp add: reset_undo_queue_def nothing_deleted_def e1_def spl0_def spl1_def)
  have u1: "undo_inv e1 ns ns" unfolding e1_def by (rule undo_inv_start) (use a d in auto)
  have nt: "node_text e1 = node_text ed" by (rule ext) (simp add: e1_def node_text_def)
  define e2 where "e2 = exec_update (first_pass_update (\<lambda>_. True)) (set_input (''d'' @ [LINE_FEED]) e1)"
  have x: "get_extended_line False True False e1 = (Inr (''d'' @ [LINE_FEED]), e1)"
    using g(3) by (simp add: get_extended_line_def e1_def)
  have o: "once_in p (map Some todo)" for p
    using todo(2) by (auto simp: once_in_def nth_eq_iff_index_eq)
  have v: "visiting ed0 ns ns todo e2"
  proof -
    have "lines (state ed) = int (length ns)" using a unfolding buf_inv_def by blast
    then have "visiting ed0 ns ns todo e1"
      using a u1 nt todo o g(1) by (simp add: visiting_def gb_ok_def gb_inv_def e1_def buf_inv_def disk_inv_def node_stored_def sys_all_ok_def)
    then show ?thesis by (rule visiting_core) (simp_all add: e2_def e1_def g(1))
  qed
  obtain e where e: "global_loop os (exec_command os (Suc k)) False (length todo + 1) True e2 = (Inr (Some ()), e)"
    "visiting ed0 ns (filter (\<lambda>q. q \<notin> set todo) ns) [] e"
    using global_loop_delete [OF v, of "length todo + 1" True os k] by (auto simp: e2_def)
  have "exec_global os (exec_command os (Suc k)) ed = (Inr (dio_f (display ed)), e)"
    using g r x e(1) a by (simp add: exec_global_def Let_def e2_def e1_def del: global_loop.simps exec_command.simps)
  with that e(2) show ?thesis by blast
qed

lemma filter_segment:
  assumes "distinct (A @ xs @ B)"
  shows "filter (\<lambda>q. q \<notin> set (filter P xs)) (A @ xs @ B) = A @ filter (\<lambda>q. \<not> P q) xs @ B"
proof -
  have "filter (\<lambda>q. q \<notin> set (filter P xs)) A = A" "filter (\<lambda>q. q \<notin> set (filter P xs)) B = B"
    using assms by (auto intro!: filter_True)
  moreover have "filter (\<lambda>q. q \<notin> set (filter P xs)) xs = filter (\<lambda>q. \<not> P q) xs" by (rule filter_cong) auto
  ultimately show ?thesis by simp
qed

text \<open>The lines that a global deletion of \<open>from\<close> to \<open>to\<close> keeps\<close>

definition kept_lines :: "'x regex_lib_scheme \<Rightarrow> regex \<Rightarrow> bool \<Rightarrow> int \<Rightarrow> int \<Rightarrow> string list \<Rightarrow> string list" where
  "kept_lines lib re want from to ts =
     take (nat (from - 1)) ts
     @ filter (\<lambda>t. \<not> wanted lib re want t) (take (nat (to - from + 1)) (drop (nat (from - 1)) ts))
     @ drop (nat to) ts"

lemma key_global: "c \<in> {CHR ''g'', CHR ''v''} \<Longrightarrow> dispatch os run c = global_cmd os run c"
  by (rule ext) (auto simp: dispatch_def ed_cmd_def byte_def ED_KEY_FIRST_def ED_KEY_MASK_def)

lemma global_delete_ok:
  assumes inv: "buf_inv ed ns" "undo_inv ed ns0 ns" "disk_inv ed" "sys_all_ok ed" "nothing_deleted ed" "0 \<le> dot (state ed)"
    and free: "global (exec ed) = {}" "sp (core ed) = 0" "REGISTER_READ \<notin> io_flags ed"
    and range: "is_valid_range 1 (lines (state ed)) ed = (Inr (), er)"
    and re: "get_compiled_regex os (cur (input er)) RE_SEARCH (spl1 er) = (Inr re, ec)"
    and cmds: "(if closes_pattern (cur (input er)) (input ec) then drop 1 (input ec) else input ec) = ''d'' @ [LINE_FEED]"
    and c: "c \<in> {CHR ''g'', CHR ''v''}"
  obtains e ns' where "global_cmd os (exec_command os (Suc k)) c ed = (Inr {}, e)" "buf_inv e ns'" "undo_inv e ns ns'" "disk_inv e"
    "buffer_text e ns' = kept_lines os re (c = CHR ''g'') (reg_start er) (reg_end er) (buffer_text ed ns)" "buffer_text e ns = buffer_text ed ns"
    "sys_all_ok e" "global (exec e) = {}"
proof -
  define i j where "i = reg_start er" and "j = reg_end er"
  let ?A = "take (nat (i - 1)) ns" and ?xs = "take (nat (j - i + 1)) (drop (nat (i - 1)) ns)" and ?B = "drop (nat j) ns"
  let ?want = "c = CHR ''g''"
  have er: "er = (if has_addrs ed then ed else set_region 1 (lines (state ed)) ed)"
    "1 \<le> i" "i \<le> j" "j \<le> lines (state er)"
    using range free(3) by (auto simp: is_valid_range_def Let_def throw_def i_def j_def split: if_splits)
  have ir: "buf_inv er ns" "undo_inv er ns0 ns" "disk_inv er" "sys_all_ok er" "nothing_deleted er" "node_text er = node_text ed"
    "state er = state ed" "sp (core er) = 0" "global (exec er) = {}"
    using inv free by (simp_all add: er(1) undo_inv_def disk_inv_def node_stored_def nothing_deleted_def sys_all_ok_def node_text_def fun_eq_iff)
  have rr: "reg_start er = i" "reg_end er = j" by (simp_all add: i_def j_def)
  define todo where "todo = filter (\<lambda>p. wanted os re ?want (node_text er p)) ?xs"
  obtain e1 where e1: "set_global_lines os ?want er = (Inr (), e1)" "listed er ns0 ns todo e1"
    "input e1 = (if closes_pattern (cur (input er)) (input ec) then drop 1 (input ec) else input ec)" "global (exec e1) = global (exec er)"
    unfolding todo_def by (rule set_global_lines_ok [OF ir(1-5) rr er(2-4) re, of ?want])
  note a = e1(2) [unfolded listed_def]
  define e2 where "e2 = set_global {GLBL} e1"
  have nt2: "node_text e2 = node_text e1" by (rule ext) (simp add: e2_def node_text_def)
  have l2: "listed er ns0 ns todo e2" "0 \<le> dot (state e2)" "sp (core e2) = 0" "input e2 = ''d'' @ [LINE_FEED]" "global (exec e2) = {GLBL}"
    using a ir cmds e1(3) inv(6) nt2 by (simp_all add: e2_def listed_def buf_inv_def undo_inv_def disk_inv_def node_stored_def nothing_deleted_def sys_all_ok_def)
  have len: "lines (state ed) = int (length ns)" and dis: "distinct ns" using inv(1) by (simp_all add: buf_inv_def ring_def)
  have "nat (i - 1) + nat (j - i + 1) = nat j" using er(2,3) by simp
  then have "drop (nat (j - i + 1)) (drop (nat (i - 1)) ns) = ?B" by (simp add: add.commute)
  then have ns: "?A @ ?xs @ ?B = ns" by (metis append_take_drop_id)
  have sub: "set todo \<subseteq> set ns" "distinct todo"
    using dis by (auto simp: todo_def dest: in_set_takeD in_set_dropD)
  obtain e where e: "exec_global os (exec_command os (Suc k)) e2 = (Inr (dio_f (display e2)), e)"
    "visiting er ns (filter (\<lambda>q. q \<notin> set todo) ns) [] e"
    by (rule exec_global_delete [OF l2(1,5,3,4) sub l2(2)])
  let ?ns' = "?A @ filter (\<lambda>q. \<not> wanted os re ?want (node_text ed q)) ?xs @ ?B"
  have ns': "filter (\<lambda>q. q \<notin> set todo) ns = ?ns'"
    using filter_segment [of ?A ?xs ?B "\<lambda>p. wanted os re ?want (node_text er p)"] dis ir(6) unfolding ns todo_def by simp
  define e' where "e' = set_global {} e"
  note v = e(2) [unfolded visiting_def ns']
  have nt: "node_text e' = node_text ed"
  proof -
    have "node_text e' = node_text e" by (rule ext) (simp add: e'_def node_text_def)
    with v ir(6) show ?thesis by simp
  qed
  show ?thesis
  proof (rule that [of e' ?ns'])
    have "c \<noteq> CHR ''G''" "c \<noteq> CHR ''V''" using c by auto
    then show "global_cmd os (exec_command os (Suc k)) c ed = (Inr {}, e')"
      using free(1) range e1(1,4) e(1) ir(9) by (simp add: global_cmd_def e2_def e'_def del: exec_command.simps)
    show "buf_inv e' ?ns'" "undo_inv e' ns ?ns'" "disk_inv e'" "sys_all_ok e'" "global (exec e') = {}"
      using v by (simp_all add: e'_def buf_inv_def undo_inv_def disk_inv_def node_stored_def sys_all_ok_def)
    show "buffer_text e' ns = buffer_text ed ns" by (simp add: buffer_text_def nt)
    show "buffer_text e' ?ns' = kept_lines os re ?want (reg_start er) (reg_end er) (buffer_text ed ns)"
      by (simp add: buffer_text_def nt kept_lines_def rr take_map drop_map filter_map comp_def)
  qed
qed

end
