(* ===== verification/Cipher.thy ===== *)
theory Cipher
  imports Exec_Cmds
begin

unbundle bit_operations_syntax

text \<open>
  Encrypted files (\<open>cbc.c\<close>; the loops of \<open>io.c\<close> while \<open>have_key\<close> is set; \<open>exec.c\<close>: \<open>x_cmd\<close>), the code under
  \<open>WANT_ED_ENCRYPTION\<close>.  The block cipher DES is a parameter: its functions of OpenSSL work on blocks of
  eight bytes, with a key schedule of a type \<open>'k\<close>.  The record \<open>cipher\<close> holds the static variables of the
  file.  A failed write shows as a short count, which \<open>cbc_encode\<close> returns and its callers take for success.
\<close>

type_synonym block = "char list"

record 'k des_lib =
  des_set_odd_parity :: "block \<Rightarrow> block"
  des_set_key :: "block \<Rightarrow> 'k"
  des_encrypt :: "'k \<Rightarrow> block \<Rightarrow> block"
  des_decrypt :: "'k \<Rightarrow> block \<Rightarrow> block"

record 'k cipher =
  ivec :: block
  pvec :: block
  pflag :: bool
  schedule :: 'k
  des_buf :: block
  des_ct :: int
  des_n :: nat

definition xor_byte :: "char \<Rightarrow> char \<Rightarrow> char" where
  "xor_byte a b = char_of (byte a XOR byte b)"

definition xor_block :: "block \<Rightarrow> block \<Rightarrow> block" where
  "xor_block a b = map2 xor_byte a b"

text \<open>\<open>arc4random_buf\<close> gives the padding.\<close>

definition init_des_cipher :: "block \<Rightarrow> 'k cipher \<Rightarrow> 'k cipher" where
  "init_des_cipher rnd c = c\<lparr>des_ct := 0, des_n := 0, ivec := replicate 8 NUL, pvec := rnd\<rparr>"

section \<open>Blocks\<close>

text \<open>\<open>WRITE\<close> and \<open>READ\<close> with the count of bytes, and \<open>ungetc\<close> of the byte just read\<close>

definition fwrite_bytes :: "stream_id \<Rightarrow> string \<Rightarrow> ed_buffer \<Rightarrow> nat \<times> ed_buffer" where
  "fwrite_bytes fp s ed =
     (case sys_call ed of
        (False, ed) \<Rightarrow> (0, ed)
      | (True, ed) \<Rightarrow> (length s, upd_stream fp (stream_write s) ed))"

definition fread_bytes :: "nat \<Rightarrow> stream_id \<Rightarrow> ed_buffer \<Rightarrow> string \<times> ed_buffer" where
  "fread_bytes n fp ed =
     (case sys_call ed of
        (False, ed) \<Rightarrow> ([], ed)
      | (True, ed) \<Rightarrow>
          if f_eof (streams ed fp) then ([], ed)
          else (fst (stream_read n (streams ed fp)), upd_stream fp (\<lambda>f. snd (stream_read n f)) ed))"

definition ungetc :: "stream_id \<Rightarrow> ed_buffer \<Rightarrow> ed_buffer" where
  "ungetc fp = upd_stream fp (\<lambda>f. f\<lparr>f_pos := f_pos f - 1, f_eof := False\<rparr>)"

text \<open>The last block is padded; its last byte is the count of bytes of the text in it.\<close>

definition padded :: "nat \<Rightarrow> block \<Rightarrow> block \<Rightarrow> block" where
  "padded n b pad = (take n b @ take (8 - n) pad)[7 := char_of n]"

definition cbc_encode :: "'k des_lib \<Rightarrow> nat \<Rightarrow> stream_id \<Rightarrow> 'k cipher \<Rightarrow> ed_buffer \<Rightarrow> int \<times> 'k cipher \<times> ed_buffer" where
  "cbc_encode lib n fp c ed =
     (if n = 0 \<and> des_ct c = 0 then (0, c, ed)
      else if n = 8 then
        let m = des_encrypt lib (schedule c) (xor_block (des_buf c) (ivec c));
            (k, ed) = fwrite_bytes fp m ed
        in (int k, c\<lparr>des_buf := m, ivec := m\<rparr>, ed)
      else
        let m = des_encrypt lib (schedule c) (xor_block (padded n (des_buf c) (pvec c)) (ivec c));
            (k, ed) = fwrite_bytes fp m ed
        in (int k, c\<lparr>des_buf := m\<rparr>, ed))"

text \<open>\<open>EOF\<close> is \<open>- 1\<close>.  The byte after the block is looked at to tell the last one.\<close>

definition cbc_decode :: "'k des_lib \<Rightarrow> stream_id \<Rightarrow> 'k cipher \<Rightarrow> ed_buffer \<Rightarrow> int \<times> 'k cipher \<times> ed_buffer" where
  "cbc_decode lib fp c ed =
     (case fread_bytes 8 fp ed of
        (m, ed) \<Rightarrow>
          if length m = 8 then
            let d = xor_block (des_decrypt lib (schedule c) m) (ivec c);
                c = c\<lparr>des_buf := d, ivec := m\<rparr>
            in case getc fp ed of
                 (GotChar _, ed) \<Rightarrow> (8, c, ungetc fp ed)
               | (_, ed) \<Rightarrow>
                   if 7 < byte (d ! 7) then (- 1, c, set_err ''Decryption failed (block corrupted)'' ed)
                   else (int (byte (d ! 7)), c, ed)
          else (- 1, c\<lparr>des_buf := m @ drop (length m) (des_buf c)\<rparr>,
                if m \<noteq> [] then set_err ''Decryption failed (incomplete block)'' ed else ed))"

section \<open>Bytes\<close>

definition get_des_char :: "'k des_lib \<Rightarrow> stream_id \<Rightarrow> 'k cipher \<Rightarrow> ed_buffer \<Rightarrow> char option \<times> 'k cipher \<times> ed_buffer" where
  "get_des_char lib fp c ed =
     (let (c, ed) = (if des_ct c \<le> int (des_n c)
                     then (case cbc_decode lib fp (c\<lparr>des_n := 0\<rparr>) ed of (k, c, ed) \<Rightarrow> (c\<lparr>des_ct := k\<rparr>, ed))
                     else (c, ed))
      in if 0 < des_ct c then (Some (des_buf c ! des_n c), c\<lparr>des_n := des_n c + 1\<rparr>, ed) else (None, c, ed))"

text \<open>The block that is full is encrypted first.\<close>

definition encode_full :: "'k des_lib \<Rightarrow> stream_id \<Rightarrow> 'k cipher \<Rightarrow> ed_buffer \<Rightarrow> 'k cipher \<times> ed_buffer" where
  "encode_full lib fp c ed =
     (if des_n c = 8 then (case cbc_encode lib 8 fp c ed of (k, c, ed) \<Rightarrow> (c\<lparr>des_ct := k, des_n := 0\<rparr>, ed)) else (c, ed))"

definition put_des_char :: "'k des_lib \<Rightarrow> char \<Rightarrow> stream_id \<Rightarrow> 'k cipher \<Rightarrow> ed_buffer \<Rightarrow> char option \<times> 'k cipher \<times> ed_buffer" where
  "put_des_char lib ch fp c ed =
     (case encode_full lib fp c ed of
        (c, ed) \<Rightarrow>
          if 0 \<le> des_ct c then (Some ch, c\<lparr>des_buf := (des_buf c)[des_n c := ch], des_n := des_n c + 1\<rparr>, ed)
          else (None, c, ed))"

definition flush_des_file :: "'k des_lib \<Rightarrow> stream_id \<Rightarrow> 'k cipher \<Rightarrow> ed_buffer \<Rightarrow> bool \<times> 'k cipher \<times> ed_buffer" where
  "flush_des_file lib fp c ed =
     (case encode_full lib fp c ed of
        (c, ed) \<Rightarrow>
          if 0 \<le> des_ct c then (case cbc_encode lib (des_n c) fp c ed of (k, c, ed) \<Rightarrow> (0 \<le> k, c, ed))
          else (False, c, ed))"

section \<open>Lines\<close>

text \<open>The loop of \<open>get_stream_line\<close> on an encrypted file.  Fuel: a block, and the bytes left in the file.\<close>

primrec get_crypt_chars :: "'k des_lib \<Rightarrow> nat \<Rightarrow> stream_id \<Rightarrow> string \<Rightarrow> 'k cipher \<Rightarrow> ed_buffer \<Rightarrow>
    (ed_command_error + string \<times> bool) \<times> 'k cipher \<times> ed_buffer" where
  "get_crypt_chars lib 0 fp tb c ed = (Inl FATAL, c, ed)"
| "get_crypt_chars lib (Suc k) fp tb c ed =
     (case get_des_char lib fp c ed of
        (None, c, ed) \<Rightarrow> (Inr (tb, False), c, ed)
      | (Some ch, c, ed) \<Rightarrow>
          if ch = LINE_FEED then (Inr (tb, True), c, ed)
          else
            let ed = set_input_is_binary (input_is_binary (state ed) \<or> ch = NUL) ed
            in if SIZE_MAX - 2 \<le> int (length tb + 1) then (Inl ERR, c, set_err ''Line too long'' ed)
               else get_crypt_chars lib k fp (tb @ [ch]) c ed)"

definition get_crypt_line :: "'k des_lib \<Rightarrow> stream_id \<Rightarrow> 'k cipher \<Rightarrow> ed_buffer \<Rightarrow>
    (ed_command_error + string) \<times> 'k cipher \<times> ed_buffer" where
  "get_crypt_line lib fp c ed =
     (case get_crypt_chars lib (line_fuel fp ed + 9) fp [] c ed of
        (Inl e, c, ed) \<Rightarrow> (Inl e, c, ed)
      | (Inr (tb, newline), c, ed) \<Rightarrow>
          if feof fp ed \<and> tb = [] then (Inl ERR, c, set_err ''End-of-file unexpected'' ed)
          else if \<not> feof fp ed \<and> \<not> newline then (Inl ERR, c, set_err ''File read error'' ed)
          else (Inr (tb @ [LINE_FEED]), c, set_newline_missing (\<not> newline) ed))"

text \<open>The loop of \<open>put_stream_line\<close>; \<open>bad\<close> is \<open>ferror (fp)\<close>.\<close>

primrec put_crypt_chars :: "'k des_lib \<Rightarrow> stream_id \<Rightarrow> string \<Rightarrow> bool \<Rightarrow> 'k cipher \<Rightarrow> ed_buffer \<Rightarrow> bool \<times> 'k cipher \<times> ed_buffer" where
  "put_crypt_chars lib fp [] bad c ed = (bad, c, ed)"
| "put_crypt_chars lib fp (ch # s) bad c ed =
     (case put_des_char lib ch fp c ed of
        (r, c', ed) \<Rightarrow>
          let bad = (bad \<or> des_n c = 8 \<and> des_ct c' = 0)
          in case r of None \<Rightarrow> (bad, c', ed) | Some _ \<Rightarrow> put_crypt_chars lib fp s bad c' ed)"

definition put_crypt_line :: "'k des_lib \<Rightarrow> stream_id \<Rightarrow> string \<Rightarrow> 'k cipher \<Rightarrow> ed_buffer \<Rightarrow> (ed_command_error + unit) \<times> 'k cipher \<times> ed_buffer" where
  "put_crypt_line lib fp s c ed =
     (case put_crypt_chars lib fp s False c ed of
        (bad, c, ed) \<Rightarrow> if bad then (Inl ERR, c, set_err ''File write error'' ed) else (Inr (), c, ed))"

text \<open>The size of an encrypted file, as \<open>read_stream\<close> and \<open>write_stream\<close> report it\<close>

definition crypt_size :: "nat \<Rightarrow> nat" where
  "crypt_size sz = (if sz \<noteq> 0 then sz + (8 - sz mod 8) else sz)"

section \<open>Keys\<close>

text \<open>The switch of \<open>char_to_int\<close>\<close>

definition char_to_int :: "nat \<Rightarrow> char \<Rightarrow> nat option" where
  "char_to_int radix c =
     (let above = (\<lambda>d. if d < radix then Some d else None) in
      if c = CHR ''0'' then Some 0
      else if c = CHR ''1'' then Some 1
      else if isdigit c then above (byte c - 48)
      else if 65 \<le> byte c \<and> byte c \<le> 70 then above (byte c - 55)
      else if 97 \<le> byte c \<and> byte c \<le> 102 then above (byte c - 87)
      else None)"

definition key_digits :: "nat \<Rightarrow> nat \<Rightarrow> string \<Rightarrow> nat list option" where
  "key_digits radix n s =
     (case those (map (char_to_int radix) (take n (cstr s))) of
        None \<Rightarrow> None
      | Some ds \<Rightarrow> if length ds = n then Some ds else None)"

definition shift_in :: "nat \<Rightarrow> nat \<Rightarrow> nat" where
  "shift_in b acc = (push_bit 1 acc OR b) mod 256"

definition binary_key :: "nat list \<Rightarrow> block \<Rightarrow> block" where
  "binary_key ds obuf = map (\<lambda>i. char_of (fold shift_in (take 8 (drop (8 * i) ds)) (byte (obuf ! i)))) [0..<8]"

definition hex_key :: "nat list \<Rightarrow> block" where
  "hex_key ds = map (\<lambda>i. char_of (push_bit 4 (ds ! (2 * i) AND 0xf) OR (ds ! (2 * i + 1) AND 0xf))) [0..<8]"

text \<open>\<open>obuf\<close> is not initialized.  The flag says whether parity is preserved; \<open>pflag\<close> is only ever set.\<close>

definition expand_des_key :: "block \<Rightarrow> string \<Rightarrow> (block \<times> bool) option" where
  "expand_des_key obuf kbuf =
     (if cur kbuf = CHR ''0'' \<and> (peek 1 kbuf = CHR ''b'' \<or> peek 1 kbuf = CHR ''B'') then
        map_option (\<lambda>ds. (binary_key ds obuf, True)) (key_digits 2 64 (drop 2 kbuf))
      else if cur kbuf = CHR ''0'' \<and> (peek 1 kbuf = CHR ''x'' \<or> peek 1 kbuf = CHR ''X'') then
        map_option (\<lambda>ds. (hex_key ds, True)) (key_digits 16 16 (drop 2 kbuf))
      else Some (take 8 (cstr kbuf @ replicate 8 NUL), False))"

text \<open>The bits 6 to 0, the masks 0x40 to 0x01, are counted.\<close>

definition with_parity :: "char \<Rightarrow> char" where
  "with_parity ch =
     (if odd (length (filter (bit (byte ch)) [0..<7])) then char_of (byte ch AND 0x7f)
      else char_of ((byte ch AND 0x7f) OR 0x80))"

definition set_des_key :: "'k des_lib \<Rightarrow> block \<Rightarrow> 'k cipher \<Rightarrow> 'k cipher" where
  "set_des_key lib key c =
     (let key = (if \<not> pflag c then map with_parity key else key)
      in c\<lparr>schedule := des_set_key lib (des_set_odd_parity lib key)\<rparr>)"

text \<open>\<open>getpass\<close> gives the word typed, \<open>obuf\<close> is what the stack holds.\<close>

definition get_des_keyword ::
  "'k des_lib \<Rightarrow> string option \<Rightarrow> block \<Rightarrow> 'k cipher \<Rightarrow> ed_buffer \<Rightarrow> (ed_command_error + unit) \<times> 'k cipher \<times> ed_buffer" where
  "get_des_keyword lib typed_word obuf c ed =
     (case typed_word of
        None \<Rightarrow> (Inl ERR, c, set_err ''Invalid key'' ed)
      | Some p \<Rightarrow>
          if cur p = NUL then (Inr (), c, exec_update (have_key_update (\<lambda>_. False)) ed)
          else
            (case expand_des_key obuf p of
               None \<Rightarrow> (Inl ERR, c, set_err ''Invalid key'' ed)
             | Some (key, par) \<Rightarrow>
                 (Inr (), set_des_key lib key (c\<lparr>pflag := pflag c \<or> par\<rparr>), exec_update (have_key_update (\<lambda>_. True)) ed)))"

definition x_cmd ::
  "'k des_lib \<Rightarrow> string option \<Rightarrow> block \<Rightarrow> 'k cipher \<Rightarrow> ed_buffer \<Rightarrow>
   (ed_command_error + ed_modifier set) \<times> 'k cipher \<times> ed_buffer" where
  "x_cmd lib typed_word obuf c ed =
     (if has_addrs ed then (Inl ERR, c, set_err ''Address unexpected'' ed)
      else
        case display_suffix ed of
          (Inl e, ed) \<Rightarrow> (Inl e, c, ed)
        | (Inr _, ed) \<Rightarrow>
            (case get_des_keyword lib typed_word obuf c ed of
               (Inl e, c, ed) \<Rightarrow> (Inl e, c, ed)
             | (Inr _, c, ed) \<Rightarrow> (Inr (dio_f (display ed)), c, ed)))"

end
