(* ===== verification/Cipher_Props.thy ===== *)
theory Cipher_Props
  imports Cipher
begin

unbundle bit_operations_syntax

text \<open>
  What the encrypted files promise: the bytes written and flushed are the cipher block chaining of the text
  (\<open>encrypted\<close>), and whoever reads them with the same key gets the text back.  A line that is empty within
  the last block is the exception the line reader makes.
\<close>

section \<open>The text of an encrypted file\<close>

lemma byte_xor: "byte (xor_byte a b) = byte a XOR byte b"
proof -
  have t: "take_bit 8 (byte c) = byte c" for c by (simp add: byte_def take_bit_eq_mod)
  have "byte (xor_byte a b) = take_bit 8 (byte a XOR byte b)" by (simp add: xor_byte_def byte_def take_bit_eq_mod)
  also have "\<dots> = byte a XOR byte b" by (simp only: take_bit_xor t)
  finally show ?thesis .
qed

lemma xor_byte_inverse: "xor_byte (xor_byte a b) b = a"
proof -
  have "xor_byte (xor_byte a b) b = char_of (byte a)"
    unfolding xor_byte_def [of "xor_byte a b" b] byte_xor xor.assoc by simp
  then show ?thesis by (simp add: byte_def)
qed

lemma xor_block_inverse: "length a = length b \<Longrightarrow> xor_block (xor_block a b) b = a"
  by (induction a b rule: list_induct2) (simp_all add: xor_block_def xor_byte_inverse)

lemma length_xor_block [simp]: "length (xor_block a b) = min (length a) (length b)"
  by (simp add: xor_block_def)

text \<open>Cipher block chaining: each block is combined with the block before it, the last one is padded.\<close>

function cbc_text :: "'k des_lib \<Rightarrow> 'k \<Rightarrow> block \<Rightarrow> block \<Rightarrow> string \<Rightarrow> string" where
  "cbc_text lib k pad iv s =
     (if length s < 8 then des_encrypt lib k (xor_block (padded (length s) s pad) iv)
      else let b = des_encrypt lib k (xor_block (take 8 s) iv) in b @ cbc_text lib k pad b (drop 8 s))"
  by pat_completeness auto
termination by (relation "measure (\<lambda>(_, _, _, _, s). length s)") auto

declare cbc_text.simps [simp del]

definition encrypted :: "'k des_lib \<Rightarrow> 'k \<Rightarrow> block \<Rightarrow> string \<Rightarrow> string" where
  "encrypted lib k pad s = (if s = [] then [] else cbc_text lib k pad (replicate 8 NUL) s)"

text \<open>Decryption inverts encryption.\<close>

definition des_ok :: "'k des_lib \<Rightarrow> 'k \<Rightarrow> bool" where
  "des_ok lib k \<longleftrightarrow> (\<forall>b. length b = 8 \<longrightarrow> length (des_encrypt lib k b) = 8 \<and> des_decrypt lib k (des_encrypt lib k b) = b)"

lemma length_padded: "n \<le> length b \<Longrightarrow> n \<le> 8 \<Longrightarrow> length pad = 8 \<Longrightarrow> length (padded n b pad) = 8"
  by (simp add: padded_def)

lemma padded_text: "n < 8 \<Longrightarrow> n \<le> length b \<Longrightarrow> length pad = 8 \<Longrightarrow> take n (padded n b pad) = take n b \<and> byte (padded n b pad ! 7) = n"
  by (simp add: padded_def byte_def)

lemma decrypt_block:
  assumes "des_ok lib k" "length x = 8" "length iv = 8"
  shows "length (des_encrypt lib k (xor_block x iv)) = 8" "xor_block (des_decrypt lib k (des_encrypt lib k (xor_block x iv))) iv = x"
  using assms xor_block_inverse [of x iv] by (simp_all add: des_ok_def)

lemma length_cbc_text:
  "des_ok lib k \<Longrightarrow> length pad = 8 \<Longrightarrow> length iv = 8 \<Longrightarrow> length (cbc_text lib k pad iv s) = 8 * (length s div 8 + 1)"
proof (induction s arbitrary: iv rule: length_induct)
  case (1 s)
  show ?case
  proof (cases "length s < 8")
    case True
    then show ?thesis using 1(2-4) decrypt_block(1) [OF 1(2) length_padded [of "length s" s pad] 1(4)] by (simp add: cbc_text.simps [of _ _ _ _ s])
  next
    case False
    let ?b = "des_encrypt lib k (xor_block (take 8 s) iv)"
    have b: "length ?b = 8" using False by (intro decrypt_block(1) [OF 1(2) _ 1(4)]) simp
    have "length (drop 8 s) < length s" using False by simp
    then have "length (cbc_text lib k pad ?b (drop 8 s)) = 8 * (length (drop 8 s) div 8 + 1)" using 1 b by blast
    then show ?thesis using False b by (simp add: cbc_text.simps [of _ _ _ _ s] Let_def le_div_geq)
  qed
qed

section \<open>Writing\<close>

abbreviation data_of :: "stream_id \<Rightarrow> ed_buffer \<Rightarrow> string" where
  "data_of fp ed \<equiv> f_data (streams ed fp)"

text \<open>\<open>r\<close> is in the buffer, \<open>iv\<close> the last block written.\<close>

definition putting :: "'k \<Rightarrow> block \<Rightarrow> stream_id \<Rightarrow> block \<Rightarrow> string \<Rightarrow> 'k cipher \<Rightarrow> ed_buffer \<Rightarrow> bool" where
  "putting k pad fp iv r c ed \<longleftrightarrow>
     schedule c = k \<and> pvec c = pad \<and> ivec c = iv \<and> length iv = 8 \<and> length pad = 8 \<and> length (des_buf c) = 8 \<and>
     des_n c = length r \<and> length r \<le> 8 \<and> take (length r) (des_buf c) = r \<and> 0 \<le> des_ct c \<and>
     sys_all_ok ed \<and> f_pos (streams ed fp) = length (data_of fp ed)"

lemma fwrite_ok:
  assumes "sys_all_ok ed" "f_pos (streams ed fp) = length (data_of fp ed)"
  obtains e where "fwrite_bytes fp m ed = (length m, e)" "sys_all_ok e" "data_of fp e = data_of fp ed @ m" "f_pos (streams e fp) = length (data_of fp e)"
  using assms by (simp add: fwrite_bytes_def upd_stream_def stream_write_def sys_all_ok_def sys_call_def)

lemma encode_full_ok:
  assumes p: "putting k pad fp iv r c ed" and lib: "des_ok lib k"
  obtains c' ed' where "encode_full lib fp c ed = (c', ed')" "length r < 8 \<longrightarrow> c' = c \<and> ed' = ed"
    "length r = 8 \<longrightarrow> putting k pad fp (des_encrypt lib k (xor_block r iv)) [] c' ed' \<and> des_ct c' = 8 \<and>
       data_of fp ed' = data_of fp ed @ des_encrypt lib k (xor_block r iv)"
proof (cases "length r = 8")
  case False
  then show ?thesis using p that [of c ed] by (simp add: putting_def encode_full_def)
next
  case True
  let ?m = "des_encrypt lib k (xor_block r iv)"
  have r: "des_buf c = r" using p True by (auto simp: putting_def)
  have m: "length ?m = 8" using p True lib by (intro decrypt_block(1)) (simp_all add: putting_def)
  obtain e where "fwrite_bytes fp ?m ed = (length ?m, e)" "sys_all_ok e" "data_of fp e = data_of fp ed @ ?m" "f_pos (streams e fp) = length (data_of fp e)"
    using p by (auto simp: putting_def intro: fwrite_ok [of ed fp ?m])
  then show ?thesis
    using p True r m by (intro that [of "c\<lparr>des_buf := ?m, ivec := ?m, des_ct := 8, des_n := 0\<rparr>" e]) (simp_all add: putting_def encode_full_def cbc_encode_def Let_def)
qed

lemma put_des_char_ok:
  assumes p: "putting k pad fp iv r c ed" and lib: "des_ok lib k"
  obtains c' ed' iv' r' where "put_des_char lib ch fp c ed = (Some ch, c', ed')" "putting k pad fp iv' r' c' ed'" "r' \<noteq> []"
    "des_n c = 8 \<longrightarrow> des_ct c' = 8" "data_of fp ed' @ cbc_text lib k pad iv' (r' @ s) = data_of fp ed @ cbc_text lib k pad iv (r @ ch # s)"
proof -
  obtain c1 ed1 where e: "encode_full lib fp c ed = (c1, ed1)" "length r < 8 \<longrightarrow> c1 = c \<and> ed1 = ed"
    "length r = 8 \<longrightarrow> putting k pad fp (des_encrypt lib k (xor_block r iv)) [] c1 ed1 \<and> des_ct c1 = 8 \<and>
       data_of fp ed1 = data_of fp ed @ des_encrypt lib k (xor_block r iv)"
    by (rule encode_full_ok [OF p lib])
  let ?c' = "c1\<lparr>des_buf := (des_buf c1)[des_n c1 := ch], des_n := des_n c1 + 1\<rparr>"
  have rr: "length r \<le> 8" "des_n c = length r" using p by (simp_all add: putting_def)
  show ?thesis
  proof (cases "length r = 8")
    case True
    note f = e(3) [rule_format, OF True, unfolded putting_def]
    have "cbc_text lib k pad iv (r @ ch # s) = des_encrypt lib k (xor_block r iv) @ cbc_text lib k pad (des_encrypt lib k (xor_block r iv)) (ch # s)"
      using True by (subst cbc_text.simps) (simp add: Let_def)
    moreover have "take (Suc 0) ((des_buf c1)[0 := ch]) = [ch]" using f by (cases "des_buf c1") auto
    ultimately show ?thesis
      using f e(1) True rr by (intro that [of ?c' ed1 "des_encrypt lib k (xor_block r iv)" "[ch]"])
        (auto simp: put_des_char_def putting_def)
  next
    case False
    then have l: "length r < 8" using rr by simp
    have t: "take (Suc (length r)) ((des_buf c)[length r := ch]) = r @ [ch]"
      using p l by (simp add: putting_def take_Suc_conv_app_nth)
    show ?thesis
      using e(1) e(2) [rule_format, OF l] p l rr t by (intro that [of ?c' ed1 iv "r @ [ch]"]) (auto simp: put_des_char_def putting_def)
  qed
qed

lemma put_crypt_chars_ok:
  assumes lib: "des_ok lib k"
  shows "putting k pad fp iv r c ed \<Longrightarrow> r @ s \<noteq> [] \<Longrightarrow>
     \<exists>c' ed' iv' r'. put_crypt_chars lib fp s False c ed = (False, c', ed') \<and> putting k pad fp iv' r' c' ed' \<and> r' \<noteq> [] \<and>
       data_of fp ed' @ cbc_text lib k pad iv' r' = data_of fp ed @ cbc_text lib k pad iv (r @ s)"
proof (induction s arbitrary: iv r c ed)
  case Nil
  then show ?case by (intro exI [of _ c] exI [of _ ed] exI [of _ iv] exI [of _ r]) simp
next
  case (Cons ch s)
  obtain c1 ed1 iv1 r1 where p: "put_des_char lib ch fp c ed = (Some ch, c1, ed1)" "putting k pad fp iv1 r1 c1 ed1" "r1 \<noteq> []"
    "des_n c = 8 \<longrightarrow> des_ct c1 = 8" "data_of fp ed1 @ cbc_text lib k pad iv1 (r1 @ s) = data_of fp ed @ cbc_text lib k pad iv (r @ ch # s)"
    by (rule put_des_char_ok [OF Cons.prems(1) lib, of ch s])
  have nb: "(des_n c = 8 \<and> des_ct c1 = 0) = False" using p(4) by auto
  obtain c' ed' iv' r' where i: "put_crypt_chars lib fp s False c1 ed1 = (False, c', ed')" "putting k pad fp iv' r' c' ed'" "r' \<noteq> []"
    "data_of fp ed' @ cbc_text lib k pad iv' r' = data_of fp ed1 @ cbc_text lib k pad iv1 (r1 @ s)"
    using Cons.IH [OF p(2)] p(3) by blast
  show ?case
  proof (intro exI conjI)
    show "put_crypt_chars lib fp (ch # s) False c ed = (False, c', ed')" unfolding put_crypt_chars.simps p(1) prod.case Let_def nb by (simp add: i(1))
    show "putting k pad fp iv' r' c' ed'" "r' \<noteq> []" by (rule i)+
    show "data_of fp ed' @ cbc_text lib k pad iv' r' = data_of fp ed @ cbc_text lib k pad iv (r @ ch # s)" using i(4) p(5) by simp
  qed
qed

lemma flush_des_file_ok:
  assumes p: "putting k pad fp iv r c ed" "r \<noteq> []" and lib: "des_ok lib k"
  obtains c' ed' where "flush_des_file lib fp c ed = (True, c', ed')" "data_of fp ed' = data_of fp ed @ cbc_text lib k pad iv r" "sys_all_ok ed'"
proof -
  obtain c1 ed1 where e: "encode_full lib fp c ed = (c1, ed1)" "length r < 8 \<longrightarrow> c1 = c \<and> ed1 = ed"
    "length r = 8 \<longrightarrow> putting k pad fp (des_encrypt lib k (xor_block r iv)) [] c1 ed1 \<and> des_ct c1 = 8 \<and>
       data_of fp ed1 = data_of fp ed @ des_encrypt lib k (xor_block r iv)"
    by (rule encode_full_ok [OF p(1) lib])
  have "\<exists>iv' r'. putting k pad fp iv' r' c1 ed1 \<and> length r' < 8 \<and> (r' = [] \<longrightarrow> des_ct c1 = 8) \<and>
      data_of fp ed1 @ cbc_text lib k pad iv' r' = data_of fp ed @ cbc_text lib k pad iv r"
  proof (cases "length r = 8")
    case True
    then show ?thesis using e(3) by (intro exI [of _ "des_encrypt lib k (xor_block r iv)"] exI [of _ "[]"])
        (simp add: cbc_text.simps [of _ _ _ _ r] Let_def)
  next
    case False
    then have "length r < 8" using p by (simp add: putting_def)
    then show ?thesis using e(2) p by auto
  qed
  then obtain iv' r' where r: "putting k pad fp iv' r' c1 ed1" "length r' < 8" "r' = [] \<longrightarrow> des_ct c1 = 8"
    "data_of fp ed1 @ cbc_text lib k pad iv' r' = data_of fp ed @ cbc_text lib k pad iv r" by blast
  note f = r(1) [unfolded putting_def]
  have "padded (length r') (des_buf c1) pad = padded (length r') r' pad" using f by (simp add: padded_def)
  then have m: "des_encrypt lib k (xor_block (padded (des_n c1) (des_buf c1) (pvec c1)) (ivec c1)) = cbc_text lib k pad iv' r'"
    using f r(2) by (simp add: cbc_text.simps [of _ _ _ _ r'])
  have nz: "\<not> (des_n c1 = 0 \<and> des_ct c1 = 0)" using f r(3) by auto
  obtain e2 where w: "fwrite_bytes fp (cbc_text lib k pad iv' r') ed1 = (length (cbc_text lib k pad iv' r'), e2)" "sys_all_ok e2"
    "data_of fp e2 = data_of fp ed1 @ cbc_text lib k pad iv' r'"
    using f by (auto intro: fwrite_ok [of ed1 fp "cbc_text lib k pad iv' r'"])
  show ?thesis
    using e(1) f m nz r(2,4) w by (intro that [of "c1\<lparr>des_buf := cbc_text lib k pad iv' r'\<rparr>" e2]) (auto simp: flush_des_file_def cbc_encode_def Let_def)
qed

section \<open>Reading\<close>

text \<open>The bytes left of the buffer\<close>

definition unread :: "'k cipher \<Rightarrow> string" where
  "unread c = take (nat (des_ct c) - des_n c) (drop (des_n c) (des_buf c))"

definition cipher_ok :: "'k \<Rightarrow> stream_id \<Rightarrow> 'k cipher \<Rightarrow> ed_buffer \<Rightarrow> bool" where
  "cipher_ok k fp c ed \<longleftrightarrow>
     schedule c = k \<and> length (des_buf c) = 8 \<and> length (ivec c) = 8 \<and> 0 \<le> des_ct c \<and> des_ct c \<le> 8 \<and> int (des_n c) \<le> des_ct c \<and>
     sys_all_ok ed \<and> f_pos (streams ed fp) \<le> length (data_of fp ed)"

abbreviation left_in :: "stream_id \<Rightarrow> ed_buffer \<Rightarrow> string" where
  "left_in fp ed \<equiv> drop (f_pos (streams ed fp)) (data_of fp ed)"

text \<open>\<open>u\<close> is the text still to be read.\<close>

definition getting :: "'k des_lib \<Rightarrow> 'k \<Rightarrow> block \<Rightarrow> stream_id \<Rightarrow> string \<Rightarrow> 'k cipher \<Rightarrow> ed_buffer \<Rightarrow> bool" where
  "getting lib k pad fp u c ed \<longleftrightarrow> cipher_ok k fp c ed \<and>
     ((\<exists>v. u = unread c @ v \<and> \<not> f_eof (streams ed fp) \<and> left_in fp ed = cbc_text lib k pad (ivec c) v) \<or>
      u = unread c \<and> left_in fp ed = [])"

lemma fread_block:
  assumes "sys_all_ok ed" "\<not> f_eof (streams ed fp)" "left_in fp ed = m @ t" "length m = 8" "f_pos (streams ed fp) \<le> length (data_of fp ed)"
  obtains e where "fread_bytes 8 fp ed = (m, e)" "sys_all_ok e" "\<not> f_eof (streams e fp)" "left_in fp e = t" "data_of fp e = data_of fp ed"
    "f_pos (streams e fp) = f_pos (streams ed fp) + 8"
proof -
  have "drop (f_pos (streams ed fp) + 8) (data_of fp ed) = drop 8 (left_in fp ed)" by (simp add: add.commute)
  then have "take 8 (left_in fp ed) = m" "drop (f_pos (streams ed fp) + 8) (data_of fp ed) = t" using assms(3,4) by simp_all
  moreover have "length (left_in fp ed) = 8 + length t" using assms(3,4) by simp
  then have "length (data_of fp ed) - f_pos (streams ed fp) = 8 + length t" by simp
  ultimately show ?thesis
    using assms by (intro that [of "upd_stream fp (\<lambda>f. snd (stream_read 8 f)) (sys_n_update Suc ed)"])
      (simp_all add: fread_bytes_def stream_read_def Let_def sys_all_ok_def sys_call_def add.commute)
qed

lemma decode_last:
  assumes lib: "des_ok lib k" "length pad = 8" and c: "schedule c = k" "length (ivec c) = 8" and ed: "sys_all_ok ed" "f_pos (streams ed fp) \<le> length (data_of fp ed)"
    and rest: "\<not> f_eof (streams ed fp)" "left_in fp ed = cbc_text lib k pad (ivec c) v" and v: "length v < 8"
  obtains d e where "cbc_decode lib fp c ed = (int (length v), c\<lparr>des_buf := d, ivec := left_in fp ed\<rparr>, e)" "take (length v) d = v" "length d = 8"
    "sys_all_ok e" "left_in fp e = []" "f_pos (streams e fp) \<le> length (data_of fp e)"
proof -
  let ?p = "padded (length v) v pad"
  let ?m = "des_encrypt lib k (xor_block ?p (ivec c))"
  have p: "length ?p = 8" using v lib(2) by (intro length_padded) simp_all
  note d = decrypt_block [OF lib(1) p c(2)]
  have m: "left_in fp ed = ?m" using rest(2) v by (simp add: cbc_text.simps [of _ _ _ _ v])
  obtain e where e: "fread_bytes 8 fp ed = (?m, e)" "sys_all_ok e" "\<not> f_eof (streams e fp)" "left_in fp e = []" "data_of fp e = data_of fp ed"
    "f_pos (streams e fp) = f_pos (streams ed fp) + 8"
    by (rule fread_block [OF ed(1) rest(1) _ d(1) ed(2), of "[]"]) (use m in auto)
  obtain e2 where g: "getc fp e = (GotEof, e2)" "sys_all_ok e2" "left_in fp e2 = []" "f_pos (streams e2 fp) \<le> length (data_of fp e2)"
  proof -
    have "f_pos (streams ed fp) + 8 \<le> length (data_of fp ed)" using m d(1) by (metis length_drop le_add_diff_inverse ed(2) order_refl)
    then show ?thesis using e that by (simp add: getc_def Let_def sys_all_ok_def sys_call_def)
  qed
  have "byte (?p ! 7) = length v" "take (length v) ?p = v" using padded_text [of "length v" v pad] v lib(2) by simp_all
  then show ?thesis
    using e(1) g d c m v p by (intro that [of ?p e2]) (simp_all add: cbc_decode_def Let_def)
qed

lemma decode_inner:
  assumes lib: "des_ok lib k" "length pad = 8" and c: "schedule c = k" "length (ivec c) = 8" and ed: "sys_all_ok ed" "f_pos (streams ed fp) \<le> length (data_of fp ed)"
    and rest: "\<not> f_eof (streams ed fp)" "left_in fp ed = cbc_text lib k pad (ivec c) v" and v: "8 \<le> length v"
  obtains b e where "cbc_decode lib fp c ed = (8, c\<lparr>des_buf := take 8 v, ivec := b\<rparr>, e)" "length b = 8"
    "sys_all_ok e" "left_in fp e = cbc_text lib k pad b (drop 8 v)" "\<not> f_eof (streams e fp)" "f_pos (streams e fp) \<le> length (data_of fp e)"
proof -
  let ?b = "des_encrypt lib k (xor_block (take 8 v) (ivec c))"
  have p: "length (take 8 v) = 8" using v by simp
  note d = decrypt_block [OF lib(1) p c(2)]
  let ?t = "cbc_text lib k pad ?b (drop 8 v)"
  have m: "left_in fp ed = ?b @ ?t" using rest(2) v by (simp add: cbc_text.simps [of _ _ _ _ v] Let_def)
  have t: "?t \<noteq> []" using length_cbc_text [OF lib d(1), of "drop 8 v"] by auto
  obtain e where e: "fread_bytes 8 fp ed = (?b, e)" "sys_all_ok e" "\<not> f_eof (streams e fp)" "left_in fp e = ?t" "data_of fp e = data_of fp ed"
    "f_pos (streams e fp) = f_pos (streams ed fp) + 8"
    by (rule fread_block [OF ed(1) rest(1) m d(1) ed(2)])
  have lt: "f_pos (streams e fp) < length (data_of fp e)" using t e(4) by (metis drop_eq_Nil leI)
  have g: "getc fp e = (GotChar (data_of fp e ! f_pos (streams e fp)), upd_stream fp (f_pos_update Suc) (sys_n_update Suc e))"
    using e(2,3) lt by (simp add: getc_def Let_def)
  define e2 where "e2 = ungetc fp (upd_stream fp (f_pos_update Suc) (sys_n_update Suc e))"
  have "sys_all_ok e2" "left_in fp e2 = ?t" "\<not> f_eof (streams e2 fp)" "f_pos (streams e2 fp) \<le> length (data_of fp e2)"
    using e lt by (simp_all add: e2_def ungetc_def sys_all_ok_def add.commute)
  then show ?thesis
    using e(1) g d c m by (intro that [of ?b e2]) (simp_all add: cbc_decode_def Let_def e2_def)
qed

lemma fread_nothing:
  assumes "sys_all_ok ed" "left_in fp ed = []"
  shows "fst (fread_bytes 8 fp ed) = []"
  using assms by (simp add: fread_bytes_def stream_read_def)

text \<open>The decoding of a block brings the reader to the next bytes.\<close>

lemma refill:
  assumes lib: "des_ok lib k" "length pad = 8" and g: "getting lib k pad fp u c ed" and e: "des_ct c = int (des_n c)"
  obtains n c' ed' where "cbc_decode lib fp (c\<lparr>des_n := 0\<rparr>) ed = (n, c', ed')"
    "u = [] \<longrightarrow> n \<le> 0" "u \<noteq> [] \<longrightarrow> 0 < n \<and> getting lib k pad fp u (c'\<lparr>des_ct := n, des_n := 0\<rparr>) ed' \<and> des_n c' = 0"
proof -
  let ?c = "c\<lparr>des_n := 0\<rparr>"
  have un: "unread c = []" using e by (simp add: unread_def)
  note ok = g [unfolded getting_def cipher_ok_def un append_Nil]
  show ?thesis
  proof (cases "\<exists>v. u = v \<and> \<not> f_eof (streams ed fp) \<and> left_in fp ed = cbc_text lib k pad (ivec c) v")
    case False
    then have "u = []" "left_in fp ed = []" using ok by auto
    then show ?thesis using ok fread_nothing [of ed fp] that by (cases "fread_bytes 8 fp ed") (auto simp: cbc_decode_def)
  next
    case True
    then have r: "\<not> f_eof (streams ed fp)" "left_in fp ed = cbc_text lib k pad (ivec ?c) u" by auto
    have cc: "schedule ?c = k" "length (ivec ?c) = 8" "sys_all_ok ed" "f_pos (streams ed fp) \<le> length (data_of fp ed)" using ok by simp_all
    show ?thesis
    proof (cases "length u < 8")
      case True
      obtain d e where "cbc_decode lib fp ?c ed = (int (length u), ?c\<lparr>des_buf := d, ivec := left_in fp ed\<rparr>, e)" "take (length u) d = u" "length d = 8"
        "sys_all_ok e" "left_in fp e = []" "f_pos (streams e fp) \<le> length (data_of fp e)"
        by (rule decode_last [OF lib cc r True])
      moreover have "length (left_in fp ed) = 8" using length_cbc_text [OF lib cc(2), of u] True r(2) by simp
      then have "length (cbc_text lib k pad (ivec c) u) = 8" using r(2) by simp
      ultimately show ?thesis using ok True by (intro that) (auto simp: getting_def cipher_ok_def unread_def)
    next
      case False
      then have v: "8 \<le> length u" by simp
      obtain b e where "cbc_decode lib fp ?c ed = (8, ?c\<lparr>des_buf := take 8 u, ivec := b\<rparr>, e)" "length b = 8"
        "sys_all_ok e" "left_in fp e = cbc_text lib k pad b (drop 8 u)" "\<not> f_eof (streams e fp)" "f_pos (streams e fp) \<le> length (data_of fp e)"
        by (rule decode_inner [OF lib cc r v])
      moreover have "\<exists>v. u = take 8 u @ v \<and> cbc_text lib k pad b (drop 8 u) = cbc_text lib k pad b v"
        by (intro exI [of _ "drop 8 u"]) simp
      ultimately show ?thesis using ok v by (intro that) (auto simp: getting_def cipher_ok_def unread_def)
    qed
  qed
qed

lemma get_des_char_ok:
  assumes lib: "des_ok lib k" "length pad = 8" and g: "getting lib k pad fp u c ed"
  shows "u = [] \<Longrightarrow> \<exists>c' ed'. get_des_char lib fp c ed = (None, c', ed')"
    and "u = ch # u' \<Longrightarrow> \<exists>c' ed'. get_des_char lib fp c ed = (Some ch, c', ed') \<and> getting lib k pad fp u' c' ed'"
proof -
  have next_byte: "get_des_char lib fp c0 e0 = (Some ch, c0\<lparr>des_n := des_n c0 + 1\<rparr>, e0) \<and> getting lib k pad fp u' (c0\<lparr>des_n := des_n c0 + 1\<rparr>) e0"
    if "getting lib k pad fp (ch # u') c0 e0" "int (des_n c0) < des_ct c0" for c0 e0
  proof -
    note ok = that(1) [unfolded getting_def cipher_ok_def]
    have l: "des_n c0 < length (des_buf c0)" "des_n c0 < nat (des_ct c0)" using ok that(2) by auto
    then have "unread c0 = des_buf c0 ! des_n c0 # unread (c0\<lparr>des_n := des_n c0 + 1\<rparr>)"
      by (simp add: unread_def Cons_nth_drop_Suc [symmetric] Suc_diff_Suc [symmetric])
    then show ?thesis using ok that(2) by (auto simp: get_des_char_def getting_def cipher_ok_def)
  qed
  have le: "int (des_n c) \<le> des_ct c" using g by (simp add: getting_def cipher_ok_def)
  show "\<exists>c' ed'. get_des_char lib fp c ed = (None, c', ed')" if "u = []"
  proof -
    have "unread c = []" using g that by (auto simp: getting_def)
    then have "des_ct c = int (des_n c)" using g by (auto simp: unread_def getting_def cipher_ok_def)
    then show ?thesis using refill [OF lib g] that by (fastforce simp: get_des_char_def)
  qed
  show "\<exists>c' ed'. get_des_char lib fp c ed = (Some ch, c', ed') \<and> getting lib k pad fp u' c' ed'" if u: "u = ch # u'"
  proof (cases "int (des_n c) < des_ct c")
    case True
    then show ?thesis using next_byte [OF _ True] g u by blast
  next
    case False
    then have "des_ct c = int (des_n c)" using le by simp
    then obtain n c1 ed1 where r: "cbc_decode lib fp (c\<lparr>des_n := 0\<rparr>) ed = (n, c1, ed1)"
      "0 < n" "getting lib k pad fp u (c1\<lparr>des_ct := n, des_n := 0\<rparr>) ed1" "des_n c1 = 0"
      using refill [OF lib g] u by (metis list.distinct(1))
    let ?c = "c1\<lparr>des_ct := n, des_n := 0\<rparr>"
    have "c1\<lparr>des_ct := n\<rparr> = ?c" using r(4) by simp
    then have "get_des_char lib fp c ed = get_des_char lib fp ?c ed1"
      using False r by (simp add: get_des_char_def)
    then show ?thesis using next_byte [of ?c ed1] r(2,3) u by auto
  qed
qed

text \<open>The bytes that \<open>get_des_char\<close> returns before its first \<open>EOF\<close>, at most \<open>n\<close>\<close>

primrec get_bytes :: "'k des_lib \<Rightarrow> nat \<Rightarrow> stream_id \<Rightarrow> 'k cipher \<Rightarrow> ed_buffer \<Rightarrow> string" where
  "get_bytes lib 0 fp c ed = []"
| "get_bytes lib (Suc n) fp c ed =
     (case get_des_char lib fp c ed of (None, c, ed) \<Rightarrow> [] | (Some ch, c, ed) \<Rightarrow> ch # get_bytes lib n fp c ed)"

lemma get_bytes_ok:
  assumes lib: "des_ok lib k" "length pad = 8"
  shows "getting lib k pad fp u c ed \<Longrightarrow> length u < n \<Longrightarrow> get_bytes lib n fp c ed = u"
proof (induction n arbitrary: u c ed)
  case (Suc n)
  then show ?case
    using get_des_char_ok [OF lib Suc.prems(1)] by (cases u) (fastforce simp: less_Suc_eq_le)+
qed simp

lemma crypt_size_blocks: "n \<noteq> 0 \<Longrightarrow> 8 * (n div 8 + 1) = crypt_size n"
  unfolding crypt_size_def by presburger

text \<open>Writing a text and reading it with the same key\<close>

lemma cbc_roundtrip_ok:
  assumes lib: "des_ok lib (schedule c)" and pad: "length pad = 8" and buf: "length (des_buf c) = 8"
    and ed: "sys_all_ok ed" "streams ed fp = empty_stream" and s: "s \<noteq> []"
  obtains c' ed' c'' ed'' where
    "put_crypt_chars lib fp s False (init_des_cipher pad c) ed = (False, c', ed')" "flush_des_file lib fp c' ed' = (True, c'', ed'')"
    "data_of fp ed'' = encrypted lib (schedule c) pad s" "length (data_of fp ed'') = crypt_size (length s)"
    "\<And>e d pad'. sys_all_ok e \<Longrightarrow> streams e fp = \<lparr>f_data = data_of fp ed'', f_pos = 0, f_eof = False\<rparr> \<Longrightarrow>
       schedule d = schedule c \<Longrightarrow> length (des_buf d) = 8 \<Longrightarrow> get_bytes lib (length s + 1) fp (init_des_cipher pad' d) e = s"
proof -
  let ?k = "schedule c" and ?iv = "replicate 8 NUL"
  have "putting ?k pad fp ?iv [] (init_des_cipher pad c) ed"
    using pad buf ed by (simp add: putting_def init_des_cipher_def empty_stream_def)
  then obtain c' ed' iv' r' where p: "put_crypt_chars lib fp s False (init_des_cipher pad c) ed = (False, c', ed')"
    "putting ?k pad fp iv' r' c' ed'" "r' \<noteq> []" "data_of fp ed' @ cbc_text lib ?k pad iv' r' = cbc_text lib ?k pad ?iv s"
    using put_crypt_chars_ok [OF lib, of pad fp ?iv "[]" "init_des_cipher pad c" ed s] s ed(2) by (auto simp: empty_stream_def)
  obtain c'' ed'' where f: "flush_des_file lib fp c' ed' = (True, c'', ed'')" "data_of fp ed'' = data_of fp ed' @ cbc_text lib ?k pad iv' r'"
    by (rule flush_des_file_ok [OF p(2,3) lib])
  have t: "data_of fp ed'' = cbc_text lib ?k pad ?iv s" using f(2) p(4) by simp
  have "length (data_of fp ed'') = 8 * (length s div 8 + 1)" unfolding t by (rule length_cbc_text [OF lib pad]) simp
  also have "\<dots> = crypt_size (length s)" using s by (intro crypt_size_blocks) simp
  finally have len: "length (data_of fp ed'') = crypt_size (length s)" .
  have "get_bytes lib (length s + 1) fp (init_des_cipher pad' d) e = s"
    if "sys_all_ok e" "streams e fp = \<lparr>f_data = data_of fp ed'', f_pos = 0, f_eof = False\<rparr>" "schedule d = ?k" "length (des_buf d) = 8" for e d pad'
  proof (rule get_bytes_ok [OF lib pad])
    show "getting lib ?k pad fp s (init_des_cipher pad' d) e"
      using that t by (simp add: getting_def cipher_ok_def unread_def init_des_cipher_def)
  qed simp
  then show ?thesis using that [OF p(1) f(1) _ len] t s by (simp add: encrypted_def)
qed

section \<open>Lines lost\<close>

text \<open>The last block is decoded with the file at its end: an empty line in it, even with more lines to
  follow, is taken for the end of the file.\<close>

lemma empty_line_lost:
  assumes "int (des_n c) < des_ct c" "des_buf c ! des_n c = LINE_FEED" "feof fp ed"
  shows "get_crypt_line lib fp c ed = (Inl ERR, c\<lparr>des_n := des_n c + 1\<rparr>, set_err ''End-of-file unexpected'' ed)"
proof -
  have "get_crypt_chars lib k fp [] c ed = (Inr ([], True), c\<lparr>des_n := des_n c + 1\<rparr>, ed)" if "0 < k" for k
    using assms that by (cases k) (simp_all add: get_des_char_def)
  then show ?thesis using assms(3) by (simp add: get_crypt_line_def)
qed

section \<open>Parity\<close>

text \<open>Every byte of a key typed as text gets an odd number of bits.\<close>

lemma with_parity_odd: "odd (length (filter (bit (byte (with_parity ch))) [0..<8]))"
proof -
  let ?b = "byte ch" and ?w = "byte (with_parity ch)"
  define par where "par = odd (length (filter (bit ?b) [0..<7]))"
  have bc: "byte (char_of n) = take_bit 8 n" for n by (simp add: byte_def take_bit_eq_mod)
  have m: "?b AND 127 = take_bit 7 ?b" using take_bit_eq_mask [of 7 ?b] by (simp add: mask_eq_exp_minus_1)
  have "take_bit 8 (take_bit 7 ?b OR 128) = take_bit 7 ?b OR 128" by (simp add: take_bit_or)
  then have w: "?w = (if par then take_bit 7 ?b else take_bit 7 ?b OR 128)"
    by (simp add: with_parity_def par_def m bc)
  have "(128 :: nat) = 2 ^ 7" by simp
  then have e: "bit (128 :: nat) i \<longleftrightarrow> i = 7" for i by (simp only: bit_exp_iff) auto
  have "bit ?w i = bit ?b i" if "i < 7" for i
    using that unfolding w by (simp add: bit_take_bit_iff bit_or_iff e)
  then have f: "filter (bit ?w) [0..<7] = filter (bit ?b) [0..<7]" by (intro filter_cong) auto
  have "bit ?w 7 = (\<not> par)"
    unfolding w by (simp add: bit_take_bit_iff bit_or_iff e bit_0)
  moreover have "[0..<8] = [0..<7] @ [7 :: nat]" by (simp add: upt_rec)
  ultimately show ?thesis using f by (simp add: par_def)
qed

end
