(* ===== verification/Allocation.thy ===== *)
theory Allocation
  imports Files "HOL-Library.Word"
begin

text \<open>
  Memory (\<open>buffer.c\<close>: \<open>alloc_ed_buffer\<close>, \<open>realloc_buffer\<close>; \<open>ed.h\<close>: \<open>REALLOC_ADD_THROW\<close>, \<open>REALLOC_MUL_THROW\<close>).  The other
  theories leave the growth of buffers out; here are the sizes it asks for, as 64-bit words, and the editor
  as \<open>main\<close> allocates it.
\<close>

section \<open>Growing a buffer\<close>

definition BUFSIZ_LOG2 :: nat where "BUFSIZ_LOG2 = 13"

definition size_max :: "64 word" where "size_max = - 1"

text \<open>The new size of a buffer of \<open>n\<close> bytes that must hold \<open>i\<close>\<close>

definition realloc_size :: "64 word \<Rightarrow> 64 word \<Rightarrow> 64 word" where
  "realloc_size n i =
     (if i < n then n
      else if i < of_nat BUFSIZ then of_nat BUFSIZ
      else if drop_bit BUFSIZ_LOG2 i \<le> drop_bit (BUFSIZ_LOG2 + 1) size_max
      then push_bit (BUFSIZ_LOG2 + 1) (drop_bit BUFSIZ_LOG2 i)
      else i)"

lemma realloc_size_unat:
  "unat (realloc_size n i) =
     (if unat i < unat n then unat n
      else if unat i < 8192 then 8192
      else if unat i div 8192 \<le> 2 ^ 50 - 1 then unat i div 8192 * 16384
      else unat i)"
proof -
  have b: "unat (of_nat BUFSIZ :: 64 word) = 8192" by (simp add: BUFSIZ_def)
  have d: "unat (drop_bit 13 i) = unat i div 8192" unfolding unat_drop_bit_eq by (simp add: drop_bit_eq_div)
  have m: "unat (mask 50 :: 64 word) = 2 ^ 50 - 1"
    by (simp add: mask_eq_exp_minus_1 unsigned_minus_1_eq_mask)
  have p: "unat (push_bit 14 (drop_bit 13 i)) = unat i div 8192 * 16384" if "unat i div 8192 \<le> 2 ^ 50 - 1"
    unfolding unsigned_push_bit_eq d using that by (simp add: push_bit_eq_mult take_bit_eq_mod)
  show ?thesis
    by (auto simp: realloc_size_def word_less_nat_alt word_le_nat_alt b d m p size_max_def BUFSIZ_LOG2_def)
qed

text \<open>\<open>realloc_buffer\<close>: the buffer with its size, or an error.  Its contents are kept by \<open>realloc\<close>.\<close>

definition realloc_buffer :: "64 word \<Rightarrow> 64 word \<Rightarrow> ed_buffer \<Rightarrow> (64 word) res" where
  "realloc_buffer n i ed =
     (if i < n then (Inr n, ed)
      else
        case sys_call (spl1 ed) of
          (False, ed) \<Rightarrow> (Inl ERR, spl0 (set_err ''Memory exhausted'' ed))
        | (True, ed) \<Rightarrow> (Inr (realloc_size n i), spl0 ed))"

definition REALLOC_ADD_THROW :: "64 word \<Rightarrow> 64 word \<Rightarrow> 64 word \<Rightarrow> ed_buffer \<Rightarrow> (64 word) res" where
  "REALLOC_ADD_THROW n i j ed =
     (if size_max - j < i then throw ''Memory request too big'' ed else realloc_buffer n (i + j) ed)"

definition REALLOC_MUL_THROW :: "64 word \<Rightarrow> 64 word \<Rightarrow> 64 word \<Rightarrow> ed_buffer \<Rightarrow> (64 word) res" where
  "REALLOC_MUL_THROW n i j ed =
     (if size_max div j < i then throw ''Memory request too big'' ed else realloc_buffer n (i * j) ed)"

text \<open>A size is at least what was asked for, and at most a block or twice that: no wrap-around\<close>

lemma realloc_size_bounds: "unat i \<le> unat (realloc_size n i)" "unat (realloc_size n i) \<le> max (unat n) (max 8192 (2 * unat i))"
proof -
  obtain q r where q: "unat i div 8192 = q" "r < 8192" "unat i = q * 8192 + r"
    using div_mult_mod_eq [of "unat i" 8192] mod_less_divisor [of 8192 "unat i"] by fastforce
  show "unat i \<le> unat (realloc_size n i)" unfolding realloc_size_unat q(1) unfolding q(3) using q(2) by (cases q) auto
  show "unat (realloc_size n i) \<le> max (unat n) (max 8192 (2 * unat i))"
    unfolding realloc_size_unat q(1) unfolding q(3) by auto
qed

lemma sum_fits: "i \<le> size_max - j \<longleftrightarrow> unat i + unat j < 2 ^ 64"
proof -
  have "unat (size_max - j) = 2 ^ 64 - 1 - unat j"
    using unat_sub [of j "- 1"] by (simp add: size_max_def unsigned_minus_1_eq_mask mask_eq_exp_minus_1)
  moreover have "unat j < 2 ^ 64" using unsigned_less [of j] by simp
  ultimately show ?thesis by (auto simp: word_le_nat_alt)
qed

lemma product_fits: "j \<noteq> 0 \<Longrightarrow> i \<le> size_max div j \<longleftrightarrow> unat i * unat j < 2 ^ 64"
proof -
  assume j: "j \<noteq> 0"
  then have "0 < unat j" by (simp add: unat_gt_0)
  moreover have "unat (size_max div j) = (2 ^ 64 - 1) div unat j"
    by (simp add: unat_div_distrib size_max_def unsigned_minus_1_eq_mask mask_eq_exp_minus_1)
  ultimately show ?thesis by (auto simp: word_le_nat_alt less_eq_div_iff_mult_less_eq)
qed

text \<open>What a caller gets: a buffer that holds the bytes asked for, or an error, always one when the size wraps around\<close>

lemma realloc_buffer_ok: "realloc_buffer n i ed = (Inr n', ed') \<Longrightarrow> unat i \<le> unat n' \<and> mutex ed' = mutex ed"
  using realloc_size_bounds(1) [of i n]
  by (cases "sys_ok ed (sys_n ed)")
    (auto simp: realloc_buffer_def sys_call_def spl1_def spl0_def word_less_nat_alt split: if_splits)

lemma realloc_add_ok:
  "REALLOC_ADD_THROW n i j ed = (Inr n', ed') \<Longrightarrow> unat i + unat j < 2 ^ 64 \<and> unat i + unat j \<le> unat n' \<and> mutex ed' = mutex ed"
proof -
  assume a: "REALLOC_ADD_THROW n i j ed = (Inr n', ed')"
  then have "i \<le> size_max - j" by (simp add: REALLOC_ADD_THROW_def throw_def not_less split: if_splits)
  then have f: "unat i + unat j < 2 ^ 64" by (rule sum_fits [THEN iffD1])
  then have s: "unat (i + j) = unat i + unat j" by (simp add: unat_word_ariths)
  have "unat (i + j) \<le> unat n' \<and> mutex ed' = mutex ed"
    using a by (auto simp: REALLOC_ADD_THROW_def throw_def dest!: realloc_buffer_ok split: if_splits)
  with f s show ?thesis by simp
qed

lemma realloc_mul_ok:
  "REALLOC_MUL_THROW n i j ed = (Inr n', ed') \<Longrightarrow> j \<noteq> 0 \<Longrightarrow>
     unat i * unat j < 2 ^ 64 \<and> unat i * unat j \<le> unat n' \<and> mutex ed' = mutex ed"
proof -
  assume a: "REALLOC_MUL_THROW n i j ed = (Inr n', ed')" and j: "j \<noteq> 0"
  then have "i \<le> size_max div j" by (simp add: REALLOC_MUL_THROW_def throw_def not_less split: if_splits)
  then have f: "unat i * unat j < 2 ^ 64" by (rule product_fits [OF j, THEN iffD1])
  then have s: "unat (i * j) = unat i * unat j" by (simp add: unat_word_ariths)
  have "unat (i * j) \<le> unat n' \<and> mutex ed' = mutex ed"
    using a by (auto simp: REALLOC_MUL_THROW_def throw_def dest!: realloc_buffer_ok split: if_splits)
  with f s show ?thesis by simp
qed

section \<open>The editor allocated\<close>

text \<open>The structs, filled with zeros, the other parts of the process being given: the answers of library calls,
  the files and the standard input.  The fourteen allocations are the first calls.\<close>

definition zeroed_ed :: "(nat \<Rightarrow> bool) \<Rightarrow> (string \<Rightarrow> string option) \<Rightarrow> string \<Rightarrow> ed_buffer" where
  "zeroed_ed ok fs inp =
     (let st = \<lparr>dot = 0, lines = 0, is_binary = False, is_utf8 = False, is_empty = False, is_modified = False,
            newline_appended = False, newline_missing = False, input_is_binary = False\<rparr>
      in \<lparr>state = st, state1 = st,
          core = \<lparr>regbuf = \<lparr>reg_fp = (\<lambda>_. None), read_idx = 0, write_idx = 0, rio_f = {}\<rparr>,
            stack_frame = (\<lambda>_. \<lparr>sf_fp = 0, sf_size = 0, sf_addr = 0\<rparr>), sp = 0, mark = (\<lambda>_. None), marks = 0,
            global_buffer = \<lparr>gb_lbuf = [], gb_last = 0, gb_ptr = 0, gb_index = 0\<rparr>,
            nodes = (\<lambda>_. \<lparr>q_forw = 0, q_back = 0, ln_len = 0, ln_seek = 0\<rparr>), next_node = 1,
            freed = {}, undo_queue = [], core_fp = 0, offset = 0, seek_on_write = False\<rparr>,
          display = \<lparr>ws_row = 0, ws_col = 0, page_addr = 0, paging = 0, is_paging = 0, underflow = False,
            overflow = False, hidden = False, dio_f = {}\<rparr>,
          exec = \<lparr>subst = \<lparr>lhs = None, s_mod = 0, s_nth = 0, r_f = False, s_f = {}, sio_f = {}\<rparr>,
            region = \<lparr>region_start = 0, region_end = 0, addrs = 0\<rparr>, exec_fp = None, script_pathname = None,
            address = None, err = None, prompt = [], line_no = 0, have_key = False, first_pass = False,
            global = {}, macro_in_global = {}, opt = {}, exit_status = 0\<rparr>,
          file_info = \<lparr>file_name_of = None, is_glob = False\<rparr>, input = [],
          statics = \<lparr>gl_lp = None, gl_n_prev = 0, re_search = None, re_subst = None, re_freed = {}, subst_rhs = None,
            subst_rhs_i = 0, sc_prev = None, saved_input = None, gcb = None\<rparr>,
          streams = (\<lambda>_. empty_stream)(0 := \<lparr>f_data = inp, f_pos = 0, f_eof = False\<rparr>),
          next_stream = 1, std_in = 0, std_out = [], std_err = [], mutex = 0, sys_ok = ok, sys_n = 14, files = fs\<rparr>)"

definition alloc_ed_buffer :: "(nat \<Rightarrow> bool) \<Rightarrow> (string \<Rightarrow> string option) \<Rightarrow> string \<Rightarrow> ed_buffer option" where
  "alloc_ed_buffer ok fs inp = (if list_all ok [0..<14] then Some (zeroed_ed ok fs inp) else None)"

text \<open>The editor that \<open>main\<close> sets up is well formed.\<close>

lemma alloc_init_ok:
  assumes "alloc_ed_buffer ok fs inp = Some ed" "one_time_init getenv ed = (Inr (), ed')"
  shows "buf_inv ed' [] \<and> disk_inv ed' \<and> gb_ok ed' \<and> fst (undo_last_command ed') = Inl ERR"
proof -
  have z: "ed = zeroed_ed ok fs inp" using assms(1) by (simp add: alloc_ed_buffer_def split: if_splits)
  have f: "next_node (core ed) = 1" "gl_lp (statics ed) = None" "gl_n_prev (statics ed) = 0" "offset (core ed) = 0"
    "\<not> seek_on_write (core ed)"
    by (simp_all add: z zeroed_ed_def Let_def)
  then show ?thesis using one_time_init_inv [OF assms(2)] by auto
qed

end
