(* ===== verification/Cmdline.thy ===== *)
theory Cmdline
  imports Session Allocation
begin

text \<open>
  The command line (\<open>main.c\<close>: \<open>main\<close> up to \<open>one_time_init\<close>, \<open>getenv_init_argv\<close>, \<open>collect_address_args\<close>,
  \<open>append_address_command\<close>, \<open>append_script_expression\<close>, \<open>append_script_file\<close>, \<open>is_valid_shell\<close>).  The parser of
  options \<open>getopt_long\<close> is a parameter: of an argument vector it gives the options with their
  arguments, in their order, and the rest of the vector.  So are \<open>isatty (0)\<close>, \<open>access\<close> of a shell, and the text
  that \<open>ed_usage\<close> prints, which the build makes.  A null argument vector is \<open>Inl FATAL\<close>: the code goes on to use it.
\<close>

record startup =
  start :: ed_session
  shell_of :: "string option"

record cmdline_lib =
  getopt_long :: "string list \<Rightarrow> (char \<times> string option) list \<times> string list"
  stdin_isatty :: bool
  executable :: "string \<Rightarrow> bool"
  usage_text :: "ed_flag set \<Rightarrow> string"

abbreviation ed_of :: "startup \<Rightarrow> ed_buffer" where
  "ed_of st \<equiv> buf (start st)"

abbreviation upd_ed :: "(ed_buffer \<Rightarrow> ed_buffer) \<Rightarrow> startup \<Rightarrow> startup" where
  "upd_ed f \<equiv> start_update (buf_update f)"

abbreviation set_flags :: "ed_flag set \<Rightarrow> startup \<Rightarrow> startup" where
  "set_flags f \<equiv> upd_ed (exec_update (opt_update (\<lambda>s. s \<union> f)))"

abbreviation die :: "startup \<Rightarrow> startup" where
  "die \<equiv> start_update (script_die 3)"

definition ed_usage :: "cmdline_lib \<Rightarrow> int \<Rightarrow> startup \<Rightarrow> startup" where
  "ed_usage cl status st =
     start_update (exited_update (\<lambda>_. Some status)) (upd_ed (\<lambda>ed. print (usage_text cl (opt (exec ed))) ed) st)"

section \<open>Scripts\<close>

text \<open>The script buffer is made at the first script; what is on a redirected standard input comes first.\<close>

definition script_buffer :: "cmdline_lib \<Rightarrow> ed_buffer \<Rightarrow> stream_id res" where
  "script_buffer cl ed =
     (case exec_fp (exec ed) of
        None \<Rightarrow>
          andThen (init_script_buffer ed) (\<lambda>_ ed.
            case exec_fp (exec ed) of
              None \<Rightarrow> (Inl FATAL, ed)
            | Some fp \<Rightarrow>
                if stdin_isatty cl then (Inr fp, ed)
                else andThen (append_stream fp (std_in ed) ed) (\<lambda>_ ed. (Inr fp, ed)))
      | Some fp \<Rightarrow>
          (case fseek fp (\<lambda>f. length (f_data f)) ed of
             (False, ed) \<Rightarrow> (Inl ERR, clearerr fp (set_err ''File seek error'' ed))
           | (True, ed) \<Rightarrow> (Inr fp, ed)))"

definition write_script :: "stream_id \<Rightarrow> string \<Rightarrow> ed_buffer \<Rightarrow> unit res" where
  "write_script fp s ed =
     (case sys_call ed of
        (False, ed) \<Rightarrow> (Inl ERR, clearerr fp (set_err ''File write error'' ed))
      | (True, ed) \<Rightarrow> (Inr (), upd_stream fp (stream_write s) ed))"

definition append_script_expression :: "cmdline_lib \<Rightarrow> string \<Rightarrow> ed_buffer \<Rightarrow> unit res" where
  "append_script_expression cl s ed =
     andThen (script_buffer cl ed) (\<lambda>fp ed.
       if s = [] then write_script fp [LINE_FEED] ed
       else
         andThen (write_script fp s ed) (\<lambda>_ ed.
           if last s \<noteq> LINE_FEED then write_script fp [LINE_FEED] ed else (Inr (), ed)))"

definition STDIN :: string where "STDIN = ''/dev/stdin''"

definition append_script_file :: "cmdline_lib \<Rightarrow> string \<Rightarrow> ed_buffer \<Rightarrow> unit res" where
  "append_script_file cl fn ed =
     (let filename = (if fn = ''-'' then STDIN else fn);
          ed = (if filename \<noteq> [] \<and> script_pathname (exec ed) = None
                then exec_update (script_pathname_update (\<lambda>_. Some filename)) ed else ed)
      in case fopen_read filename ed of
           (None, ed) \<Rightarrow> throw ''File open error'' ed
         | (Some src, ed) \<Rightarrow>
             andThen (script_buffer cl ed) (\<lambda>fp ed.
             andThen (append_stream fp src ed) (\<lambda>_ ed. (Inr (), ed))))"

section \<open>The shell\<close>

text \<open>\<open>fgets\<close> with a buffer of \<open>PATH_MAX\<close>: a longer line comes in pieces.\<close>

fun fgets_lines :: "nat \<Rightarrow> string \<Rightarrow> string \<Rightarrow> string list" where
  "fgets_lines k acc [] = (if acc = [] then [] else [acc])"
| "fgets_lines k acc (c # s) =
     (if c = LINE_FEED then (acc @ [c]) # fgets_lines k [] s
      else if Suc (length acc) = k then (acc @ [c]) # fgets_lines k [] s
      else fgets_lines k (acc @ [c]) s)"

definition shell_line :: "string \<Rightarrow> string" where
  "shell_line b = (let b = cstr b in if b \<noteq> [] \<and> last b = LINE_FEED then butlast b else b)"

definition is_valid_shell :: "cmdline_lib \<Rightarrow> string \<Rightarrow> ed_buffer \<Rightarrow> bool \<times> ed_buffer" where
  "is_valid_shell cl path ed =
     (if PATH_MAX - 1 < length path then (False, ed)
      else if file_contents ''/etc/shells'' ed = None then (False, set_err ''/etc/shells: No such file'' ed)
      else
        case fopen_read ''/etc/shells'' ed of
          (None, ed) \<Rightarrow> (False, set_err ''/etc/shells: File open error'' ed)
        | (Some fp, ed) \<Rightarrow>
            if \<not> (\<exists>b\<in>set (fgets_lines (PATH_MAX - 1) [] (f_data (streams ed fp))). cstr b \<noteq> [] \<and> shell_line b = path)
            then (False, set_err ''Invalid shell'' ed)
            else if \<not> executable cl path then (False, set_err ''Shell not executable'' ed)
            else (True, ed))"

section \<open>Options\<close>

text \<open>An allocation of \<open>len + 1\<close> bytes\<close>

definition allocates :: "bool \<Rightarrow> startup \<Rightarrow> bool \<times> startup" where
  "allocates ok st = (if \<not> ok then (False, st) else case sys_call (ed_of st) of (r, ed) \<Rightarrow> (r, upd_ed (\<lambda>_. ed) st))"

abbreviation script_option :: "(ed_buffer \<Rightarrow> unit res) \<Rightarrow> startup \<Rightarrow> startup" where
  "script_option f st \<equiv>
     (let st = set_flags {FSCRIPT, SCRIPTED} st in
      case f (ed_of st) of (Inl _, ed) \<Rightarrow> die (upd_ed (\<lambda>_. ed) st) | (Inr _, ed) \<Rightarrow> upd_ed (\<lambda>_. ed) st)"

definition prompt_width :: "string option \<Rightarrow> int" where
  "prompt_width columns =
     (case columns of None \<Rightarrow> WS_COL | Some s \<Rightarrow> let l = fst (strtoll s) in if l = 0 then WS_COL else l)"

definition flag_option :: "char \<Rightarrow> ed_flag set option" where
  "flag_option c =
     (if c = CHR ''E'' \<or> c = CHR ''r'' then Some {REGEX_EXTENDED}
      else if c = CHR ''G'' then Some {TRADITIONAL}
      else if c = CHR ''m'' then Some {MASK_EXIT_ON_ERROR}
      else if c = CHR ''R'' then Some {ANSI_COLOR}
      else if c = CHR ''s'' then Some {SCRIPTED}
      else if c = CHR ''u'' then Some {UNSAFE_NAMES}
      else if c = CHR ''v'' then Some {VERBOSE}
      else if c = CHR ''w'' then Some {WRITE_ONLY}
      else None)"

text \<open>The switch of \<open>main\<close>.  \<open>optarg\<close> is empty where an option has no argument.\<close>

definition take_option :: "cmdline_lib \<Rightarrow> (string \<Rightarrow> string option) \<Rightarrow> char \<times> string option \<Rightarrow> startup \<Rightarrow> startup" where
  "take_option cl getenv o_arg st =
     (case o_arg of (c, optarg) \<Rightarrow>
      let arg = (case optarg of None \<Rightarrow> [] | Some s \<Rightarrow> s) in
      case flag_option c of
        Some f \<Rightarrow> set_flags f st
      | None \<Rightarrow>
          if c = CHR ''e'' then script_option (append_script_expression cl arg) st
          else if c = CHR ''f'' then script_option (append_script_file cl arg) st
          else if c = CHR ''h'' then ed_usage cl 0 (set_flags {PRINT_HELP} st)
          else if c = CHR ''V'' then ed_usage cl 0 (set_flags {PRINT_VERSION} st)
          else if c = CHR ''i'' then
            (let st = set_flags {IN_PLACE} st in
             if optarg = None then st
             else case allocates (length arg < PATH_MAX - 1) st of
                    (False, st) \<Rightarrow> die st
                  | (True, st) \<Rightarrow> start_update (suffix_update (\<lambda>_. Some arg)) st)
          else if c = CHR ''p'' then
            (case allocates (int (length arg) < u64 (prompt_width (getenv ''COLUMNS'') - 1)) (set_flags {PROMPT} st) of
               (False, st) \<Rightarrow> die st
             | (True, st) \<Rightarrow> upd_ed (exec_update (prompt_update (\<lambda>_. arg))) st)
          else if c = CHR ''S'' then
            (case is_valid_shell cl arg (ed_of st) of
               (ok, ed) \<Rightarrow>
                 (case allocates (ok \<and> length arg \<le> PATH_MAX - 1) (upd_ed (\<lambda>_. ed) st) of
                    (False, st) \<Rightarrow> die st
                  | (True, st) \<Rightarrow> st\<lparr>shell_of := Some arg\<rparr>))
          else if c = NUL then st
          else ed_usage cl 2 st)"

primrec take_options :: "cmdline_lib \<Rightarrow> (string \<Rightarrow> string option) \<Rightarrow> (char \<times> string option) list \<Rightarrow> startup \<Rightarrow> startup" where
  "take_options cl getenv [] st = st"
| "take_options cl getenv (x # xs) st =
     (if exited (start st) \<noteq> None then st else take_options cl getenv xs (take_option cl getenv x st))"

text \<open>From the label \<open>top\<close> on: an argument \<open>-\<close> makes the editor scripted, and what follows it is parsed again.
  The vector gets shorter each time; fuel for its length.  Without fuel, the rest is as it is.\<close>

primrec parse_argv :: "cmdline_lib \<Rightarrow> (string \<Rightarrow> string option) \<Rightarrow> nat \<Rightarrow> string list \<Rightarrow> startup \<Rightarrow> string list \<times> startup" where
  "parse_argv cl getenv 0 argv st = (argv, st)"
| "parse_argv cl getenv (Suc k) argv st =
     (case getopt_long cl argv of
        (opts, rest) \<Rightarrow>
          (let st = take_options cl getenv opts st in
           if exited (start st) \<noteq> None then (rest, st)
           else if rest \<noteq> [] \<and> hd rest = ''-'' then
             (let st = set_flags {SCRIPTED} st in
              if 1 < length rest then parse_argv cl getenv k rest st else ([], st))
           else (rest, st)))"

definition ARGS_MAX :: nat where "ARGS_MAX = 131072"

text \<open>\<open>strtok\<close> with the separators blank, tab and newline\<close>

abbreviation separates :: "char \<Rightarrow> bool" where
  "separates c \<equiv> c = CHR '' '' \<or> c = CHARACTER_TABULATION \<or> c = LINE_FEED"

function words :: "string \<Rightarrow> string list" where
  "words s =
     (let s = dropWhile separates s in
      if s = [] then [] else takeWhile (\<lambda>c. \<not> separates c) s # words (dropWhile (\<lambda>c. \<not> separates c) s))"
  by pat_completeness auto
termination
proof (relation "measure length")
  fix s t :: string
  assume "t = dropWhile separates s" "t \<noteq> []"
  then have "\<not> separates (hd t)" using hd_dropWhile by blast
  then have "length (dropWhile (\<lambda>c. \<not> separates c) t) < length t"
    using \<open>t \<noteq> []\<close> by (cases t) (auto simp: le_imp_less_Suc length_dropWhile_le)
  also have "\<dots> \<le> length s" unfolding \<open>t = _\<close> by (rule length_dropWhile_le)
  finally show "(dropWhile (\<lambda>c. \<not> separates c) t, s) \<in> measure length" by simp
qed simp

declare words.simps [simp del]

text \<open>The vector made of the variable \<open>ED\<close>; \<open>None\<close> when there is none.  A value of separators only makes the
  code write to a vector it has not allocated: \<open>Inl FATAL\<close>.\<close>

definition getenv_init_argv :: "string option \<Rightarrow> ed_buffer \<Rightarrow> string list option res" where
  "getenv_init_argv value ed =
     (case value of
        None \<Rightarrow> (Inr None, ed)
      | Some s \<Rightarrow>
          if s = [] then (Inr None, ed)
          else if words s = [] then (Inl FATAL, ed)
          else if ARGS_MAX < length (words s) then (Inr None, set_err ''Argument list full'' ed)
          else (Inr (Some (''ED'' # words s)), ed))"

section \<open>Addresses\<close>

definition append_address_command :: "string \<Rightarrow> ed_buffer \<Rightarrow> ed_buffer" where
  "append_address_command s =
     exec_update (address_update (\<lambda>a. Some ((case a of None \<Rightarrow> [] | Some t \<Rightarrow> t) @ s @ [LINE_FEED])))"

datatype argument = Address | FileArg | NoVector | BadPattern

text \<open>What \<open>collect_address_args\<close> takes an argument for\<close>

definition kind_of_argument :: "string \<Rightarrow> ed_buffer \<Rightarrow> argument \<times> ed_buffer" where
  "kind_of_argument arg ed =
     (if cur arg \<noteq> CHR ''+'' then (FileArg, ed)
      else
        let delim = peek 1 arg; ds = takeWhile isdigit (drop 1 arg); re = drop 2 arg in
        if isdigit delim then
          (if ULONG_MAX < digits_val ds then (NoVector, set_err ''Numerical result out of range'' ed)
           else if length ds < length (drop 1 arg) then (FileArg, ed) else (Address, ed))
        else if delim = CHR ''/'' \<or> delim = CHR ''?'' then
          (case regular_expression delim (set_input (re @ [LINE_FEED]) ed) of
             (Inl _, ed) \<Rightarrow> (BadPattern, ed)
           | (Inr pat, ed) \<Rightarrow>
               (let n = length pat in
                if n \<noteq> 0 \<and> \<not> (n = length re \<or> Suc n = length re \<and> peek (length re + 1) arg = delim)
                then (FileArg, ed) else (Address, ed)))
        else (FileArg, ed))"

text \<open>The arguments that are left\<close>

primrec collect_address_args :: "string list \<Rightarrow> startup \<Rightarrow> string list option \<times> startup" where
  "collect_address_args [] st = (Some [], st)"
| "collect_address_args (arg # args) st =
     (case kind_of_argument arg (ed_of st) of
        (Address, ed) \<Rightarrow> collect_address_args args (upd_ed (\<lambda>_. append_address_command (drop 1 arg) ed) st)
      | (FileArg, ed) \<Rightarrow> apfst (map_option ((#) arg)) (collect_address_args args (upd_ed (\<lambda>_. ed) st))
      | (NoVector, ed) \<Rightarrow> (None, upd_ed (\<lambda>_. ed) st)
      | (BadPattern, ed) \<Rightarrow> (None, die (upd_ed (\<lambda>_. ed) st)))"

section \<open>The start\<close>

text \<open>The script, if there is one, is read from its start.\<close>

definition rewind_script :: "startup \<Rightarrow> startup" where
  "rewind_script st =
     (case exec_fp (exec (ed_of st)) of
        None \<Rightarrow> st
      | Some fp \<Rightarrow>
          (case fseek fp (\<lambda>_. 0) (ed_of st) of
             (False, ed) \<Rightarrow> die (upd_ed (\<lambda>_. set_err ''File seek error'' ed) st)
           | (True, ed) \<Rightarrow> upd_ed (\<lambda>_. ed) st))"

definition in_place_message :: "ed_flag set \<Rightarrow> string" where
  "in_place_message f =
     (if RESTRICTED \<in> f then ''red'' else ''ed'') @ '': Option '-i' requires '-e' or '-f'' @ [CHR 0x27, LINE_FEED]"

text \<open>\<open>main\<close> to the call of \<open>one_time_init\<close>, with the arguments that are file names.  The first character of the
  last three of the program's name tells the restricted editor.\<close>

definition parse_command_line :: "cmdline_lib \<Rightarrow> (string \<Rightarrow> string option) \<Rightarrow> string list \<Rightarrow> startup \<Rightarrow> string list option \<times> startup" where
  "parse_command_line cl getenv argv st =
     (let name = hd argv;
          st = (if 2 < length name \<and> name ! (length name - 3) = CHR ''r'' then set_flags {RESTRICTED} st else st)
      in case getenv_init_argv (getenv ''ED'') (ed_of st) of
           (Inl _, ed) \<Rightarrow> (None, upd_ed (\<lambda>_. ed) st)
         | (Inr env, ed) \<Rightarrow>
             (let st = upd_ed (\<lambda>_. ed) st;
                  st = (case env of None \<Rightarrow> st | Some v \<Rightarrow> snd (parse_argv cl getenv (length v) v st))
              in if exited (start st) \<noteq> None then (None, st)
                 else
                   case parse_argv cl getenv (length argv) argv st of
                     (rest, st) \<Rightarrow>
                       if exited (start st) \<noteq> None then (None, st)
                       else
                         case collect_address_args rest st of
                           (None, st) \<Rightarrow> (None, st)
                         | (Some args, st) \<Rightarrow>
                             (let st = rewind_script st in
                              if exited (start st) \<noteq> None then (None, st)
                              else if IN_PLACE \<in> opt (exec (ed_of st)) \<and> FSCRIPT \<notin> opt (exec (ed_of st))
                              then (None, ed_usage cl 1 (upd_ed (print_err (in_place_message (opt (exec (ed_of st))))) st))
                              else (Some args, start_update (gl_pathv_update (\<lambda>_. args)) st))))"

text \<open>\<open>main\<close>: a command line that is accepted starts the session.\<close>

definition main_start :: "cmdline_lib \<Rightarrow> 'x os_scheme \<Rightarrow> (string \<Rightarrow> string option) \<Rightarrow> string list \<Rightarrow> startup \<Rightarrow> ed_session" where
  "main_start cl os getenv argv st =
     (case parse_command_line cl getenv argv st of
        (None, st) \<Rightarrow> start st
      | (Some _, st) \<Rightarrow> start_session os getenv (start st))"

text \<open>The whole of it, from the allocation of the structs on; without memory the process ends with the status 1,
  here \<open>None\<close>.\<close>

definition startup_of :: "ed_buffer \<Rightarrow> startup" where
  "startup_of ed =
     \<lparr>start = \<lparr>buf = ed, gl_pathv = [], suffix = None, signal_status = None, exited = None\<rparr>, shell_of = None\<rparr>"

definition main_ed ::
  "cmdline_lib \<Rightarrow> 'x os_scheme \<Rightarrow> (string \<Rightarrow> string option) \<Rightarrow> (nat \<Rightarrow> bool) \<Rightarrow> (string \<Rightarrow> string option) \<Rightarrow> string \<Rightarrow>
   string list \<Rightarrow> ed_session option" where
  "main_ed cl os getenv ok fs inp argv =
     map_option (\<lambda>ed. main_start cl os getenv argv (startup_of ed)) (alloc_ed_buffer ok fs inp)"

section \<open>What the command line means\<close>

text \<open>An argument vector with addresses and file names\<close>

datatype item = At nat | Named string

fun arg_of :: "item \<Rightarrow> string" where
  "arg_of (At n) = CHR ''+'' # decimal n"
| "arg_of (Named s) = s"

primrec names_of :: "item list \<Rightarrow> string list" where
  "names_of [] = []"
| "names_of (x # xs) = (case x of At _ \<Rightarrow> names_of xs | Named s \<Rightarrow> s # names_of xs)"

primrec commands_of :: "item list \<Rightarrow> string list" where
  "commands_of [] = []"
| "commands_of (x # xs) = (case x of At n \<Rightarrow> decimal n # commands_of xs | Named s \<Rightarrow> commands_of xs)"

definition item_ok :: "item \<Rightarrow> bool" where
  "item_ok x = (case x of At n \<Rightarrow> int n \<le> ULONG_MAX | Named s \<Rightarrow> cur s \<noteq> CHR ''+'')"

lemma decimal_isdigit: "\<forall>c\<in>set (decimal n). isdigit c" "decimal n \<noteq> []"
  using decimal_digits [of n] digit_props by auto

lemma kind_of_at: "int n \<le> ULONG_MAX \<Longrightarrow> kind_of_argument (CHR ''+'' # decimal n) ed = (Address, ed)"
proof -
  assume n: "int n \<le> ULONG_MAX"
  obtain c cs where d: "decimal n = c # cs" using decimal_isdigit(2) by (cases "decimal n") auto
  have i: "isdigit c" "takeWhile isdigit cs = cs" using decimal_isdigit(1) [of n] unfolding d by (simp_all add: takeWhile_eq_all_conv)
  have "digits_val (c # cs) = int n" using digits_val_decimal [of n] unfolding d .
  with n i show ?thesis unfolding d by (simp add: kind_of_argument_def Let_def del: takeWhile_eq_all_conv)
qed

lemma collect_items:
  "\<forall>x\<in>set xs. item_ok x \<Longrightarrow>
     collect_address_args (map arg_of xs) st = (Some (names_of xs), upd_ed (fold append_address_command (commands_of xs)) st)"
proof (induction xs arbitrary: st)
  case (Cons x xs)
  then show ?case
    by (cases x) (simp_all add: item_ok_def kind_of_at comp_def, simp add: kind_of_argument_def)
qed simp

lemma fold_address_commands:
  "address (exec (fold append_address_command ss ed)) =
     (if ss = [] then address (exec ed)
      else Some ((case address (exec ed) of None \<Rightarrow> [] | Some t \<Rightarrow> t) @ bytes_of ss))"
proof (induction ss rule: rev_induct)
  case (snoc s ss)
  then show ?case by (cases "ss = []") (simp_all add: append_address_command_def bytes_of_def)
qed simp

text \<open>The commands of the addresses, the flag of the program's name\<close>

definition is_red :: "string \<Rightarrow> bool" where
  "is_red name \<longleftrightarrow> 2 < length name \<and> name ! (length name - 3) = CHR ''r''"

abbreviation with_commands :: "string list \<Rightarrow> ed_buffer \<Rightarrow> ed_buffer" where
  "with_commands ss ed \<equiv> fold append_address_command ss ed"

lemma with_commands_fields [simp]:
  "exec_fp (exec (with_commands ss ed)) = exec_fp (exec ed)" "opt (exec (with_commands ss ed)) = opt (exec ed)"
  by (induction ss arbitrary: ed) (simp_all add: append_address_command_def)

lemma parse_command_line_items:
  assumes "getenv ''ED'' = None" "argv \<noteq> []" "getopt_long cl argv = ([], map arg_of xs)"
    and "\<forall>x\<in>set xs. item_ok x" "Named ''-'' \<notin> set xs" "exec_fp (exec (ed_of st)) = None" "IN_PLACE \<notin> opt (exec (ed_of st))"
    and "exited (start st) = None"
  shows "parse_command_line cl getenv argv st =
    (Some (names_of xs), start_update (gl_pathv_update (\<lambda>_. names_of xs))
       (upd_ed (with_commands (commands_of xs)) (if is_red (hd argv) then set_flags {RESTRICTED} st else st)))"
proof -
  have h: "\<not> (map arg_of xs \<noteq> [] \<and> hd (map arg_of xs) = ''-'')"
  proof (cases xs)
    case (Cons x ys)
    with assms(5) show ?thesis by (cases x) auto
  qed simp
  have p: "parse_argv cl getenv (length argv) argv st' = (map arg_of xs, st')" if "exited (start st') = None" for st'
    using assms(2,3) h that by (cases argv) auto
  show ?thesis
  proof (cases "is_red (hd argv)")
    case True
    then show ?thesis
      using assms h by (simp add: parse_command_line_def getenv_init_argv_def Let_def p collect_items rewind_script_def is_red_def comp_def)
  next
    case False
    then show ?thesis
      using assms h by (simp add: parse_command_line_def getenv_init_argv_def Let_def p collect_items rewind_script_def is_red_def comp_def)
  qed
qed

end
