(* ===== verification/Spec2Isabelle.thy ===== *)
theory Spec2Isabelle
imports File_Props Subst_All Global_Props Cipher_Props Cmdline
begin

text \<open>
  The line editor \<open>ed\<close> (\<open>src/src\<close>).
\<close>

section \<open>The ring of line nodes\<close>

text \<open>
  C28. get_line_node, with its cache of the last node and its four ways to walk, returns the node of line n of the ring and leaves the ring, the line count and the cache invariant intact.
\<close>

theorem get_line_node_correct:
  assumes "buf_inv ed ns" "0 \<le> n" "n \<le> lines (state ed)"
  shows "\<exists>ed'. get_line_node n ed = (node_at ns n, ed') \<and> buf_inv ed' ns \<and> core ed' = core ed \<and> state ed' = state ed"
  using get_line_node_eq [OF assms] buf_inv_cache_node [OF assms] by simp

lemma get_line_node_witness:
  "\<exists>ed'. get_line_node 2 sample_ed = (node_at [1, 2, 3] 2, ed') \<and> buf_inv ed' [1, 2, 3] \<and> core ed' = core sample_ed \<and> state ed' = state sample_ed"
  using get_line_node_correct [OF sample_buf_inv, of 2] by simp

text \<open>
  C29. append_line_node allocates a fresh node, inserts it in the ring right after the line addressed and keeps the ring, the line count and the line cache consistent.
\<close>

theorem append_line_node_inserts:
  assumes "buf_inv ed ns" "0 \<le> addr" "addr \<le> lines (state ed)"
    and "append_line_node len seek addr ed = (Inr lp, ed')"
  shows "lp = next_node (core ed) \<and> buf_inv ed' (insert_after addr [lp] ns)"
  using append_line_node_buf_inv [OF assms] append_line_node_result (1) [OF assms] by simp

lemma append_line_node_inserts_witness:
  "\<exists>ed'. append_line_node 5 6 1 sample_ed = (Inr 4, ed') \<and> buf_inv ed' [1, 4, 2, 3]"
proof -
  obtain ed' where ok: "append_line_node 5 6 1 sample_ed = (Inr (next_node (core sample_ed)), ed')"
    by (rule append_line_node_ok [OF sample_buf_inv, of 1 5 6]) (auto simp: OFF_T_MAX_def)
  then show ?thesis
    using append_line_node_inserts [OF sample_buf_inv _ _ ok] by (simp add: insert_after_def)
qed

text \<open>The address of the node of line \<open>n\<close> is \<open>n\<close>.\<close>

theorem line_address_roundtrip:
  assumes "buf_inv ed ns" "0 \<le> n" "n \<le> lines (state ed)"
  shows "\<exists>lp ed'. get_line_node n ed = (lp, ed') \<and> get_line_node_address (Some lp) ed' = (Inr n, ed')"
  using get_line_node_eq [OF assms] get_line_node_address_found [OF buf_inv_cache_node [OF assms] assms(2)] assms(3) by simp

lemma line_address_roundtrip_witness:
  "\<exists>lp ed'. get_line_node 3 sample_ed = (lp, ed') \<and> get_line_node_address (Some lp) ed' = (Inr 3, ed')"
  using line_address_roundtrip [OF sample_buf_inv, of 3] by simp

section \<open>The disk buffer\<close>

text \<open>
  C11. put_buffer_line stores the first line of its input after the current line: the texts of the buffer become the old texts with the new one inserted, the rest of the input is returned, and the invariants of the ring and of the buffer file are kept.
\<close>

theorem put_buffer_line_refines:
  assumes "buf_inv ed ns" "disk_inv ed" "0 \<le> dot (state ed)" "dot (state ed) \<le> lines (state ed)"
    and "room_for (Suc m) ed" "lines (state ed) < OFF_T_MAX" "m \<le> length t"
  shows "\<exists>ed' ns'. put_buffer_line t (Suc m) ed = (Inr (drop (Suc m) t), ed') \<and>
     buf_inv ed' ns' \<and> disk_inv ed' \<and>
     buffer_text ed' ns' = insert_after (dot (state ed)) [take m t] (buffer_text ed ns) \<and>
     dot (state ed') = dot (state ed) + 1"
  by (rule put_buffer_line_text [OF assms])

lemma put_buffer_line_refines_witness:
  "\<exists>ed' ns'. put_buffer_line (''new'' @ [LINE_FEED]) (Suc 3) sample_ed = (Inr [], ed') \<and>
     buf_inv ed' ns' \<and> disk_inv ed' \<and>
     buffer_text ed' ns' = insert_after 3 [''new''] (buffer_text sample_ed [1, 2, 3]) \<and> dot (state ed') = 4"
  using put_buffer_line_refines [OF sample_buf_inv sample_disk_inv, of 3 "''new'' @ [LINE_FEED]"] room_for_sample [of "Suc 3"]
  by (simp add: OFF_T_MAX_def)

text \<open>
  C30. get_buffer_line returns the text of a node whatever the position of the buffer file, and keeps the invariant of the buffer file and every text.
\<close>

theorem get_buffer_line_reads:
  assumes "disk_inv ed" "0 < p" "p < next_node (core ed)" "sys_all_ok ed"
  shows "\<exists>ed'. get_buffer_line p ed = (Inr (node_text ed p), ed') \<and> disk_inv ed' \<and> state ed' = state ed \<and>
     f_data (disk ed') = f_data (disk ed) \<and> nodes (core ed') = nodes (core ed)"
  by (rule get_buffer_line_text [OF assms]) auto

lemma get_buffer_line_reads_witness:
  "\<exists>ed'. get_buffer_line 2 sample_ed = (Inr ''bb'', ed') \<and> disk_inv ed' \<and> state ed' = state sample_ed \<and>
     f_data (disk ed') = f_data (disk sample_ed) \<and> nodes (core ed') = nodes (core sample_ed)"
  using get_buffer_line_reads [OF sample_disk_inv, of 2]
  by simp

text \<open>
  C39. When the seek of get_buffer_line fails the function returns an error, but it has already recorded the position as reached: a second call for the same line does not seek and returns the bytes at the old position.
\<close>

theorem get_buffer_line_retry_wrong:
  assumes "p \<noteq> line_head" "offset (core ed) \<noteq> ln_seek (nodes (core ed) p)"
    and "\<not> sys_ok ed (sys_n ed)" "sys_ok ed (Suc (sys_n ed))"
    and "f_pos (disk ed) + ln_len (nodes (core ed) p) \<le> length (f_data (disk ed))"
  shows "fst (get_buffer_line p ed) = Inl ERR \<and>
    fst (get_buffer_line p (snd (get_buffer_line p ed)))
      = Inr (take (ln_len (nodes (core ed) p)) (drop (f_pos (disk ed)) (f_data (disk ed))))"
  using get_buffer_line_failed_seek [OF assms] by blast

lemma get_buffer_line_retry_wrong_witness:
  "\<exists>ed. node_text ed 2 = ''bb'' \<and> fst (get_buffer_line 2 ed) = Inl ERR \<and>
     fst (get_buffer_line 2 (snd (get_buffer_line 2 ed))) = Inr ''ab''"
proof -
  define ed where "ed = upd_stream 1 (f_pos_update (\<lambda>_. 0)) (core_update (offset_update (\<lambda>_. 0)) sample_ed)\<lparr>sys_ok := (\<lambda>n. n \<noteq> 0)\<rparr>"
  have "node_text ed 2 = ''bb''" by (simp add: node_text_def ed_def line_head_def sample_defs sample_heap_def)
  moreover have "fst (get_buffer_line 2 ed) = Inl ERR \<and> fst (get_buffer_line 2 (snd (get_buffer_line 2 ed))) = Inr ''ab''"
    using get_buffer_line_retry_wrong [of 2 ed] by (simp add: ed_def line_head_def sample_defs sample_heap_def numeral_2_eq_2)
  ultimately show ?thesis by blast
qed

section \<open>Undo\<close>

text \<open>
  C2. Undo restores the ring, the line count and the current line of the buffer before the last command, whatever sequence of additions, deletions and moves the undo queue records; a second undo restores the buffer undone, links included.
\<close>

theorem undo_is_an_involution:
  assumes "buf_inv ed ns" "undo_inv ed ns0 ns" "0 \<le> dot (state ed)"
  shows "\<exists>ed'. undo_last_command ed = (Inr (), ed') \<and> buf_inv ed' ns0 \<and>
     state ed' = state1 ed \<and> state1 ed' = state ed \<and>
     (\<exists>ed''. undo_last_command ed' = (Inr (), ed'') \<and> nodes (core ed'') = nodes (core ed) \<and>
        buf_inv ed'' ns \<and> state ed'' = state ed \<and> state1 ed'' = state1 ed)"
  by (rule undo_last_command_restores [OF assms])

lemma undo_is_an_involution_witness:
  "\<exists>ed ns. delete_lines 2 3 sample_ed = (Inr (), ed) \<and> buf_inv ed ns \<and> length ns = 1 \<and>
     (\<exists>ed'. undo_last_command ed = (Inr (), ed') \<and> buf_inv ed' [1, 2, 3])"
proof -
  obtain ed where d: "delete_lines 2 3 sample_ed = (Inr (), ed)" "buf_inv ed (removed 2 3 [1, 2, 3])"
    "undo_inv ed [1, 2, 3] (removed 2 3 [1, 2, 3])" "dot (state ed) = 1"
    using delete_lines_spec [OF sample_buf_inv sample_undo_inv sample_gb_ok, of 2 3] by auto
  have "\<exists>ed'. undo_last_command ed = (Inr (), ed') \<and> buf_inv ed' [1, 2, 3]"
    using undo_is_an_involution [OF d(2,3)] d(4) by auto
  with d(1,2) show ?thesis by (auto simp: removed_def)
qed

text \<open>
  C32. A mark set on line n by mark_line_node is found at n by get_marked_node_address.
\<close>

theorem mark_roundtrip:
  assumes "buf_inv ed ns" "islower c" "0 \<le> n" "n \<le> lines (state ed)"
  shows "\<exists>ed'. mark_line_node (node_at ns n) c ed = (Inr (), ed') \<and> get_marked_node_address c ed' = (Inr n, ed')"
  by (rule mark_get_roundtrip [OF assms])

lemma mark_roundtrip_witness:
  "\<exists>ed'. mark_line_node 2 (CHR ''q'') sample_ed = (Inr (), ed') \<and> get_marked_node_address (CHR ''q'') ed' = (Inr 2, ed')"
  using mark_roundtrip [OF sample_buf_inv, of "CHR ''q''" 2] by (simp add: ctype_defs)



section \<open>The line commands\<close>

text \<open>
  C7. delete_lines removes exactly the lines of the range from the list of texts, leaves the line before it as the current line, and records what undo needs; the list of a running global command stays well formed.
\<close>

theorem delete_refines:
  assumes "buf_inv ed ns" "undo_inv ed ns0 ns" "gb_ok ed" "sys_all_ok ed"
    and "1 \<le> from" "from \<le> to" "to \<le> lines (state ed)"
  shows "\<exists>ed'. delete_lines from to ed = (Inr (), ed') \<and> buf_inv ed' (removed from to ns) \<and>
     undo_inv ed' ns0 (removed from to ns) \<and> gb_ok ed' \<and>
     buffer_text ed' (removed from to ns) = removed from to (buffer_text ed ns) \<and>
     dot (state ed') = from - 1 \<and> is_modified (state ed')"
  by (rule delete_lines_spec [OF assms])

lemma delete_refines_witness:
  "\<exists>ed'. delete_lines 1 2 sample_ed = (Inr (), ed') \<and> buffer_text ed' [3] = [''ccc''] \<and> dot (state ed') = 0"
  using delete_refines [OF sample_invs(1,2,4), of 1 2] by (auto simp: removed_def)

text \<open>
  C9. copy_lines inserts a copy of the lines of the range after the destination, also when the destination lies inside the range, leaves the last copy as the current line and records what undo needs.
\<close>

theorem copy_refines:
  assumes "buf_inv ed ns" "undo_inv ed ns0 ns" "sys_all_ok ed"
    and "1 \<le> from" "from \<le> to" "to \<le> lines (state ed)" "0 \<le> after" "after \<le> lines (state ed)"
    and "lines (state ed) + (to - from + 1) \<le> OFF_T_MAX"
  shows "\<exists>ed' ns'. copy_lines from to after ed = (Inr (), ed') \<and> buf_inv ed' ns' \<and> undo_inv ed' ns0 ns' \<and>
     buffer_text ed' ns' = insert_after after (segment from to (buffer_text ed ns)) (buffer_text ed ns) \<and>
     dot (state ed') = after + (to - from + 1)"
  by (rule copy_lines_spec [OF assms])

lemma copy_refines_witness:
  "\<exists>ed' ns'. copy_lines 1 2 1 sample_ed = (Inr (), ed') \<and> buffer_text ed' ns' = [''a'', ''a'', ''bb'', ''bb'', ''ccc''] \<and>
     dot (state ed') = 3"
  using copy_refines [OF sample_invs(1,2), of 1 2 1]
  by (auto simp: insert_after_def segment_def OFF_T_MAX_def)

text \<open>
  C8. move_lines permutes the lines as the command says, in both directions and when nothing moves, keeps the number of lines and records what undo needs.
\<close>

theorem move_refines:
  assumes "buf_inv ed ns" "undo_inv ed ns0 ns" "gb_ok ed" "sys_all_ok ed"
    and "1 \<le> from" "from \<le> to" "to \<le> lines (state ed)" "0 \<le> after" "after \<le> lines (state ed)"
    and "\<not> (from \<le> after \<and> after < to)"
  shows "\<exists>ed'. move_lines from to after ed = (Inr (), ed') \<and> buf_inv ed' (moved from to after ns) \<and>
      undo_inv ed' ns0 (moved from to after ns) \<and> gb_ok ed' \<and>
      buffer_text ed' (moved from to after ns) = moved from to after (buffer_text ed ns) \<and>
      lines (state ed') = lines (state ed) \<and> is_modified (state ed')"
  by (rule move_lines_spec [OF assms])

lemma move_refines_witness:
  "\<exists>ed'. move_lines 3 3 0 sample_ed = (Inr (), ed') \<and> buffer_text ed' [3, 1, 2] = [''ccc'', ''a'', ''bb'']"
  using move_refines [OF sample_invs(1,2,4), of 3 3 0]
  by (auto simp: moved_def segment_def)

section \<open>Searching and addresses\<close>

text \<open>
  C12. A search returns the first address, in the cyclic order from the current line in the direction asked for and through address 0, whose line the pattern matches, the current line last; when no line matches it is the error "No match". Lines, current line and invariants are left as they were.
\<close>

theorem search_finds_first_match:
  assumes "buf_inv ed ns" "disk_inv ed" "sys_all_ok ed" "0 \<le> dot (state ed)" "dot (state ed) \<le> lines (state ed)"
  shows "(case List.find (\<lambda>a. a \<noteq> 0 \<and> re_matches lib re (buffer_text ed ns ! (nat a - 1)))
               (search_order dir (dot (state ed)) (lines (state ed))) of
        Some a \<Rightarrow> fst (get_matching_node_address lib (Some re) dir ed) = Inr a
      | None \<Rightarrow> \<exists>e. get_matching_node_address lib (Some re) dir ed = throw ''No match'' e) \<and>
    buffer_text (snd (get_matching_node_address lib (Some re) dir ed)) ns = buffer_text ed ns \<and>
    state (snd (get_matching_node_address lib (Some re) dir ed)) = state ed"
  using get_matching_node_address_ok [OF assms, of lib re dir] search_result_frame [OF get_matching_node_address_ok [OF assms, of lib re dir]]
  unfolding search_result_def line_matches_def [abs_def] by (auto split: option.splits)

lemma search_finds_first_match_witness:
  "fst (get_matching_node_address literal_lib (Some (literal ''b'')) True sample_ed) = Inr 2"
  using search_finds_first_match [OF sample_invs(1,3), of literal_lib "literal ''b''" True]
  by (simp add: search_order_def upto.simps re_matches_literal)

text \<open>
  C13. Whatever the input, a range of addresses that is accepted lies within the buffer, at most two addresses are counted, and the lines of the buffer and its invariants are kept.
\<close>

theorem address_range_in_bounds:
  assumes "buf_inv ed ns" "disk_inv ed" "sys_all_ok ed" "0 \<le> dot (state ed)" "dot (state ed) \<le> lines (state ed)"
    and "address_range lib ed = (Inr n, ed')"
  shows "0 \<le> region_start (region (exec ed')) \<and> region_start (region (exec ed')) \<le> lines (state ed) \<and>
       0 \<le> region_end (region (exec ed')) \<and> region_end (region (exec ed')) \<le> lines (state ed) \<and>
       n = addrs (region (exec ed')) \<and> n \<le> 2 \<and> buf_inv ed' ns \<and> buffer_text ed' ns = buffer_text ed ns"
  using address_range_ok [OF assms(1-5), of lib] assms(6) parsed_text [of ed ns ed'] by (auto simp: parsed_def)

lemma address_range_in_bounds_witness:
  "\<exists>ed'. address_range literal_lib (set_input ''2,$'' sample_ed) = (Inr 2, ed') \<and>
     0 \<le> region_start (region (exec ed')) \<and> region_end (region (exec ed')) \<le> 3"
proof -
  let ?ed = "set_input ''2,$'' sample_ed"
  obtain ed' where r: "address_range literal_lib ?ed = (Inr 2, ed')"
    by (simp add: address_range_def SKIP_WHITESPACE_def IS_DELIMITER_def next_address_def line_address_def address_offset_def
        STRTOLL_THROW_def strtoll_def digits_val_def digit_val_def ctype_defs LLONG_MAX_def set_range_def check_address_bounds_def
        posix_or_traditional_def rollover_def Let_def numeral_eq_Suc)
  show ?thesis using address_range_in_bounds [OF _ _ _ _ _ r, of "[1, 2, 3]"] r sample_invs by auto
qed

text \<open>
  C14. address_range returns whatever the input: the fuel given to its loops, the length of the input and the number of lines, is enough.
\<close>

theorem address_range_returns:
  assumes "buf_inv ed ns" "disk_inv ed" "sys_all_ok ed" "0 \<le> dot (state ed)" "dot (state ed) \<le> lines (state ed)"
  shows "fst (address_range lib ed) \<noteq> Inl FATAL"
  using address_range_ends [OF assms] by (simp add: ends_def)

lemma address_range_returns_witness: "fst (address_range literal_lib (set_input ''?b?;+++$,,'' sample_ed)) \<noteq> Inl FATAL"
  using address_range_returns [of "set_input ''?b?;+++$,,'' sample_ed" "[1, 2, 3]" literal_lib] sample_invs by simp

text \<open>
  C15. A range "n,m" printed in decimal is read back as the range from n to m, with the input left at what follows it.
\<close>

theorem address_range_reads_decimal:
  assumes "int n \<le> lines (state ed)" "int m \<le> lines (state ed)" "lines (state ed) \<le> LLONG_MAX"
    and "0 \<le> dot (state ed)" "dot (state ed) \<le> lines (state ed)"
    and "ends_address (cur rest)" "\<not> IS_DELIMITER (cur rest)"
    and "input ed = decimal n @ CHR '','' # decimal m @ rest"
  shows "\<exists>ed'. address_range lib ed = (Inr 2, ed') \<and> input ed' = rest \<and> state ed' = state ed \<and> core ed' = core ed \<and>
    region (exec ed') = \<lparr>region_start = int n, region_end = int m, addrs = 2\<rparr>"
  using address_range_decimal [OF assms(1-7) _ assms(8)] by simp

lemma address_range_reads_decimal_witness:
  "\<exists>ed'. address_range literal_lib (set_input (decimal 1 @ CHR '','' # decimal 3 @ ''p'') sample_ed) = (Inr 2, ed') \<and> input ed' = ''p'' \<and>
     region (exec ed') = \<lparr>region_start = 1, region_end = 3, addrs = 2\<rparr>"
  using address_range_reads_decimal [of 1 "set_input (decimal 1 @ CHR '','' # decimal 3 @ ''p'') sample_ed" 3 "''p''" literal_lib]
  by (auto simp: LLONG_MAX_def ends_address_def IS_DELIMITER_def ctype_defs)

section \<open>UTF-8\<close>

text \<open>
  C34. is_utf8_str accepts a byte string exactly when it is a sequence of well-formed characters: an ASCII byte, or a leading byte (C2 to DF, E0 to EF, F0 to F5) with its one, two or three continuation bytes.
\<close>

theorem utf8_grammar: "is_utf8_str s \<longleftrightarrow> (\<exists>ps. s = concat ps \<and> list_all utf8_char_ok ps)"
  by (rule is_utf8_str_iff)

text \<open>A character decoded takes one to four bytes, all of them within the text given.\<close>

theorem utf8_decode_bounds:
  assumes "decode_utf8_char s = (Inr cp, t)"
  shows "\<exists>p. s = p @ t \<and> 1 \<le> length p \<and> length p \<le> 4 \<and> utf8_char_ok p"
  by (rule decode_utf8_length [OF assms])

lemma utf8_decode_bounds_witness:
  "\<exists>p cp. decode_utf8_char (map char_of [0xE2, 0x82, 0xAC, 0x21 :: nat]) = (Inr cp, ''!'') \<and>
     map char_of [0xE2, 0x82, 0xAC, 0x21 :: nat] = p @ ''!'' \<and> length p \<le> 4"
proof -
  have "decode_utf8_char (map char_of [0xE2, 0x82, 0xAC, 0x21 :: nat]) = (Inr 131628, ''!'')" by code_simp
  from utf8_decode_bounds [OF this] this show ?thesis by blast
qed

text \<open>
  C35. The value decoded from a two-byte character is 256 times the payload of its first byte plus the payload of its second: the offsets of utf8_cp_offset are multiples of 8 where RFC 3629 has multiples of 6, so the value is not the code point.
\<close>

theorem utf8_two_bytes_value:
  assumes "0xC2 \<le> byte a" "byte a \<le> 0xDF" "continuation b"
  shows "fst (decode_utf8_char (a # b # t)) = Inr ((int (byte a) - 0xC0) * 256 + (int (byte b) - 0x80))"
  by (rule decode_two_bytes [OF assms])

lemma utf8_two_bytes_value_witness: "fst (decode_utf8_char [char_of (0xC3 :: nat), char_of (0xA9 :: nat)]) = Inr 0x329"
  using utf8_two_bytes_value [of "char_of (0xC3 :: nat)" "char_of (0xA9 :: nat)" "[]"] by (simp add: continuation_def byte_def)

section \<open>Reading a stream\<close>

text \<open>
  C10. read_stream inserts after the line addressed the lines of the rest of the stream, the last also when its newline is missing, leaves the last line read as the current line, keeps the invariants and records what undo needs; its result is the number of bytes, one less when a binary file is appended whose last line has no newline.
\<close>

theorem read_stream_refines:
  assumes "buf_inv ed ns" "undo_inv ed ns0 ns" "disk_inv ed" "sys_all_ok ed" "0 \<le> after" "after \<le> lines (state ed)"
    and "fp \<noteq> core_fp (core ed)" "fp \<noteq> std_in ed" "\<not> f_eof (streams ed fp)"
    and "rest_of (streams ed fp) = bytes_of us @ tail" "\<forall>t\<in>set (tail # us). LINE_FEED \<notin> set t \<and> int (length t) < SIZE_MAX - 3"
    and "room (length (text_lines us tail)) (total_length (text_lines us tail)) ed"
  shows "\<exists>ed' ns'. read_stream fp after ed = (Inr (read_size (after = lines (state ed)) (state ed) us tail), ed') \<and>
     buf_inv ed' ns' \<and> undo_inv ed' ns0 ns' \<and> disk_inv ed' \<and>
     buffer_text ed' ns' = insert_after after (text_lines us tail) (buffer_text ed ns) \<and>
     dot (state ed') = after + int (length (text_lines us tail))"
  using read_stream_ok [OF assms] by blast

lemma read_stream_refines_witness:
  "\<exists>ed' ns'. read_stream 2 1 (upd_stream 2 (\<lambda>_. \<lparr>f_data = ''x'' @ [LINE_FEED] @ ''yz'', f_pos = 0, f_eof = False\<rparr>) sample_ed) = (Inr 5, ed') \<and>
     buffer_text ed' ns' = [''a'', ''x'', ''yz'', ''bb'', ''ccc''] \<and> dot (state ed') = 3"
proof -
  let ?ed = "upd_stream 2 (\<lambda>_. \<lparr>f_data = ''x'' @ [LINE_FEED] @ ''yz'', f_pos = 0, f_eof = False\<rparr>) sample_ed"
  have i: "buf_inv ?ed [1, 2, 3]" "undo_inv ?ed [1, 2, 3] [1, 2, 3]" "disk_inv ?ed" "sys_all_ok ?ed"
    using sample_invs by (simp_all add: upd_stream_def disk_inv_def node_stored_def undo_inv_def)
  have t: "buffer_text ?ed [1, 2, 3] = [''a'', ''bb'', ''ccc'']"
    using buffer_text_same [of ?ed sample_ed] by (simp add: upd_stream_def)
  have s: "streams ?ed 2 = \<lparr>f_data = ''x'' @ [LINE_FEED] @ ''yz'', f_pos = 0, f_eof = False\<rparr>" "f_data (disk ?ed) = ''abbccc''"
    "core ?ed = core sample_ed" "std_in ?ed = 0" "state ?ed = sample_state"
    by (simp_all add: upd_stream_def) (simp_all add: sample_ed_def)
  have r: "rest_of (streams ?ed 2) = bytes_of [''x''] @ ''yz''" "room (Suc (Suc 0)) (Suc (Suc (Suc 0))) ?ed" "read_size False sample_state [''x''] ''yz'' = 5"
    using s by (simp_all add: rest_of_def bytes_of_def room_def OFF_T_MAX_def read_size_def)
  show ?thesis
    using read_stream_refines [OF i, of 1 2 "[''x'']" "''yz''"] t s r
    by (auto simp: insert_after_def SIZE_MAX_def)
qed

section \<open>Parsing of text\<close>



text \<open>
  C37. The word that a POSIX shell reads from the result of shell_quote is the file name quoted, for every file name (apostrophes, leading blanks and an empty name included).
\<close>

theorem shell_quote_safe: "shell_word False (shell_quote fn) = Some fn"
  by (rule shell_quote_roundtrip)



text \<open>A number in decimal, followed by anything but a digit, is converted back to its value by \<open>STRTOLL_THROW\<close>.\<close>

theorem strtoll_reads_decimal:
  assumes "int n \<le> LLONG_MAX" "\<not> isdigit (cur rest)"
  shows "strtoll (decimal n @ rest) = (int n, rest, False)"
  by (rule strtoll_decimal [OF assms])

lemma strtoll_reads_decimal_witness: "strtoll (decimal 207 @ '',p'') = (207, '',p'', False)"
  using strtoll_reads_decimal [of 207 "'',p''"] by (simp add: LLONG_MAX_def ctype_defs)

section \<open>The start of the editor\<close>

text \<open>The editor after \<open>one_time_init\<close>, whatever else was set up before\<close>

theorem start_of_the_editor:
  assumes "one_time_init getenv ed = (Inr (), ed')"
    and "next_node (core ed) = 1" "gl_lp (statics ed) = None" "gl_n_prev (statics ed) = 0"
    and "offset (core ed) = 0" "seek_on_write (core ed) = False"
  shows "buf_inv ed' [] \<and> disk_inv ed' \<and> gb_ok ed' \<and> fst (undo_last_command ed') = Inl ERR"
  using one_time_init_inv [OF assms] by blast

lemma start_of_the_editor_witness:
  "\<exists>ed ed'. one_time_init (\<lambda>s. if s = ''COLUMNS'' then Some ''132'' else None) ed = (Inr (), ed') \<and> buf_inv ed' []"
proof -
  let ?env = "\<lambda>s. if s = ''COLUMNS'' then Some ''132'' else None"
  let ?ed = "core_update (\<lambda>c. c\<lparr>next_node := 1, offset := 0\<rparr>) sample_ed"
  have "\<exists>ed'. one_time_init ?env ?ed = (Inr (), ed')"
    by (simp add: one_time_init_def init_core_buffer_def create_disk_buffer_def init_window_def Let_def sample_defs sys_call_def init_ed_command_def
        strtoll_def digits_val_def digit_val_def ctype_defs LLONG_MAX_def throw_def)
  then obtain ed' where "one_time_init ?env ?ed = (Inr (), ed')" by blast
  from this start_of_the_editor [OF this] show ?thesis by (intro exI conjI) (auto simp: sample_defs)
qed

section \<open>Sessions\<close>

definition sample_os :: os where
  "sample_os = \<lparr>re_compile = (\<lambda>_ _. Inr 0), re_exec = (\<lambda>_ _ _. None), os_seekable = False,
     os_writable = (\<lambda>_. True), os_fifo = (\<lambda>_. False), os_shell = (\<lambda>_ _. ([], 0))\<rparr>"

definition session_of :: "ed_buffer \<Rightarrow> ed_session" where
  "session_of ed = \<lparr>buf = ed, gl_pathv = [], suffix = None, signal_status = None, exited = None\<rparr>"

text \<open>The sample buffer with a line of the user\<close>

definition typed :: "string \<Rightarrow> ed_buffer \<Rightarrow> ed_buffer" where
  "typed s = upd_stream 0 (\<lambda>_. \<lparr>f_data = s, f_pos = 0, f_eof = False\<rparr>)"

lemma typed_fields [simp]:
  "core (typed s ed) = core ed" "state (typed s ed) = state ed" "state1 (typed s ed) = state1 ed" "exec (typed s ed) = exec ed"
  "std_in (typed s ed) = std_in ed" "statics (typed s ed) = statics ed" "sys_ok (typed s ed) = sys_ok ed"
  "streams (typed s ed) = (streams ed)(0 := \<lparr>f_data = s, f_pos = 0, f_eof = False\<rparr>)" "input (typed s ed) = input ed"
  "sys_all_ok (typed s ed) = sys_all_ok ed"
  by (simp_all add: typed_def upd_stream_def sys_all_ok_def)

lemma sample_std_in [simp]: "std_in sample_ed = 0" "next_stream sample_ed = 2" "files sample_ed = (\<lambda>_. None)" "file_name_of (file_info sample_ed) = None"
  by (simp_all add: sample_ed_def)

text \<open>
  C4. A session of the restricted editor runs no shell command and changes no file outside of the working directory: with any other shell it goes through the same states, and files whose names have a slash keep their contents, after every sequence of commands and interrupts.
\<close>

theorem restricted_session_safe:
  assumes "session_steps os sn sn'" "confined F (buf sn)"
  shows "session_steps (other_shell sh os) sn sn' \<and> confined F (buf sn')"
  by (rule session_steps_same [OF assms])

lemma restricted_session_safe_witness:
  "\<exists>sn'. session_steps (other_shell (\<lambda>_ _. (''rm'', 1)) sample_os) (session_of (exec_update (opt_update (\<lambda>_. {RESTRICTED})) sample_ed)) sn' \<and>
     confined (\<lambda>_. None) (buf sn')"
proof -
  let ?sn = "session_of (exec_update (opt_update (\<lambda>_. {RESTRICTED})) sample_ed)"
  have "session_steps sample_os ?sn (main_step sample_os ?sn)"
    by (rule r_into_rtranclp) (simp add: session_step.round session_of_def)
  moreover have "confined (\<lambda>_. None) (buf ?sn)" by (simp add: confined_def session_of_def)
  ultimately show ?thesis using restricted_session_safe by blast
qed



text \<open>
  C20. A user who types q twice leaves the editor, whatever the buffer: at once when nothing is unsaved or the editor is scripted, with the exit status of the session, and otherwise at the second q, with status 3.
\<close>

theorem second_quit_exits:
  assumes "may_quit sn" "at_line ''q'' (''q'' @ LINE_FEED # rest) (buf sn)"
  shows "exited (run_rounds os 2 sn) =
     Some (if is_modified (state (buf sn)) \<and> SCRIPTED \<notin> opt (exec (buf sn)) then 3 else exit_status (exec (buf sn)))"
proof (cases "is_modified (state (buf sn)) \<and> SCRIPTED \<notin> opt (exec (buf sn))")
  case True
  then have e: "quit_status (buf sn) = EMOD" by simp
  note w = q_warns [OF assms e, of os]
  have "quit_status (buf (main_step os sn)) = EOF" using w by simp
  with w have "exited (main_step os (main_step os sn)) = Some 3" using q_ends [of "main_step os sn" rest os] by simp
  then show ?thesis using True w assms(1) by (simp add: numeral_2_eq_2 may_quit_def)
next
  case False
  then have "quit_status (buf sn) = EOF" by auto
  then have "exited (main_step os sn) = Some (exit_status (exec (buf sn)))" by (rule q_ends [OF assms])
  then show ?thesis using False assms(1) by (auto simp: numeral_2_eq_2 may_quit_def)
qed

lemma second_quit_exits_witness:
  "exited (run_rounds sample_os 2 (session_of (set_is_modified True (typed (''q'' @ [LINE_FEED] @ ''q'' @ [LINE_FEED]) sample_ed)))) = Some 3"
  using second_quit_exits [of "session_of (set_is_modified True (typed (''q'' @ [LINE_FEED] @ ''q'' @ [LINE_FEED]) sample_ed))" "[]" sample_os]
  by (simp add: may_quit_def session_of_def at_line_def rest_of_def SIZE_MAX_def sample_exec_def sample_state_def init_ed_state_def)



section \<open>Signals\<close>

definition process_of :: "ed_buffer \<Rightarrow> ed_process" where
  "process_of ed = \<lparr>sess = session_of ed, sig_active = True, sig_flags = {}\<rparr>"

lemma process_of_fields [simp]:
  "pbuf (process_of ed) = ed" "sig_active (process_of ed)" "sig_flags (process_of ed) = {}" "exited (sess (process_of ed)) = None"
  by (simp_all add: process_of_def session_of_def)

text \<open>
  C16. Signals that come in a critical section are recorded and touch nothing else; at the end of the outermost section a hangup ends the process with status 2, otherwise an interrupt jumps to the main loop, otherwise the editor goes on and of the signals recorded only a broken pipe is left.
\<close>

theorem critical_sections_defer:
  assumes "mutex (pbuf p) = 0" "sig_active p" "\<not> dead p"
    and q_def: "q = signals os getenv ws ss (enter p)"
  shows "q = sig_flags_update (\<lambda>f. f \<union> set ss) (enter p) \<and>
     (SIGHUP \<in> sig_flags q \<longrightarrow> exited (sess (snd (leave getenv ws q))) = Some 2) \<and>
     (SIGHUP \<notin> sig_flags q \<and> SIGINT \<in> sig_flags q \<longrightarrow> fst (leave getenv ws q) = Jumps) \<and>
     (SIGHUP \<notin> sig_flags q \<and> SIGINT \<notin> sig_flags q \<longrightarrow>
        fst (leave getenv ws q) = Returns \<and> \<not> dead (snd (leave getenv ws q)) \<and> sig_flags (snd (leave getenv ws q)) = sig_flags q \<inter> {SIGPIPE})"
proof -
  have q: "q = sig_flags_update (\<lambda>f. f \<union> set ss) (enter p)"
    unfolding q_def by (rule signals_deferred) (use assms(1) in simp)
  then have "mutex (pbuf q) = 1" "sig_active q" "\<not> dead q" using assms(1-3) by simp_all
  note l = leave_handles [OF this, of getenv ws]
  show ?thesis using q l by simp
qed

lemma critical_sections_defer_witness:
  "exited (sess (snd (leave (\<lambda>_. None) None (signals sample_os (\<lambda>_. None) None [SIGINT, SIGHUP] (enter (process_of sample_ed)))))) = Some 2"
proof -
  define q where "q = signals sample_os (\<lambda>_. None) None [SIGINT, SIGHUP] (enter (process_of sample_ed))"
  have "mutex (pbuf (process_of sample_ed)) = 0" "sig_active (process_of sample_ed)" "\<not> dead (process_of sample_ed)" by simp_all
  note d = critical_sections_defer [OF this q_def]
  then have "sig_flags q = {SIGINT, SIGHUP}" by simp
  with d show ?thesis unfolding q_def [symmetric] by blast
qed

text \<open>
  C17. Outside of critical sections no hangup and no interrupt is pending, in every state that the process reaches by signals, critical sections and rounds of its loop, as long as no section is left more often than entered.
\<close>

theorem no_signal_forgotten:
  assumes "(balanced_step os getenv)\<^sup>*\<^sup>* p q" "sig_active p" "mutex (pbuf p) = 0" "sig_flags p = {}"
    and "\<not> dead q" "mutex (pbuf q) = 0"
  shows "SIGHUP \<notin> sig_flags q \<and> SIGINT \<notin> sig_flags q"
proof -
  have "signals_ok p" using assms(2-4) by (simp add: signals_ok_def)
  from balanced_steps_ok [OF assms(1) this] show ?thesis using assms(5,6) by (simp add: signals_ok_def)
qed

lemma no_signal_forgotten_witness:
  "\<exists>q. (balanced_step sample_os (\<lambda>_. None))\<^sup>*\<^sup>* (process_of sample_ed) q \<and> SIGPIPE \<in> sig_flags q \<and> SIGHUP \<notin> sig_flags q"
proof -
  let ?p = "process_of sample_ed"
  let ?a = "enter ?p"
  let ?b = "resume sample_os (signal_handler (\<lambda>_. None) None SIGPIPE ?a)"
  let ?c = "resume sample_os (leave (\<lambda>_. None) None ?b)"
  have b: "?b = sig_flags_update (insert SIGPIPE) ?a" by (simp add: signal_deferred)
  have c: "leave (\<lambda>_. None) None ?b = (Returns, set_pbuf (spl0 (pbuf ?b)) ?b)" unfolding b by (simp add: leave_def if_pending_def)
  have 1: "balanced_step sample_os (\<lambda>_. None) ?p ?a" by (simp add: balanced_step_def process_step.entered)
  have 2: "balanced_step sample_os (\<lambda>_. None) ?a ?b"
    unfolding balanced_step_def by (intro conjI process_step.signalled) (simp_all add: b)
  have 3: "balanced_step sample_os (\<lambda>_. None) ?b ?c"
    unfolding balanced_step_def by (intro conjI process_step.left) (simp_all add: c, simp_all add: b)
  have "(balanced_step sample_os (\<lambda>_. None))\<^sup>*\<^sup>* ?p ?c"
    using 1 2 3 by (meson rtranclp.rtrancl_into_rtrancl rtranclp.rtrancl_refl)
  moreover have "SIGPIPE \<in> sig_flags ?c" "\<not> dead ?c" "mutex (pbuf ?c) = 0" by (simp_all add: c, simp_all add: b)
  moreover have "SIGHUP \<notin> sig_flags ?c"
    using no_signal_forgotten [OF calculation(1) _ _ _ calculation(3,4)] by simp
  ultimately show ?thesis by blast
qed



text \<open>
  C18. A hangup stores the lines of the buffer in ed.hup and ends the process with status 2.
\<close>

theorem hangup_saves_the_buffer:
  assumes "buf_inv (pbuf p) ns" "disk_inv (pbuf p)" "sys_all_ok (pbuf p)" "streams_fresh (pbuf p)" "ns \<noteq> []"
    and "int (length (bytes_of (buffer_text (pbuf p) ns))) < OFF_T_MAX" "sig_active p"
  shows "files (pbuf (snd (handle_hup getenv p))) ''ed.hup'' = Some (written (state (pbuf p)) (buffer_text (pbuf p) ns)) \<and>
     exited (sess (snd (handle_hup getenv p))) = Some 2"
  using handle_hup_saves [OF assms] by simp

lemma hangup_saves_the_buffer_witness:
  "files (pbuf (snd (handle_hup (\<lambda>_. None) (process_of sample_ed)))) ''ed.hup''
     = Some (''a'' @ [LINE_FEED] @ ''bb'' @ [LINE_FEED] @ ''ccc'' @ [LINE_FEED])"
  using hangup_saves_the_buffer [of "process_of sample_ed" "[1, 2, 3]" "\<lambda>_. None"] sample_invs
  by (simp add: streams_fresh_def bytes_of_def OFF_T_MAX_def written_def sample_state_def init_ed_state_def)

section \<open>Files\<close>



section \<open>Typed text\<close>

lemma sample_more [simp]:
  "sp (core sample_ed) = 0" "sys_ok sample_ed = (\<lambda>_. True)" "undo_queue (core sample_ed) = []" "address sample_exec = None" "io_flags sample_ed = {}"
  by (simp_all add: sample_defs)



section \<open>Substitution\<close>

text \<open>
  C3. substitute_lines replaces in every line of the range the first match, or with the flag g, where no match is empty, every match from left to right, by the template applied to it; newlines of the template split the line; the last line changed becomes the current line, the other lines and the invariants are kept, and it is the error "No match" when nothing changed outside of a global command.
\<close>

theorem substitute_refines:
  assumes "buf_inv ed ns" "undo_inv ed ns0 ns" "disk_inv ed" "sys_all_ok ed" "gb_ok ed"
    and "1 \<le> from" "from \<le> to" "to \<le> lines (state ed)" "us = segment from to (buffer_text ed ns)"
    and "offsets_ok lib re" "re_nsub re < SE_MAX"
    and "no_modifiers a \<and> r = first_replaced lib re (template (re_nsub re) (rhs_of ed)) \<or>
      only_g a \<and> nonempty_matches lib re \<and> r = all_replaced lib re (template (re_nsub re) (rhs_of ed))"
    and "room (length (new_lines r us)) (total_length (new_lines r us)) ed"
  shows "\<exists>ed' ns'. substitute_lines lib from to re a ed = (if changes r us = 0 \<and> global (exec ed) = {} then Inl ERR else Inr (), ed') \<and>
     buf_inv ed' ns' \<and> undo_inv ed' ns0 ns' \<and> disk_inv ed' \<and> sys_all_ok ed' \<and> gb_ok ed' \<and>
     buffer_text ed' ns' = take (nat (from - 1)) (buffer_text ed ns) @ new_lines r us @ drop (nat to) (buffer_text ed ns) \<and>
     dot (state ed') = last_changed r (from - 1) (dot (state ed)) us"
proof -
  have "substitutes lib re a (rhs_of ed) r us"
    using assms(10-12) first_replaced_substitutes all_replaced_substitutes by blast
  then show ?thesis by (rule substitute_lines_ok [OF assms(1-9) _ assms(13)])
qed

text \<open>A library of one-character patterns\<close>

definition char_os :: os where
  "char_os = sample_os\<lparr>re_exec := (\<lambda>re _ t. let c = hd (re_pattern re); n = int (length (takeWhile (\<lambda>d. d \<noteq> c) t))
     in if c \<in> set t then Some [(n, n + 1)] else None)\<rparr>"

lemma char_os_ok: "offsets_ok char_os re" "nonempty_matches char_os re"
proof -
  have "c \<in> set t \<Longrightarrow> int (length (takeWhile (\<lambda>d. d \<noteq> c) t)) + 1 \<le> int (length t)" for c and t :: string
    by (induction t) auto
  then show "offsets_ok char_os re" by (auto simp: offsets_ok_def char_os_def Let_def)
  show "nonempty_matches char_os re" by (auto simp: nonempty_matches_def char_os_def Let_def)
qed

lemma substitute_refines_witness:
  "\<exists>ed' ns'. substitute_lines char_os 2 3 \<lparr>re_id = 0, re_pattern = ''b'', re_extended = False, re_nsub = 0\<rparr>
       \<lparr>a_nth = 0, a_mod = 0, a_f = {GSUB}, a_sgpr = {}, a_io = {}\<rparr> (set_rhs ''<&>'' sample_ed) = (Inr (), ed') \<and>
     buffer_text ed' ns' = [''a'', ''<b><b>'', ''ccc''] \<and> dot (state ed') = 2"
proof -
  let ?re = "\<lparr>re_id = 0, re_pattern = ''b'', re_extended = False, re_nsub = 0\<rparr>"
  let ?a = "\<lparr>a_nth = 0, a_mod = 0, a_f = {GSUB}, a_sgpr = {}, a_io = {}\<rparr>"
  let ?ed = "set_rhs ''<&>'' sample_ed"
  let ?r = "all_replaced char_os ?re (template 0 (rhs_of ?ed))"
  have tx: "buffer_text ?ed [1, 2, 3] = [''a'', ''bb'', ''ccc'']"
  proof -
    have "node_text ?ed = node_text sample_ed" by (rule ext) (simp add: node_text_def)
    then show ?thesis using sample_text by (simp add: buffer_text_def)
  qed
  have r: "?r ''bb'' = Some [''<b><b>'']" "?r ''ccc'' = None"
    by (simp_all add: all_replaced_def char_os_def template_def template_step_def change_text_def change_case_def match_text_def Let_def)
  have i: "buf_inv ?ed [1, 2, 3]" "undo_inv ?ed [1, 2, 3] [1, 2, 3]" "disk_inv ?ed" "sys_all_ok ?ed" "gb_ok ?ed"
    using sample_invs by (simp_all add: buf_inv_def cache_inv_def undo_inv_def disk_inv_def node_stored_def gb_ok_def sys_all_ok_def cong: option.case_cong)
  show ?thesis
    using substitute_refines [OF i, of 2 3 "[''bb'', ''ccc'']" char_os ?re ?a ?r] char_os_ok [of ?re] tx r
    by (auto simp: segment_def only_g_def SE_MAX_def room_def OFF_T_MAX_def replaced_def changes_def)
qed

text \<open>
  C22. The loops over the matches of a line end, empty matches included, and count_matches has its count: the fuel, twice the length of the line, is enough whenever the modulus is not zero; with modulus zero the code divides by zero at the first match that counts.
\<close>

theorem substitution_ends:
  assumes "offsets_ok lib re" "re_nsub re < SE_MAX"
  shows "(\<exists>n. count_matches lib re t ed = (Inr n, ed)) \<and>
     (u64 md \<noteq> 0 \<longrightarrow> subst_loop lib re tpl nt md g (match_fuel t) False [] t 0 False False True None \<noteq> NoReturn) \<and>
     (re_exec lib re False t \<noteq> None \<longrightarrow> subst_loop lib re tpl 1 0 g (match_fuel t) False [] t 0 False False True None = NoReturn)"
proof (intro conjI impI)
  show "\<exists>n. count_matches lib re t ed = (Inr n, ed)" by (rule count_matches_ends [OF assms])
  show "subst_loop lib re tpl nt md g (match_fuel t) False [] t 0 False False True None \<noteq> NoReturn" if "u64 md \<noteq> 0"
  proof -
    have "rounds_left t False < match_fuel t" by (simp add: match_fuel_def)
    from subst_loop_ends [OF assms(1) this that] show ?thesis .
  qed
  have f: "match_fuel t = Suc (Suc (2 * length t))" by (simp add: match_fuel_def)
  show "subst_loop lib re tpl 1 0 g (match_fuel t) False [] t 0 False False True None = NoReturn" if "re_exec lib re False t \<noteq> None"
    using that by (auto simp: f Let_def u64_def)
qed

lemma substitution_ends_witness:
  "\<exists>n. count_matches char_os \<lparr>re_id = 0, re_pattern = ''b'', re_extended = False, re_nsub = 0\<rparr> ''abcb'' sample_ed = (Inr n, sample_ed)"
  using substitution_ends [OF char_os_ok(1), of "\<lparr>re_id = 0, re_pattern = ''b'', re_extended = False, re_nsub = 0\<rparr>" "''abcb''" sample_ed]
  by (simp add: SE_MAX_def)

section \<open>Global commands\<close>



section \<open>Registers and display\<close>






section \<open>Memory and the start\<close>

text \<open>
  C31. A request for i * j (or i + j) bytes that succeeds did not wrap around, the buffer then holds as many, and the mutex is released; a request that wraps around is refused.
\<close>

theorem realloc_bounds:
  "(REALLOC_ADD_THROW n i j ed = (Inr a, e) \<longrightarrow> unat i + unat j < 2 ^ 64 \<and> unat i + unat j \<le> unat a \<and> mutex e = mutex ed) \<and>
   (REALLOC_MUL_THROW n i j ed = (Inr m, f) \<and> j \<noteq> 0 \<longrightarrow> unat i * unat j < 2 ^ 64 \<and> unat i * unat j \<le> unat m \<and> mutex f = mutex ed) \<and>
   (2 ^ 64 \<le> unat i * unat j \<longrightarrow> REALLOC_MUL_THROW n i j ed = (Inl ERR, set_err ''Memory request too big'' ed)) \<and>
   (2 ^ 64 \<le> unat i + unat j \<longrightarrow> REALLOC_ADD_THROW n i j ed = (Inl ERR, set_err ''Memory request too big'' ed))"
proof (intro conjI impI)
  assume p: "2 ^ 64 \<le> unat i * unat j"
  then have "j \<noteq> 0" by auto
  from product_fits [OF this, of i] p show "REALLOC_MUL_THROW n i j ed = (Inl ERR, set_err ''Memory request too big'' ed)"
    by (simp add: REALLOC_MUL_THROW_def throw_def not_le)
next
  assume "2 ^ 64 \<le> unat i + unat j"
  with sum_fits [of i j] show "REALLOC_ADD_THROW n i j ed = (Inl ERR, set_err ''Memory request too big'' ed)"
    by (simp add: REALLOC_ADD_THROW_def throw_def not_le)
qed (use realloc_add_ok realloc_mul_ok in blast)+

lemma realloc_bounds_witness:
  "REALLOC_ADD_THROW 0 9000 100 sample_ed = (Inr 16384, sys_n_update Suc sample_ed) \<and> unat (9000 :: 64 word) + unat (100 :: 64 word) \<le> unat (16384 :: 64 word) \<and>
   REALLOC_MUL_THROW 0 (2 ^ 62) 8 sample_ed = (Inl ERR, set_err ''Memory request too big'' sample_ed)"
proof -
  have a: "REALLOC_ADD_THROW 0 9000 100 sample_ed = (Inr 16384, sys_n_update Suc sample_ed)"
    by (simp add: REALLOC_ADD_THROW_def realloc_buffer_def realloc_size_def size_max_def BUFSIZ_def BUFSIZ_LOG2_def sys_call_def spl1_def spl0_def sample_ed_def mask_eq_exp_minus_1)
  from realloc_bounds [of 0 9000 100 sample_ed 16384 "sys_n_update Suc sample_ed"] realloc_bounds [of 0 "2 ^ 62" 8 sample_ed] a
  show ?thesis by simp
qed

text \<open>
  C27. The editor that main allocates and one_time_init sets up has an empty ring, satisfies the invariants of the ring, of the buffer file and of the global buffer, and has nothing to undo.
\<close>

theorem fresh_editor:
  assumes "alloc_ed_buffer ok fs inp = Some ed" "one_time_init getenv ed = (Inr (), ed')"
  shows "buf_inv ed' [] \<and> disk_inv ed' \<and> gb_ok ed' \<and> fst (undo_last_command ed') = Inl ERR"
  by (rule alloc_init_ok [OF assms])

lemma fresh_editor_witness:
  "\<exists>ed ed'. alloc_ed_buffer (\<lambda>_. True) (\<lambda>_. None) ''q'' = Some ed \<and>
     one_time_init (\<lambda>s. if s = ''COLUMNS'' then Some ''132'' else None) ed = (Inr (), ed') \<and> buf_inv ed' []"
proof -
  let ?env = "\<lambda>s. if s = ''COLUMNS'' then Some ''132'' else None"
  let ?ed = "zeroed_ed (\<lambda>_. True) (\<lambda>_. None) ''q''"
  have a: "alloc_ed_buffer (\<lambda>_. True) (\<lambda>_. None) ''q'' = Some ?ed" by (simp add: alloc_ed_buffer_def list_all_iff)
  have "\<exists>ed'. one_time_init ?env ?ed = (Inr (), ed')"
    by (simp add: one_time_init_def init_core_buffer_def create_disk_buffer_def init_window_def Let_def zeroed_ed_def sys_call_def init_ed_command_def
        strtoll_def digits_val_def digit_val_def ctype_defs LLONG_MAX_def throw_def)
  then obtain ed' where "one_time_init ?env ?ed = (Inr (), ed')" by blast
  from a this fresh_editor [OF a this] show ?thesis by blast
qed

text \<open>
  C23. A command line of addresses +n and file names, without options, starts the session with the file names in order and the addresses, in order, as the first commands; the name red makes the editor restricted.
\<close>

theorem command_line_session:
  assumes "alloc_ed_buffer ok fs inp = Some ed" "getenv ''ED'' = None" "getopt_long cl (name # args) = ([], map arg_of xs)"
    and "\<forall>x\<in>set xs. item_ok x" "Named ''-'' \<notin> set xs"
  shows "\<exists>sn. main_ed cl os getenv ok fs inp (name # args) = Some (start_session os getenv sn) \<and> gl_pathv sn = names_of xs \<and>
    address (exec (buf sn)) = (if commands_of xs = [] then None else Some (bytes_of (commands_of xs))) \<and>
    (RESTRICTED \<in> opt (exec (buf sn)) \<longleftrightarrow> is_red name) \<and> core (buf sn) = core ed"
proof -
  have z: "ed = zeroed_ed ok fs inp" using assms(1) by (simp add: alloc_ed_buffer_def split: if_splits)
  have f: "exec_fp (exec ed) = None" "opt (exec ed) = {}" "address (exec ed) = None" by (simp_all add: z zeroed_ed_def Let_def)
  have c: "core (with_commands ss e) = core e" for ss e by (induction ss arbitrary: e) (simp_all add: append_address_command_def)
  let ?e = "if is_red name then exec_update (opt_update (insert RESTRICTED)) ed else ed"
  let ?sn = "(start (startup_of ed))\<lparr>buf := with_commands (commands_of xs) ?e, gl_pathv := names_of xs\<rparr>"
  have "parse_command_line cl getenv (name # args) (startup_of ed) = (Some (names_of xs), start_update (\<lambda>_. ?sn) (startup_of ed))"
    using parse_command_line_items [of getenv "name # args" cl xs "startup_of ed"] assms(2-) f by (simp add: startup_of_def)
  then have "main_ed cl os getenv ok fs inp (name # args) = Some (start_session os getenv ?sn)"
    using assms(1) by (simp add: main_ed_def main_start_def startup_of_def)
  then show ?thesis by (rule exI [of _ ?sn, OF conjI]) (simp add: startup_of_def fold_address_commands c f)
qed

lemma command_line_session_witness:
  "\<exists>sn. main_ed \<lparr>getopt_long = (\<lambda>a. ([], tl a)), stdin_isatty = True, executable = (\<lambda>_. True), usage_text = (\<lambda>_. [])\<rparr>
      sample_os (\<lambda>_. None) (\<lambda>_. True) (\<lambda>_. None) [] [''red'', ''+5'', ''notes'', ''+2''] = Some (start_session sample_os (\<lambda>_. None) sn) \<and>
    gl_pathv sn = [''notes''] \<and> address (exec (buf sn)) = Some (''5'' @ [LINE_FEED] @ ''2'' @ [LINE_FEED]) \<and> RESTRICTED \<in> opt (exec (buf sn))"
proof -
  let ?cl = "\<lparr>getopt_long = (\<lambda>a. ([], tl a)), stdin_isatty = True, executable = (\<lambda>_. True), usage_text = (\<lambda>_. [])\<rparr>"
  let ?xs = "[At 5, Named ''notes'', At 2]"
  have d: "decimal 5 = ''5''" "decimal 2 = ''2''" by (code_simp)+
  have "alloc_ed_buffer (\<lambda>_. True) (\<lambda>_. None) [] = Some (zeroed_ed (\<lambda>_. True) (\<lambda>_. None) [])" by (simp add: alloc_ed_buffer_def list_all_iff)
  from command_line_session [OF this, of "\<lambda>_. None" ?cl "''red''" "[''+5'', ''notes'', ''+2'']" ?xs sample_os]
  show ?thesis by (simp add: d item_ok_def ULONG_MAX_def bytes_of_def is_red_def) blast
qed

section \<open>Encrypted files\<close>

text \<open>
  C24. A text that is not empty, written and flushed through put_des_char, is in the file as the cipher block chaining of the text, of the size that crypt_size computes, and get_des_char, with the same key, gives the text and then the end of the file.
\<close>

theorem cbc_roundtrip:
  assumes "des_ok lib (schedule c)" "length pad = 8" "length (des_buf c) = 8" "sys_all_ok ed" "streams ed fp = empty_stream" "s \<noteq> []"
  shows "\<exists>c' ed' c'' ed''. put_crypt_chars lib fp s False (init_des_cipher pad c) ed = (False, c', ed') \<and>
    flush_des_file lib fp c' ed' = (True, c'', ed'') \<and> f_data (streams ed'' fp) = encrypted lib (schedule c) pad s \<and>
    length (f_data (streams ed'' fp)) = crypt_size (length s) \<and>
    (\<forall>e d pad'. sys_all_ok e \<and> streams e fp = \<lparr>f_data = f_data (streams ed'' fp), f_pos = 0, f_eof = False\<rparr> \<and>
       schedule d = schedule c \<and> length (des_buf d) = 8 \<longrightarrow> get_bytes lib (length s + 1) fp (init_des_cipher pad' d) e = s)"
  by (rule cbc_roundtrip_ok [OF assms]) blast

definition reversing :: "block des_lib" where
  "reversing = \<lparr>des_set_odd_parity = (\<lambda>b. b), des_set_key = (\<lambda>b. b), des_encrypt = (\<lambda>k b. xor_block (rev b) k), des_decrypt = (\<lambda>k b. rev (xor_block b k))\<rparr>"

lemma cbc_roundtrip_witness:
  "\<exists>c' ed' c'' ed''. put_crypt_chars reversing 9 ''edition'' False
      (init_des_cipher ''somebyte'' \<lparr>ivec = [], pvec = [], pflag = False, schedule = ''password'', des_buf = ''12345678'', des_ct = 0, des_n = 0\<rparr>)
      (upd_stream 9 (\<lambda>_. empty_stream) sample_ed) = (False, c', ed') \<and>
    flush_des_file reversing 9 c' ed' = (True, c'', ed'') \<and> length (f_data (streams ed'' 9)) = 8"
proof -
  let ?c = "\<lparr>ivec = [], pvec = [], pflag = False, schedule = ''password'', des_buf = ''12345678'', des_ct = 0, des_n = 0\<rparr>"
  let ?ed = "upd_stream 9 (\<lambda>_. empty_stream) sample_ed"
  have "des_ok reversing (schedule ?c)" by (simp add: des_ok_def reversing_def xor_block_inverse)
  moreover have "sys_all_ok ?ed" "streams ?ed 9 = empty_stream" by (simp_all add: sys_all_ok_def upd_stream_def sample_ed_def)
  ultimately show ?thesis
    using cbc_roundtrip [of reversing ?c "''somebyte''" ?ed 9 "''edition''"] by (fastforce simp: crypt_size_def)
qed


end
